(* ===== verification/Prelude.thy ===== *)
theory Prelude
  imports
    Main
    "HOL-Library.Word"
    "HOL-Library.Char_ord"
    "HOL-Library.List_Lexorder"
    "HOL-Library.Product_Lexorder"
    "HOL-Library.Sublist"
    "HOL-Library.Multiset"
    "HOL-Library.AList"
    "HOL-Library.Code_Target_Nat"
begin

text \<open>
  Shared vocabulary of the development: the types that stand for Go's basic types, the
  collections of rewrite rules the component theories extend, and the facts on lists,
  association lists, sorting and decimal numerals that more than one component uses.

  Go strings are byte sequences and \<^typ>\<open>char\<close> is a byte, so a Go string is a
  \<^typ>\<open>string\<close>; \<open>List_Lexorder\<close> over \<open>Char_ord\<close> is Go's bytewise order on
  strings.  A Go map is an association list with distinct keys: \<^const>\<open>map_of\<close> reads it,
  \<^const>\<open>AList.update\<close> writes it, and the order of the list is one order in which a
  \<open>range\<close> loop may visit it.
\<close>

section \<open>Types\<close>

type_synonym u8 = "8 word"
type_synonym u16 = "16 word"
type_synonym u32 = "32 word"
type_synonym ('k, 'v) gomap = "('k \<times> 'v) list"

text \<open>
  A \<open>time.Time\<close> is the number of nanoseconds since Go's zero time (year 1), so that
  \<open>IsZero\<close> is equality with 0; a \<open>time.Duration\<close> is a number of nanoseconds.
\<close>

type_synonym gotime = int
type_synonym duration = int

abbreviation second :: duration where
  "second \<equiv> 1000000000"

abbreviation gokeys :: "('k, 'v) gomap \<Rightarrow> 'k list" where
  "gokeys m \<equiv> map fst m"

abbreviation govals :: "('k, 'v) gomap \<Rightarrow> 'v list" where
  "govals m \<equiv> map snd m"

section \<open>Collections of rewrite rules\<close>

named_theorems netip_simps \<open>predicates of netip.Addr and netip.Prefix\<close>
named_theorems name_simps \<open>names, keys and slugs\<close>
named_theorems lease_simps \<open>leases and snapshots\<close>
named_theorems err_simps \<open>when a chain of error checks returns a value\<close>
named_theorems inv_intros \<open>preservation of component invariants\<close>

section \<open>Chains of error checks\<close>

text \<open>
  \<open>if err != nil { return err }\<close> in its three shapes: a chain returns a value exactly when
  every check passes.
\<close>

lemma case_sum_Inr_iff [err_simps]:
  "(case x of Inl e \<Rightarrow> Inl (g e) | Inr v \<Rightarrow> f v) = Inr y \<longleftrightarrow> (\<exists>v. x = Inr v \<and> f v = Inr y)"
  by (cases x) auto

lemma case_err_Inr_iff [err_simps]:
  "(case x of None \<Rightarrow> f | Some e \<Rightarrow> Inl (g e)) = Inr y \<longleftrightarrow> x = None \<and> f = Inr y"
  by (cases x) auto

lemma case_lookup_Inr_iff [err_simps]:
  "(case x of None \<Rightarrow> Inl e | Some v \<Rightarrow> f v) = Inr y \<longleftrightarrow> (\<exists>v. x = Some v \<and> f v = Inr y)"
  by (cases x) auto

lemma if_err_Inr_iff [err_simps]:
  "(if c then Inl e else f) = Inr y \<longleftrightarrow> \<not> c \<and> f = Inr y"
  "(if c then f else Inl e) = Inr y \<longleftrightarrow> c \<and> f = Inr y"
  by auto

section \<open>Association lists as Go maps\<close>

lemma gokeys_update:
  "gokeys (AList.update k v m) = (if k \<in> set (gokeys m) then gokeys m else gokeys m @ [k])"
  by (induction m) auto

lemma distinct_gokeys_update [simp, intro]:
  "distinct (gokeys m) \<Longrightarrow> distinct (gokeys (AList.update k v m))"
  by (simp add: gokeys_update)

lemma set_gokeys_update [simp]:
  "set (gokeys (AList.update k v m)) = insert k (set (gokeys m))"
  by (auto simp add: gokeys_update)

lemma map_of_update [simp]: "map_of (AList.update k v m) = (map_of m)(k \<mapsto> v)"
  by (rule update_conv')

lemma update_same: "map_of m k = Some v \<Longrightarrow> AList.update k v m = m"
  by (induction m) (auto split: if_splits)

lemma map_of_mem_iff:
  assumes "distinct (gokeys m)"
  shows "map_of m k = Some v \<longleftrightarrow> (k, v) \<in> set m"
  using assms by (simp add: map_of_eq_Some_iff)

lemma map_of_None_iff: "map_of m k = None \<longleftrightarrow> k \<notin> set (gokeys m)"
  by (simp add: map_of_eq_None_iff)

lemma set_update_distinct:
  assumes "distinct (gokeys m)"
  shows "set (AList.update k v m) = insert (k, v) {p \<in> set m. fst p \<noteq> k}"
  using assms by (induction m) (auto simp: rev_image_eqI)

section \<open>Lists\<close>

lemma map_filter_subseq_distinct [intro]:
  "distinct (map f xs) \<Longrightarrow> distinct (map f (filter P xs))"
  by (simp add: distinct_map inj_on_def)

lemma distinct_map_inj: "distinct (map f xs) \<Longrightarrow> x \<in> set xs \<Longrightarrow> y \<in> set xs \<Longrightarrow> f x = f y \<Longrightarrow> x = y"
  by (auto simp: distinct_map inj_on_def)

text \<open>The first element of a list that satisfies a test, with what stands before it.\<close>

lemma find_Some_first:
  assumes "List.find P xs = Some x"
  obtains ys zs where "xs = ys @ x # zs" and "P x" and "\<forall>y\<in>set ys. \<not> P y"
proof -
  have "\<exists>ys zs. xs = ys @ x # zs \<and> P x \<and> (\<forall>y\<in>set ys. \<not> P y)"
    using assms
  proof (induction xs)
    case Nil
    then show ?case by simp
  next
    case (Cons a xs)
    show ?case
    proof (cases "P a")
      case True
      with Cons.prems have "a # xs = [] @ x # xs" "P x" by simp_all
      then show ?thesis by (metis empty_iff list.set(1))
    next
      case False
      with Cons.prems Cons.IH obtain ys zs
        where "xs = ys @ x # zs" "P x" "\<forall>y\<in>set ys. \<not> P y" by auto
      with False have "a # xs = (a # ys) @ x # zs" "P x" "\<forall>y\<in>set (a # ys). \<not> P y" by simp_all
      then show ?thesis by blast
    qed
  qed
  with that show ?thesis by blast
qed

lemma find_Some_in: "List.find P xs = Some x \<Longrightarrow> x \<in> set xs \<and> P x"
  by (erule find_Some_first) simp

lemma find_unique:
  assumes "x \<in> set xs" "P x" "\<And>y. y \<in> set xs \<Longrightarrow> P y \<Longrightarrow> y = x"
  shows "List.find P xs = Some x"
proof -
  obtain y where "List.find P xs = Some y"
    using assms(1,2) by (cases "List.find P xs") (auto simp: find_None_iff)
  with find_Some_in assms(3) show ?thesis by metis
qed

lemma find_None_all: "List.find P xs = None \<longleftrightarrow> (\<forall>x\<in>set xs. \<not> P x)"
  by (auto simp: find_None_iff)

text \<open>Two strings that agree up to their first separator agree on both sides of it.\<close>

lemma append_sep_inject:
  assumes "c \<notin> set a" and "c \<notin> set a'"
  shows "a @ c # b = a' @ c # b' \<longleftrightarrow> a = a' \<and> b = b'"
  using assms
proof (induction a arbitrary: a')
  case Nil
  then show ?case by (cases a') auto
next
  case (Cons x a)
  then show ?case by (cases a') auto
qed

lemma append_sep_inject_last:
  assumes "c \<notin> set b" and "c \<notin> set b'"
  shows "a @ c # b = a' @ c # b' \<longleftrightarrow> a = a' \<and> b = b'"
proof -
  have "a @ c # b = a' @ c # b' \<longleftrightarrow> rev b @ c # rev a = rev b' @ c # rev a'"
    by (metis append.assoc append_Cons append_Nil rev.simps(2) rev_append rev_rev_ident)
  with assms show ?thesis by (simp add: append_sep_inject) auto
qed

section \<open>Sorting by an injective key\<close>

text \<open>
  \<open>sort.Slice\<close> is not stable; where no two elements compare equal its result is the only
  sorted permutation, which \<^const>\<open>sort_key\<close> computes.
\<close>

lemma sort_key_permutation_eq:
  assumes "mset xs = mset ys" and "inj_on f (set xs)"
  shows "sort_key f xs = sort_key f ys"
  using assms by (intro sort_key_inj_key_eq) auto

lemma sort_key_hd_least:
  assumes "x \<in> set xs"
  shows "f (hd (sort_key f xs)) \<le> f x" and "hd (sort_key f xs) \<in> set xs"
proof -
  obtain y ys where s: "sort_key f xs = y # ys"
    using assms by (metis list.exhaust list.set_cases set_empty2 set_sort)
  have m: "set (y # ys) = set xs" using s by (metis set_sort)
  have "sorted (map f (y # ys))" using s by (metis sorted_sort_key)
  then show "f (hd (sort_key f xs)) \<le> f x" using s m assms by auto
  show "hd (sort_key f xs) \<in> set xs" using s m by auto
qed

section \<open>Decimal numerals\<close>

text \<open>\<open>strconv.Itoa\<close> and \<open>strconv.FormatUint\<close> in base 10, and reading digits back.\<close>

definition digit_char :: "nat \<Rightarrow> char" where
  "digit_char d = char_of (48 + d)"

definition is_digit :: "char \<Rightarrow> bool" where
  "is_digit c \<longleftrightarrow> CHR ''0'' \<le> c \<and> c \<le> CHR ''9''"

definition digit_val :: "char \<Rightarrow> nat" where
  "digit_val c = of_char c - 48"

fun dec :: "nat \<Rightarrow> string" where
  "dec n = (if n < 10 then [digit_char n] else dec (n div 10) @ [digit_char (n mod 10)])"

declare dec.simps [simp del]

definition undec :: "string \<Rightarrow> nat" where
  "undec s = foldl (\<lambda>acc c. 10 * acc + digit_val c) 0 s"

lemma is_digit_digit_char [simp]: "d < 10 \<Longrightarrow> is_digit (digit_char d)"
  by (simp add: is_digit_def digit_char_def less_eq_char_def)

lemma digit_val_digit_char [simp]: "d < 10 \<Longrightarrow> digit_val (digit_char d) = d"
  by (simp add: digit_val_def digit_char_def)

lemma digit_char_0_iff: "d < 10 \<Longrightarrow> digit_char d = CHR ''0'' \<longleftrightarrow> d = 0"
proof
  assume "d < 10" and "digit_char d = CHR ''0''"
  then have "d = digit_val (CHR ''0'')" by (metis digit_val_digit_char)
  then show "d = 0" by (simp add: digit_val_def)
qed (simp add: digit_char_def char_of_def bit_0)

lemma dec_ne_Nil [simp]: "dec n \<noteq> []"
  by (subst dec.simps) simp

lemma dec_digits: "c \<in> set (dec n) \<Longrightarrow> is_digit c"
proof (induction n arbitrary: c rule: dec.induct)
  case (1 n)
  show ?case
  proof (cases "n < 10")
    case True
    with "1.prems" show ?thesis by (simp add: dec.simps [of n])
  next
    case False
    with "1.prems" have "c \<in> set (dec (n div 10)) \<or> c = digit_char (n mod 10)"
      by (auto simp: dec.simps [of n])
    with False "1.IH" show ?thesis by auto
  qed
qed

lemma undec_append_single: "undec (s @ [c]) = 10 * undec s + digit_val c"
  by (simp add: undec_def)

lemma undec_dec [simp]: "undec (dec n) = n"
proof (induction n rule: dec.induct)
  case (1 n)
  then show ?case
    by (cases "n < 10") (simp_all add: dec.simps [of n] undec_append_single, simp add: undec_def)
qed

lemma dec_inject [simp]: "dec m = dec n \<longleftrightarrow> m = n"
  by (metis undec_dec)

lemma dec_hd_zero: "hd (dec n) = CHR ''0'' \<longleftrightarrow> n = 0"
proof (induction n rule: dec.induct)
  case (1 n)
  then show ?case
    by (cases "n < 10") (simp_all add: dec.simps [of n] digit_char_0_iff)
qed

lemma dec_no_sep: "\<not> is_digit c \<Longrightarrow> c \<notin> set (dec n)"
  using dec_digits by blast

end
