(* ===== verification/Golib.thy ===== *)
theory Golib
  imports Prelude
begin

text \<open>
  The functions of Go's packages \<open>strings\<close> and \<open>strconv\<close> that the program calls, on byte
  strings.  \<open>ToLower\<close> and \<open>TrimSpace\<close> act on ASCII bytes; a byte outside ASCII is left
  alone.
\<close>

section \<open>Package strings\<close>

definition is_space :: "char \<Rightarrow> bool" where
  "is_space c \<longleftrightarrow> c = CHR '' '' \<or> (CHR 0x09 \<le> c \<and> c \<le> CHR 0x0D)"

definition TrimSpace :: "string \<Rightarrow> string" where
  "TrimSpace s = rev (dropWhile is_space (rev (dropWhile is_space s)))"

definition lower_char :: "char \<Rightarrow> char" where
  "lower_char c = (if CHR ''A'' \<le> c \<and> c \<le> CHR ''Z'' then char_of (of_char c + 32 :: nat) else c)"

definition ToLower :: "string \<Rightarrow> string" where
  "ToLower s = map lower_char s"

definition EqualFold :: "string \<Rightarrow> string \<Rightarrow> bool" where
  "EqualFold s t \<longleftrightarrow> ToLower s = ToLower t"

abbreviation HasPrefix :: "string \<Rightarrow> string \<Rightarrow> bool" where
  "HasPrefix s p \<equiv> prefix p s"

abbreviation HasSuffix :: "string \<Rightarrow> string \<Rightarrow> bool" where
  "HasSuffix s p \<equiv> suffix p s"

definition TrimPrefix :: "string \<Rightarrow> string \<Rightarrow> string" where
  "TrimPrefix s p = (if HasPrefix s p then drop (length p) s else s)"

definition TrimSuffix :: "string \<Rightarrow> string \<Rightarrow> string" where
  "TrimSuffix s p = (if HasSuffix s p then take (length s - length p) s else s)"

text \<open>
  \<open>LastIndexByte\<close> as a split: the text before and after the last occurrence of the byte.
\<close>

fun split_last :: "char \<Rightarrow> string \<Rightarrow> (string \<times> string) option" where
  "split_last c [] = None"
| "split_last c (x # xs) =
     (case split_last c xs of
        Some (a, b) \<Rightarrow> Some (x # a, b)
      | None \<Rightarrow> if x = c then Some ([], xs) else None)"

text \<open>
  \<open>net.SplitHostPort\<close>: the host and the port around the last colon; a host with colons stands
  in brackets.
\<close>

definition SplitHostPort :: "string \<Rightarrow> (string \<times> string) option" where
  "SplitHostPort s =
     (case split_last (CHR '':'') s of
        None \<Rightarrow> None
      | Some (before, port) \<Rightarrow>
          let bracketed = (hd s = CHR ''['');
              host = (if bracketed then butlast (tl before) else before)
          in if bracketed \<and> (length before < 2 \<or> last before \<noteq> CHR '']'') then None
             else if \<not> bracketed \<and> CHR '':'' \<in> set host then None
             else if CHR ''['' \<in> set (host @ port) \<or> CHR '']'' \<in> set (host @ port) then None
             else Some (host, port))"

lemma is_space_digit [simp]: "is_digit c \<Longrightarrow> \<not> is_space c"
  by (auto simp: is_digit_def is_space_def less_eq_char_def)

lemma TrimSpace_id:
  assumes "\<And>c. c \<in> set s \<Longrightarrow> \<not> is_space c"
  shows "TrimSpace s = s"
proof -
  have "dropWhile is_space t = t" if "set t \<subseteq> set s" for t
    using that assms by (simp add: dropWhile_eq_self_iff) (metis hd_in_set subsetD)
  from this [of s] this [of "rev s"] show ?thesis by (simp add: TrimSpace_def)
qed

lemma lower_char_of_upper:
  assumes "CHR ''A'' \<le> c" and "c \<le> CHR ''Z''"
  shows "of_char (lower_char c) = (of_char c + 32 :: nat)"
proof -
  have "of_char c \<le> (90 :: nat)" using assms by (simp add: less_eq_char_def)
  then show ?thesis using assms by (simp add: lower_char_def)
qed

lemma lower_char_idem [simp]: "lower_char (lower_char c) = lower_char c"
proof (cases "CHR ''A'' \<le> c \<and> c \<le> CHR ''Z''")
  case True
  then have "of_char (lower_char c) = (of_char c + 32 :: nat)" and "65 \<le> (of_char c :: nat)"
    by (simp_all add: lower_char_of_upper less_eq_char_def)
  then have "\<not> lower_char c \<le> CHR ''Z''" by (simp add: less_eq_char_def)
  then show ?thesis by (simp add: lower_char_def [of "lower_char c"])
next
  case False
  then have "lower_char c = c" by (auto simp: lower_char_def)
  then show ?thesis by simp
qed

lemma ToLower_idem [simp]: "ToLower (ToLower s) = ToLower s"
  by (simp add: ToLower_def)

lemma ToLower_append [simp]: "ToLower (s @ t) = ToLower s @ ToLower t"
  by (simp add: ToLower_def)

lemma split_last_None: "split_last c s = None \<longleftrightarrow> c \<notin> set s"
  by (induction s) (auto split: option.splits)

lemma split_last_append: "c \<notin> set b \<Longrightarrow> split_last c (a @ c # b) = Some (a, b)"
  by (induction a) (simp_all add: split_last_None [THEN iffD2])

lemma split_last_Some: "split_last c s = Some (a, b) \<Longrightarrow> s = a @ c # b \<and> c \<notin> set b"
  by (induction s arbitrary: a b) (auto simp: split_last_None split: option.splits if_splits)

section \<open>Package strconv\<close>

text \<open>
  \<open>ParseUint(s, 10, bits)\<close>: a non-empty string of digits whose value fits; everything else,
  a sign included, is an error.
\<close>

definition ParseUint :: "string \<Rightarrow> nat \<Rightarrow> nat option" where
  "ParseUint s bits =
     (if s = [] \<or> \<not> list_all is_digit s then None
      else if undec s < 2 ^ bits then Some (undec s) else None)"

text \<open>\<open>Atoi\<close> accepts a leading sign and needs at least one digit; \<open>int\<close> has 64 bits.\<close>

definition Atoi :: "string \<Rightarrow> int option" where
  "Atoi s =
     (let neg = (s \<noteq> [] \<and> hd s = CHR ''-'');
          ds = (if s \<noteq> [] \<and> (hd s = CHR ''-'' \<or> hd s = CHR ''+'') then tl s else s);
          n = int (undec ds)
      in if ds = [] \<or> \<not> list_all is_digit ds then None
         else if neg then (if n \<le> 2 ^ 63 then Some (- n) else None)
         else (if n < 2 ^ 63 then Some n else None))"

text \<open>
  Base 0: the prefixes \<open>0b\<close>, \<open>0o\<close> and \<open>0x\<close>, a leading \<open>0\<close> for octal, and underscores between digits.  The base and the
  digits that remain:
\<close>

definition numBase :: "string \<Rightarrow> nat \<times> string" where
  "numBase s =
     (if s = [] \<or> hd s \<noteq> CHR ''0'' then (10, s)
      else if length s \<ge> 3 \<and> lower_char (s ! 1) = CHR ''b'' then (2, drop 2 s)
      else if length s \<ge> 3 \<and> lower_char (s ! 1) = CHR ''o'' then (8, drop 2 s)
      else if length s \<ge> 3 \<and> lower_char (s ! 1) = CHR ''x'' then (16, drop 2 s)
      else (8, tl s))"

definition digitOf :: "nat \<Rightarrow> char \<Rightarrow> nat option" where
  "digitOf base c =
     (let l = lower_char c;
          d = (if is_digit c then Some (digit_val c)
               else if CHR ''a'' \<le> l \<and> l \<le> CHR ''z'' then Some (of_char l - 87) else None)
      in case d of Some n \<Rightarrow> if n < base then Some n else None | None \<Rightarrow> None)"

fun digitsVal :: "nat \<Rightarrow> nat \<Rightarrow> string \<Rightarrow> nat option" where
  "digitsVal base n [] = Some n"
| "digitsVal base n (c # cs) =
     (if c = CHR ''_'' then digitsVal base n cs
      else case digitOf base c of None \<Rightarrow> None | Some d \<Rightarrow> digitsVal base (n * base + d) cs)"

text \<open>\<open>underscoreOK\<close>: an underscore stands between digits only; a base prefix counts as a digit.\<close>

fun underscores :: "bool \<Rightarrow> char \<Rightarrow> string \<Rightarrow> bool" where
  "underscores hex saw [] = (saw \<noteq> CHR ''_'')"
| "underscores hex saw (c # cs) =
     (if is_digit c \<or> (hex \<and> CHR ''a'' \<le> lower_char c \<and> lower_char c \<le> CHR ''f'') then underscores hex (CHR ''0'') cs
      else if c = CHR ''_'' then saw = CHR ''0'' \<and> underscores hex c cs
      else saw \<noteq> CHR ''_'' \<and> underscores hex (CHR ''!'') cs)"

definition underscoreOK :: "string \<Rightarrow> bool" where
  "underscoreOK s =
     (if length s \<ge> 2 \<and> hd s = CHR ''0'' \<and> lower_char (s ! 1) \<in> set ''box''
      then underscores (lower_char (s ! 1) = CHR ''x'') (CHR ''0'') (drop 2 s)
      else underscores False (CHR ''^'') s)"

definition ParseUint0 :: "string \<Rightarrow> nat \<Rightarrow> nat option" where
  "ParseUint0 s bits =
     (if s = [] then None
      else case numBase s of (base, ds) \<Rightarrow>
        (case digitsVal base 0 ds of
           None \<Rightarrow> None
         | Some n \<Rightarrow> if n < 2 ^ bits \<and> (CHR ''_'' \<in> set ds \<longrightarrow> underscoreOK s) then Some n else None))"

definition ParseInt0 :: "string \<Rightarrow> int option" where
  "ParseInt0 s =
     (let neg = (s \<noteq> [] \<and> hd s = CHR ''-'');
          r = (if s \<noteq> [] \<and> (hd s = CHR ''-'' \<or> hd s = CHR ''+'') then tl s else s)
      in case ParseUint0 r 64 of
        None \<Rightarrow> None
      | Some n \<Rightarrow> if neg then (if n \<le> 2 ^ 63 then Some (- int n) else None)
                  else (if n < 2 ^ 63 then Some (int n) else None))"

lemma ParseUint_dec [simp]: "n < 2 ^ bits \<Longrightarrow> ParseUint (dec n) bits = Some n"
  by (simp add: ParseUint_def list_all_iff dec_digits)

lemma ParseUint_Some:
  "ParseUint s bits = Some n \<longleftrightarrow> s \<noteq> [] \<and> list_all is_digit s \<and> n = undec s \<and> n < 2 ^ bits"
  by (auto simp: ParseUint_def)

lemma not_digit_sign [simp]:
  "\<not> is_digit (CHR ''+'')" "\<not> is_digit (CHR ''-'')" "\<not> is_digit (CHR ''.'')"
  "\<not> is_digit (CHR ''|'')" "\<not> is_digit (CHR '':'')" "\<not> is_digit (CHR ''/'')"
  "\<not> is_digit (CHR ''%'')"
  by (simp_all add: is_digit_def)

lemma Atoi_dec [simp]:
  assumes "int n < 2 ^ 63"
  shows "Atoi (dec n) = Some (int n)"
proof -
  have "is_digit (hd (dec n))"
    by (rule dec_digits [OF hd_in_set]) simp
  then have "hd (dec n) \<noteq> CHR ''-''" "hd (dec n) \<noteq> CHR ''+''"
    by (metis not_digit_sign(2), metis not_digit_sign(1))
  with assms show ?thesis
    by (simp add: Atoi_def list_all_iff dec_digits)
qed

end
