(* ===== verification/Netip.thy ===== *)
theory Netip
  imports Golib
begin

unbundle bit_operations_syntax

text \<open>
  Go's package \<open>net/netip\<close>, as far as the program uses it: addresses of both families with
  the zero value, their predicates, their text forms, and CIDR prefixes.  A parse error
  carries no detail the program looks at, so a parser returns an option.
\<close>

section \<open>Addresses\<close>

datatype addr =
    AddrZero
  | Addr4 u32
  | Addr6 "128 word" string  \<comment> \<open>with its zone\<close>

fun IsValid :: "addr \<Rightarrow> bool" where
  "IsValid AddrZero = False"
| "IsValid _ = True"

fun Is4 :: "addr \<Rightarrow> bool" where
  "Is4 (Addr4 _) = True"
| "Is4 _ = False"

definition is4in6 :: "128 word \<Rightarrow> bool" where
  "is4in6 w \<longleftrightarrow> drop_bit 32 w = 0xFFFF"

text \<open>The four bytes of an IPv4 address and back (\<open>As4\<close> and \<open>AddrFrom4\<close>).\<close>

definition byte_at :: "nat \<Rightarrow> u32 \<Rightarrow> u8" where
  "byte_at k ip = ucast (drop_bit k ip)"

definition pack4 :: "u8 \<Rightarrow> u8 \<Rightarrow> u8 \<Rightarrow> u8 \<Rightarrow> u32" where
  "pack4 b0 b1 b2 b3 =
     (push_bit 24 (ucast b0) OR push_bit 16 (ucast b1) OR push_bit 8 (ucast b2) OR ucast b3)"

definition AddrFrom4 :: "u8 \<times> u8 \<times> u8 \<times> u8 \<Rightarrow> addr" where
  "AddrFrom4 b = (case b of (b0, b1, b2, b3) \<Rightarrow> Addr4 (pack4 b0 b1 b2 b3))"

definition bytes4 :: "u32 \<Rightarrow> u8 \<times> u8 \<times> u8 \<times> u8" where
  "bytes4 ip = (byte_at 24 ip, byte_at 16 ip, byte_at 8 ip, byte_at 0 ip)"

text \<open>\<open>As4\<close> panics on the zero address and on IPv6 addresses that do not embed IPv4.\<close>

fun As4 :: "addr \<Rightarrow> (u8 \<times> u8 \<times> u8 \<times> u8) option" where
  "As4 (Addr4 ip) = Some (bytes4 ip)"
| "As4 (Addr6 w z) = (if is4in6 w then Some (bytes4 (ucast w)) else None)"
| "As4 AddrZero = None"

fun IsLoopback :: "addr \<Rightarrow> bool" where
  "IsLoopback AddrZero = False"
| "IsLoopback (Addr4 ip) = (byte_at 24 ip = 127)"
| "IsLoopback (Addr6 w z) = (if is4in6 w then byte_at 24 (ucast w) = 127 else w = 1)"

fun IsUnspecified :: "addr \<Rightarrow> bool" where
  "IsUnspecified AddrZero = False"
| "IsUnspecified (Addr4 ip) = (ip = 0)"
| "IsUnspecified (Addr6 w z) = (w = 0 \<and> z = [])"

text \<open>The address 127.0.0.1.\<close>

definition loopback4 :: addr where
  "loopback4 = Addr4 0x7F000001"

lemma pack4_bytes4 [simp]:
  "pack4 (byte_at 24 ip) (byte_at 16 ip) (byte_at 8 ip) (byte_at 0 ip) = ip"
proof (rule bit_word_eqI)
  fix n :: nat
  assume "n < LENGTH(32)"
  then consider "n < 8" | "8 \<le> n" "n < 16" | "16 \<le> n" "n < 24" | "24 \<le> n" "n < 32"
    by fastforce
  then show "bit (pack4 (byte_at 24 ip) (byte_at 16 ip) (byte_at 8 ip) (byte_at 0 ip)) n = bit ip n"
    by cases (auto simp: pack4_def byte_at_def bit_simps)
qed

lemma AddrFrom4_bytes4 [simp]: "AddrFrom4 (bytes4 ip) = Addr4 ip"
  by (simp add: AddrFrom4_def bytes4_def)

lemma byte_at_pack4 [simp]:
  "byte_at 24 (pack4 b0 b1 b2 b3) = b0" "byte_at 16 (pack4 b0 b1 b2 b3) = b1"
  "byte_at 8 (pack4 b0 b1 b2 b3) = b2" "byte_at 0 (pack4 b0 b1 b2 b3) = b3"
  by (rule bit_word_eqI, auto simp: pack4_def byte_at_def bit_simps dest: bit_imp_le_length)+

lemma bytes4_pack4 [simp]: "bytes4 (pack4 b0 b1 b2 b3) = (b0, b1, b2, b3)"
  by (simp add: bytes4_def)

lemma loopback4_facts [simp]:
  "IsValid loopback4" "Is4 loopback4" "IsLoopback loopback4" "\<not> IsUnspecified loopback4"
  by (simp_all add: loopback4_def byte_at_def)

lemma Is4_valid: "Is4 a \<Longrightarrow> IsValid a"
  by (cases a) auto

lemma Is4E:
  assumes "Is4 a"
  obtains ip where "a = Addr4 ip"
  using assms by (cases a) auto

section \<open>Text forms\<close>

definition string4 :: "u32 \<Rightarrow> string" where
  "string4 ip =
     dec (unat (byte_at 24 ip)) @ ''.'' @ dec (unat (byte_at 16 ip)) @ ''.'' @
     dec (unat (byte_at 8 ip)) @ ''.'' @ dec (unat (byte_at 0 ip))"

definition hex_digit :: "nat \<Rightarrow> char" where
  "hex_digit d = (if d < 10 then digit_char d else char_of (87 + d))"

fun hex :: "nat \<Rightarrow> string" where
  "hex n = (if n < 16 then [hex_digit n] else hex (n div 16) @ [hex_digit (n mod 16)])"

declare hex.simps [simp del]

definition hextets :: "128 word \<Rightarrow> u16 list" where
  "hextets w = map (\<lambda>i. ucast (drop_bit (112 - 16 * i) w)) [0..<8]"

text \<open>
  The zero run that the text form of an IPv6 address compresses: the first longest one of at
  least two groups.
\<close>

fun zero_run :: "nat \<Rightarrow> u16 list \<Rightarrow> (nat \<times> nat) option \<Rightarrow> (nat \<times> nat) option" where
  "zero_run i [] best = best"
| "zero_run i (g # gs) best =
     (let l = length (takeWhile (\<lambda>x. x = 0) (g # gs));
          b = (case best of None \<Rightarrow> 0 | Some (s, e) \<Rightarrow> e - s)
      in zero_run (Suc i) gs (if 2 \<le> l \<and> b < l then Some (i, i + l) else best))"

definition join_groups :: "u16 list \<Rightarrow> string" where
  "join_groups gs = concat (map (\<lambda>(i, g). (if i = 0 then [] else '':'') @ hex (unat g))
     (zip [0..<length gs] gs))"

definition string6 :: "128 word \<Rightarrow> string \<Rightarrow> string" where
  "string6 w z =
     (let gs = hextets w
      in case zero_run 0 gs None of
           None \<Rightarrow> join_groups gs
         | Some (s, e) \<Rightarrow> join_groups (take s gs) @ ''::'' @ join_groups (drop e gs))
     @ (if z = [] then [] else ''%'' @ z)"

fun Addr_String :: "addr \<Rightarrow> string" where
  "Addr_String AddrZero = ''invalid IP''"
| "Addr_String (Addr4 ip) = string4 ip"
| "Addr_String (Addr6 w z) =
     (if is4in6 w
      then ''::ffff:'' @ string4 (ucast w) @ (if z = [] then [] else ''%'' @ z)
      else string6 w z)"

text \<open>
  \<open>parseIPv4Fields\<close>: a scan with the octets read so far, the value and the number of digits
  of the current octet, and whether the previous byte was a dot (or there was none).
\<close>

fun parse4_loop :: "string \<Rightarrow> u8 list \<Rightarrow> nat \<Rightarrow> nat \<Rightarrow> bool \<Rightarrow> u8 list option" where
  "parse4_loop [] acc val digLen dot =
     (if length acc < 3 then None else Some (acc @ [of_nat val]))"
| "parse4_loop (c # cs) acc val digLen dot =
     (if is_digit c then
        (if digLen = 1 \<and> val = 0 then None
         else if 255 < val * 10 + digit_val c then None
         else parse4_loop cs acc (val * 10 + digit_val c) (Suc digLen) False)
      else if c = CHR ''.'' then
        (if dot \<or> cs = [] then None
         else if length acc = 3 then None
         else parse4_loop cs (acc @ [of_nat val]) 0 0 True)
      else None)"

definition parseIPv4Fields :: "string \<Rightarrow> (u8 \<times> u8 \<times> u8 \<times> u8) option" where
  "parseIPv4Fields s =
     (case parse4_loop s [] 0 0 True of
        Some [a, b, c, d] \<Rightarrow> Some (a, b, c, d)
      | _ \<Rightarrow> None)"

definition parseIPv4 :: "string \<Rightarrow> addr option" where
  "parseIPv4 s = map_option AddrFrom4 (parseIPv4Fields s)"

definition is_hex :: "char \<Rightarrow> bool" where
  "is_hex c \<longleftrightarrow> is_digit c \<or> (CHR ''a'' \<le> c \<and> c \<le> CHR ''f'') \<or> (CHR ''A'' \<le> c \<and> c \<le> CHR ''F'')"

definition hex_val :: "char \<Rightarrow> nat" where
  "hex_val c = (if is_digit c then digit_val c
                else if CHR ''a'' \<le> c then of_char c - 87 else of_char c - 55)"

definition unhex :: "string \<Rightarrow> nat" where
  "unhex s = foldl (\<lambda>acc c. 16 * acc + hex_val c) 0 s"

text \<open>
  The group loop of \<open>parseIPv6\<close>: at most \<open>n\<close> more groups, the groups read, the position of
  the ellipsis, the rest of the text.  An embedded IPv4 address fills two groups and ends
  the loop.
\<close>

fun parse6_loop :: "nat \<Rightarrow> u16 list \<Rightarrow> nat option \<Rightarrow> string
    \<Rightarrow> (u16 list \<times> nat option \<times> string) option" where
  "parse6_loop 0 acc ell s = Some (acc, ell, s)"
| "parse6_loop (Suc n) acc ell s =
     (let h = takeWhile is_hex s; r = dropWhile is_hex s; acc' = acc @ [of_nat (unhex h)]
      in if h = [] \<or> 4 < length h then None
         else if r \<noteq> [] \<and> hd r = CHR ''.'' then
           (if ell = None \<and> length acc \<noteq> 6 then None
            else if 8 < length acc + 2 then None
            else case parseIPv4Fields s of
                   None \<Rightarrow> None
                 | Some (a, b, c, d) \<Rightarrow>
                     Some (acc @ [push_bit 8 (ucast a) OR ucast b, push_bit 8 (ucast c) OR ucast d],
                           ell, []))
         else case r of
                [] \<Rightarrow> Some (acc', ell, [])
              | c # r' \<Rightarrow>
                  if c \<noteq> CHR '':'' \<or> r' = [] then None
                  else if hd r' = CHR '':'' then
                    (if ell \<noteq> None then None
                     else if tl r' = [] then Some (acc', Some (length acc'), [])
                     else parse6_loop n acc' (Some (length acc')) (tl r'))
                  else parse6_loop n acc' ell r')"

definition join_hextets :: "u16 list \<Rightarrow> 128 word" where
  "join_hextets gs = foldl (\<lambda>acc g. push_bit 16 acc OR ucast g) 0 gs"

definition parseIPv6 :: "string \<Rightarrow> addr option" where
  "parseIPv6 txt =
     (let s = takeWhile (\<lambda>c. c \<noteq> CHR ''%'') txt;
          rest = dropWhile (\<lambda>c. c \<noteq> CHR ''%'') txt;
          zone = tl rest
      in if rest \<noteq> [] \<and> zone = [] then None
         else
           let lead = (2 \<le> length s \<and> take 2 s = ''::'');
               s' = (if lead then drop 2 s else s)
           in if lead \<and> s' = [] then Some (Addr6 0 zone)
              else case parse6_loop 8 [] (if lead then Some 0 else None) s' of
                     None \<Rightarrow> None
                   | Some (gs, ell, left) \<Rightarrow>
                       if left \<noteq> [] then None
                       else if length gs < 8 then
                         (case ell of
                            None \<Rightarrow> None
                          | Some e \<Rightarrow>
                              Some (Addr6 (join_hextets
                                (take e gs @ replicate (8 - length gs) 0 @ drop e gs)) zone))
                       else if ell \<noteq> None then None
                       else Some (Addr6 (join_hextets gs) zone))"

text \<open>\<open>ParseAddr\<close> picks the family by the first dot, colon or percent sign.\<close>

definition ParseAddr :: "string \<Rightarrow> addr option" where
  "ParseAddr s =
     (case List.find (\<lambda>c. c = CHR ''.'' \<or> c = CHR '':'' \<or> c = CHR ''%'') s of
        Some c \<Rightarrow> (if c = CHR ''.'' then parseIPv4 s
                   else if c = CHR '':'' then parseIPv6 s else None)
      | None \<Rightarrow> None)"

section \<open>Prefixes\<close>

record netprefix =
  Prefix_Addr :: addr
  Prefix_Bits :: nat

definition ParsePrefix :: "string \<Rightarrow> netprefix option" where
  "ParsePrefix s =
     (case split_last (CHR ''/'') s of
        None \<Rightarrow> None
      | Some (ipStr, bitsStr) \<Rightarrow>
          (case ParseAddr ipStr of
             None \<Rightarrow> None
           | Some ip \<Rightarrow>
               if (case ip of Addr6 w z \<Rightarrow> z \<noteq> [] | _ \<Rightarrow> False) then None
               else if 1 < length bitsStr \<and> (hd bitsStr < CHR ''1'' \<or> CHR ''9'' < hd bitsStr) then None
               else (case Atoi bitsStr of
                       None \<Rightarrow> None
                     | Some bits \<Rightarrow>
                         if bits < 0 \<or> (if Is4 ip then 32 else 128) < bits then None
                         else Some \<lparr>Prefix_Addr = ip, Prefix_Bits = nat bits\<rparr>)))"

fun mask_addr :: "addr \<Rightarrow> nat \<Rightarrow> addr" where
  "mask_addr AddrZero bits = AddrZero"
| "mask_addr (Addr4 ip) bits = Addr4 (ip AND NOT (mask (32 - bits)))"
| "mask_addr (Addr6 w z) bits = Addr6 (w AND NOT (mask (128 - bits))) []"

definition Masked :: "netprefix \<Rightarrow> netprefix" where
  "Masked p = p\<lparr>Prefix_Addr := mask_addr (Prefix_Addr p) (Prefix_Bits p)\<rparr>"

fun Prefix_Contains :: "netprefix \<Rightarrow> addr \<Rightarrow> bool" where
  "Prefix_Contains p (Addr4 a) =
     (case Prefix_Addr p of
        Addr4 ip \<Rightarrow> drop_bit (32 - Prefix_Bits p) (a XOR ip) = 0
      | _ \<Rightarrow> False)"
| "Prefix_Contains p (Addr6 a z) =
     (case Prefix_Addr p of
        Addr6 w _ \<Rightarrow> z = [] \<and> drop_bit (128 - Prefix_Bits p) (a XOR w) = 0
      | _ \<Rightarrow> False)"
| "Prefix_Contains p AddrZero = False"

text \<open>The prefix 127.0.0.0/8.\<close>

definition loopback_prefix :: netprefix where
  "loopback_prefix = \<lparr>Prefix_Addr = Addr4 0x7F000000, Prefix_Bits = 8\<rparr>"

section \<open>Facts\<close>

lemma dec_1: "n < 10 \<Longrightarrow> dec n = [digit_char n]"
  by (subst dec.simps) simp

lemma dec_2: "10 \<le> n \<Longrightarrow> n < 100 \<Longrightarrow> dec n = [digit_char (n div 10), digit_char (n mod 10)]"
  by (subst dec.simps) (simp add: dec_1)

lemma dec_3:
  "100 \<le> n \<Longrightarrow> n < 1000 \<Longrightarrow>
     dec n = [digit_char (n div 100), digit_char (n div 10 mod 10), digit_char (n mod 10)]"
  by (subst dec.simps) (simp add: dec_2 flip: div_mult2_eq)

text \<open>The scanner reads the decimal text of an octet as that octet.\<close>

lemma parse4_loop_octet:
  assumes "n < 256"
  shows "parse4_loop (dec n @ rest) acc 0 0 dot = parse4_loop rest acc n (length (dec n)) False"
proof -
  consider "n < 10" | "10 \<le> n" "n < 100" | "100 \<le> n" by linarith
  then show ?thesis
  proof cases
    case 1
    then show ?thesis using assms by (simp add: dec_1)
  next
    case 2
    then have "n div 10 \<noteq> 0" "n div 10 * 10 + n mod 10 = n" "n div 10 \<le> 255" by auto
    with 2 show ?thesis using assms by (simp add: dec_2)
  next
    case 3
    have "n div 100 = n div 10 div 10" by (simp flip: div_mult2_eq)
    then have "n div 100 * 10 + n div 10 mod 10 = n div 10" by simp
    moreover from 3 have "n div 100 \<noteq> 0" "n div 10 * 10 + n mod 10 = n" "n div 100 < 10"
      "n div 10 \<le> 255" using assms by auto
    ultimately show ?thesis using 3 assms by (simp add: dec_3)
  qed
qed

lemma unat_byte_lt [simp]: "unat (b :: u8) < 256"
  using unsigned_less [where ?'a = nat, of b] by simp

theorem parseIPv4Fields_string4 [simp]: "parseIPv4Fields (string4 ip) = Some (bytes4 ip)"
  by (simp add: parseIPv4Fields_def string4_def bytes4_def parse4_loop_octet
      parse4_loop_octet [where rest = "[]", simplified])

lemma string4_first_sep:
  "List.find (\<lambda>c. c = CHR ''.'' \<or> c = CHR '':'' \<or> c = CHR ''%'') (string4 ip) = Some (CHR ''.'')"
proof -
  have find_append: "List.find P (xs @ c # ys) = Some c"
    if "P c" "\<forall>x\<in>set xs. \<not> P x" for P :: "char \<Rightarrow> bool" and xs c ys
    using that by (induction xs) auto
  have "\<forall>c\<in>set (dec n). \<not> (c = CHR ''.'' \<or> c = CHR '':'' \<or> c = CHR ''%'')" for n
    by (auto dest!: dec_digits)
  then show ?thesis by (simp add: string4_def find_append)
qed

theorem ParseAddr_string4 [simp]: "ParseAddr (string4 ip) = Some (Addr4 ip)"
  by (simp add: ParseAddr_def string4_first_sep parseIPv4_def)

lemma string4_inject [simp]: "string4 a = string4 b \<longleftrightarrow> a = b"
  by (metis ParseAddr_string4 addr.inject(1) option.inject)

lemma string4_chars: "c \<in> set (string4 ip) \<Longrightarrow> is_digit c \<or> c = CHR ''.''"
  by (auto simp: string4_def dest: dec_digits)

end
