(* ===== verification/Domain.thy ===== *)
theory Domain
  imports Netip
begin

text \<open>
  Package \<open>internal/domain\<close>: the stack and endpoint types (\<open>types.go\<close>), the construction of
  stack keys, DNS names and endpoint keys (\<open>names.go\<close>), and the validation of slugs and
  ports (\<open>validate.go\<close>).
\<close>

section \<open>Types\<close>

type_synonym StackKey = string
type_synonym Protocol = string

definition ProtocolTCP :: Protocol where
  "ProtocolTCP = ''tcp''"

record Stack =
  Stack_Key :: StackKey
  Stack_ProjectSlug :: string
  Stack_InstanceSlug :: string
  Stack_ComposeProject :: string
  Stack_VIP :: addr

record Endpoint =
  Ep_StackKey :: StackKey
  Ep_Name :: string
  Ep_FQDN :: string
  Ep_Protocol :: Protocol
  Ep_VIP :: addr
  Ep_PublicPort :: u16
  Ep_TargetPort :: u16
  Ep_TargetHost :: addr
  Ep_TargetBind :: u16
  Ep_ContainerID :: string
  Ep_ServiceName :: string

record DesiredState =
  Stacks :: "(StackKey, Stack) gomap"
  Endpoints :: "(string, Endpoint) gomap"

section \<open>Names\<close>

definition MakeStackKey :: "string \<Rightarrow> string \<Rightarrow> StackKey" where
  "MakeStackKey project inst = (if inst = '''' then project else project @ ''/'' @ inst)"

definition BuildFQDNs :: "string \<Rightarrow> string \<Rightarrow> string \<Rightarrow> string \<Rightarrow> string \<times> string" where
  "BuildFQDNs endpoint project inst baseDomain =
     (if inst \<noteq> '''' then
        (endpoint @ ''.'' @ inst @ ''.'' @ project @ ''.'' @ baseDomain,
         inst @ ''.'' @ project @ ''.'' @ baseDomain)
      else
        (endpoint @ ''.'' @ project @ ''.'' @ baseDomain,
         project @ ''.'' @ baseDomain))"

definition EndpointMapKey :: "string \<Rightarrow> u16 \<Rightarrow> Protocol \<Rightarrow> string" where
  "EndpointMapKey fqdn port proto = fqdn @ ''|'' @ dec (unat port) @ ''|'' @ proto"

section \<open>Regular expressions\<close>

text \<open>
  The fragment of \<open>regexp\<close> that the slug pattern needs.  \<open>rests r s\<close> lists what can be left
  of \<open>s\<close> after a prefix that \<open>r\<close> matches; an anchored match leaves nothing.
\<close>

datatype regex =
    Class "char \<Rightarrow> bool"
  | Seq regex regex
  | Upto nat regex
  | Optional regex

primrec repeat_upto :: "nat \<Rightarrow> (string \<Rightarrow> string list) \<Rightarrow> string \<Rightarrow> string list" where
  "repeat_upto 0 f s = [s]"
| "repeat_upto (Suc n) f s = s # concat (map (repeat_upto n f) (f s))"

primrec rests :: "regex \<Rightarrow> string \<Rightarrow> string list" where
  "rests (Class P) s = (case s of [] \<Rightarrow> [] | c # cs \<Rightarrow> if P c then [cs] else [])"
| "rests (Seq a b) s = concat (map (rests b) (rests a s))"
| "rests (Upto n a) s = repeat_upto n (rests a) s"
| "rests (Optional a) s = s # rests a s"

declare rests.simps(1) [simp del]

definition MatchString :: "regex \<Rightarrow> string \<Rightarrow> bool" where
  "MatchString r s \<longleftrightarrow> [] \<in> set (rests r s)"

definition is_alnum :: "char \<Rightarrow> bool" where
  "is_alnum c \<longleftrightarrow> (CHR ''a'' \<le> c \<and> c \<le> CHR ''z'') \<or> (CHR ''0'' \<le> c \<and> c \<le> CHR ''9'')"

definition is_slug_char :: "char \<Rightarrow> bool" where
  "is_slug_char c \<longleftrightarrow> is_alnum c \<or> c = CHR ''-''"

definition slugRE :: regex where
  "slugRE = Seq (Class is_alnum) (Optional (Seq (Upto 61 (Class is_slug_char)) (Class is_alnum)))"

section \<open>Validation\<close>

datatype slug_problem = SlugEmpty | SlugTooLong string | SlugPattern string

datatype domain_error = ErrInvalidSlug slug_problem | ErrInvalidPort

text \<open>A returned \<open>error\<close> that may be \<open>nil\<close> is an option: \<^const>\<open>None\<close> is \<open>nil\<close>.\<close>

definition ValidateSlug :: "string \<Rightarrow> domain_error option" where
  "ValidateSlug s =
     (if s = '''' then Some (ErrInvalidSlug SlugEmpty)
      else if 63 < length s then Some (ErrInvalidSlug (SlugTooLong s))
      else if \<not> MatchString slugRE s then Some (ErrInvalidSlug (SlugPattern s))
      else None)"

definition ValidatePort :: "u16 \<Rightarrow> domain_error option" where
  "ValidatePort port = (if port = 0 then Some ErrInvalidPort else None)"

section \<open>What a slug is\<close>

text \<open>
  A DNS label as the comments describe it: 1 to 63 bytes of \<open>a-z0-9-\<close>, no hyphen at either
  end.
\<close>

definition dns_label :: "string \<Rightarrow> bool" where
  "dns_label s \<longleftrightarrow> s \<noteq> [] \<and> length s \<le> 63 \<and> (\<forall>c\<in>set s. is_slug_char c)
     \<and> hd s \<noteq> CHR ''-'' \<and> last s \<noteq> CHR ''-''"

lemma set_rests_Class:
  "t \<in> set (rests (Class P) s) \<longleftrightarrow> (\<exists>c. s = c # t \<and> P c)"
  by (cases s) (auto simp: rests.simps)

lemma bex_rests_Class:
  "(\<exists>x\<in>set (rests (Class P) s). Q x) \<longleftrightarrow> (\<exists>c cs. s = c # cs \<and> P c \<and> Q cs)"
  by (cases s) (auto simp: rests.simps)

lemma set_repeat_upto_Class:
  "t \<in> set (repeat_upto n (rests (Class P)) s) \<longleftrightarrow>
     (\<exists>u. s = u @ t \<and> length u \<le> n \<and> (\<forall>c\<in>set u. P c))"
proof (induction n arbitrary: s)
  case 0
  then show ?case by auto
next
  case (Suc n)
  have "t \<in> set (repeat_upto (Suc n) (rests (Class P)) s) \<longleftrightarrow>
      t = s \<or> (\<exists>c cs u. s = c # cs \<and> P c \<and> cs = u @ t \<and> length u \<le> n \<and> (\<forall>c\<in>set u. P c))"
    by (simp add: bex_rests_Class Suc)
  also have "\<dots> \<longleftrightarrow> (\<exists>u. s = u @ t \<and> length u \<le> Suc n \<and> (\<forall>c\<in>set u. P c))" (is "?L \<longleftrightarrow> ?R")
  proof
    assume ?L
    then show ?R
    proof (elim disjE exE conjE)
      assume "t = s"
      then show ?R by (intro exI [of _ "[]"]) simp
    next
      fix c cs u
      assume "s = c # cs" "P c" "cs = u @ t" "length u \<le> n" "\<forall>c\<in>set u. P c"
      then show ?R by (intro exI [of _ "c # u"]) simp
    qed
  next
    assume ?R
    then obtain u where u: "s = u @ t" "length u \<le> Suc n" "\<forall>c\<in>set u. P c" by blast
    then show ?L by (cases u) auto
  qed
  finally show ?case .
qed

lemma MatchString_slugRE:
  "MatchString slugRE s \<longleftrightarrow>
     (\<exists>c. s = [c] \<and> is_alnum c)
     \<or> (\<exists>c u d. s = c # u @ [d] \<and> is_alnum c \<and> is_alnum d \<and> length u \<le> 61 \<and> (\<forall>x\<in>set u. is_slug_char x))"
proof -
  have "MatchString slugRE s \<longleftrightarrow> (\<exists>c cs. s = c # cs \<and> is_alnum c \<and> (cs = [] \<or>
      (\<exists>d. [d] \<in> set (repeat_upto 61 (rests (Class is_slug_char)) cs) \<and> is_alnum d)))"
    by (simp add: MatchString_def slugRE_def bex_rests_Class set_rests_Class
        del: repeat_upto.simps) metis
  then show ?thesis
    unfolding set_repeat_upto_Class by blast
qed

lemma alnum_slug_char: "is_alnum c \<longleftrightarrow> is_slug_char c \<and> c \<noteq> CHR ''-''"
  by (auto simp: is_slug_char_def is_alnum_def less_eq_char_def)

lemma list_two_ends:
  assumes "2 \<le> length s"
  obtains c u d where "s = c # u @ [d]"
  using assms by (metis One_nat_def Suc_1 Suc_le_length_iff append_butlast_last_id list.size(3)
      not_less_eq_eq zero_le)

lemma ValidateSlug_None_iff [simp]: "ValidateSlug s = None \<longleftrightarrow> dns_label s"
proof (cases "2 \<le> length s")
  case True
  then obtain c u d where s: "s = c # u @ [d]" by (rule list_two_ends)
  then have "MatchString slugRE s \<longleftrightarrow>
      is_alnum c \<and> is_alnum d \<and> length u \<le> 61 \<and> (\<forall>x\<in>set u. is_slug_char x)"
    by (auto simp: MatchString_slugRE)
  then show ?thesis
    using s by (auto simp: ValidateSlug_def dns_label_def alnum_slug_char)
next
  case False
  then consider "s = []" | c where "s = [c]"
    by (cases s; cases "tl s") auto
  then show ?thesis
    by cases (auto simp: ValidateSlug_def dns_label_def MatchString_slugRE alnum_slug_char)
qed

text \<open>
  C26 (functional).  \<open>ValidateSlug\<close> accepts a string exactly when it is a single DNS label: 1 to
  63 bytes out of \<open>a-z\<close>, \<open>0-9\<close> and hyphen that neither starts nor ends with a hyphen.  The
  length guard and the regular expression \<open>slugRE\<close> together mean what the comment of
  \<open>validate.go\<close> says.
\<close>

theorem ValidateSlug_iff_dns_label: "ValidateSlug s = None \<longleftrightarrow> dns_label s"
  by (rule ValidateSlug_None_iff)

section \<open>Names identify what they name\<close>

definition instance_slug :: "string \<Rightarrow> bool" where
  "instance_slug i \<longleftrightarrow> i = [] \<or> dns_label i"

lemma slug_char_no_sep [name_simps]:
  "\<not> is_slug_char (CHR ''.'')" "\<not> is_slug_char (CHR ''/'')" "\<not> is_slug_char (CHR ''|'')"
  by (simp_all add: is_slug_char_def is_alnum_def)

lemma dns_label_no_sep [name_simps]:
  assumes "dns_label s"
  shows "CHR ''.'' \<notin> set s" and "CHR ''/'' \<notin> set s" and "CHR ''|'' \<notin> set s" and "s \<noteq> []"
  using assms slug_char_no_sep by (auto simp: dns_label_def)

lemma instance_slug_no_sep [name_simps]:
  assumes "instance_slug s"
  shows "CHR ''.'' \<notin> set s" and "CHR ''/'' \<notin> set s"
  using assms dns_label_no_sep by (auto simp: instance_slug_def)

lemma label_append_ne: "l @ CHR ''.'' # b \<noteq> b"
  by (metis append_Nil2 append_self_conv2 append_eq_append_conv2 length_Cons length_append
      list.distinct(1) not_add_less2 lessI)

lemma MakeStackKey_inject:
  assumes "dns_label p" "dns_label p'" "instance_slug i" "instance_slug i'"
  shows "MakeStackKey p i = MakeStackKey p' i' \<longleftrightarrow> p = p' \<and> i = i'"
  using dns_label_no_sep [OF assms(1)] dns_label_no_sep [OF assms(2)]
  by (auto simp: MakeStackKey_def append_sep_inject)

lemma endpoint_fqdn_inject:
  assumes "dns_label e" "dns_label e'" "dns_label p" "dns_label p'"
    and "instance_slug i" "instance_slug i'"
  shows "fst (BuildFQDNs e p i b) = fst (BuildFQDNs e' p' i' b) \<longleftrightarrow> e = e' \<and> p = p' \<and> i = i'"
  using assms(1-4) [THEN dns_label_no_sep(1)] assms(5,6) [THEN instance_slug_no_sep(1)]
  by (auto simp: BuildFQDNs_def append_sep_inject label_append_ne label_append_ne [symmetric])

lemma stack_fqdn_inject:
  assumes "dns_label p" "dns_label p'" "instance_slug i" "instance_slug i'"
  shows "snd (BuildFQDNs e p i b) = snd (BuildFQDNs e' p' i' b) \<longleftrightarrow> p = p' \<and> i = i'"
  using assms(1,2) [THEN dns_label_no_sep(1)] assms(3,4) [THEN instance_slug_no_sep(1)]
  by (auto simp: BuildFQDNs_def append_sep_inject label_append_ne label_append_ne [symmetric])

lemma EndpointMapKey_inject:
  "EndpointMapKey f port ProtocolTCP = EndpointMapKey f' port' ProtocolTCP \<longleftrightarrow> f = f' \<and> port = port'"
proof -
  have "CHR ''|'' \<notin> set (dec n)" for n by (simp add: dec_no_sep)
  moreover have "EndpointMapKey f port ProtocolTCP = EndpointMapKey f' port' ProtocolTCP \<longleftrightarrow>
      (f @ CHR ''|'' # dec (unat port)) @ CHR ''|'' # ''tcp'' =
      (f' @ CHR ''|'' # dec (unat port')) @ CHR ''|'' # ''tcp''"
    by (simp add: EndpointMapKey_def ProtocolTCP_def)
  ultimately show ?thesis
    by (simp add: append_sep_inject_last word_unat_eq_iff)
qed

text \<open>
  C27 (functional).  For valid slugs the key of the desired endpoints identifies the endpoint:
  two containers get the same key exactly when they name the same endpoint of the same stack
  (project and instance) and the same public port.  In particular containers of different
  stacks never compete for a key, whatever base domain is configured.
\<close>

theorem endpoint_key_inject:
  assumes "dns_label e" "dns_label e'" "dns_label p" "dns_label p'"
    and "instance_slug i" "instance_slug i'"
  shows "EndpointMapKey (fst (BuildFQDNs e p i base)) port ProtocolTCP
           = EndpointMapKey (fst (BuildFQDNs e' p' i' base)) port' ProtocolTCP
         \<longleftrightarrow> e = e' \<and> port = port' \<and> MakeStackKey p i = MakeStackKey p' i'"
  using assms by (auto simp: EndpointMapKey_inject endpoint_fqdn_inject MakeStackKey_inject)

theorem endpoint_key_inject_witness:
  "EndpointMapKey (fst (BuildFQDNs ''db'' ''curri'' ''alpha'' ''test'')) 5432 ProtocolTCP
     \<noteq> EndpointMapKey (fst (BuildFQDNs ''db'' ''curri'' '''' ''test'')) 5432 ProtocolTCP"
  using endpoint_key_inject [of "''db''" "''db''" "''curri''" "''curri''" "''alpha''" "''''"
      "''test''" 5432 5432]
  by (simp add: dns_label_def instance_slug_def is_slug_char_def is_alnum_def MakeStackKey_def)

text \<open>
  Stack names and endpoint names share one name space, and they meet in
  exactly one way: the endpoint \<open>e\<close> of a project without an instance has the same name as
  the stack whose instance is \<open>e\<close> of the same project.
\<close>

theorem endpoint_stack_fqdn_clash:
  assumes "dns_label e" "dns_label p" "dns_label p'" and "instance_slug i" "instance_slug i'"
  shows "fst (BuildFQDNs e p i base) = snd (BuildFQDNs x p' i' base) \<longleftrightarrow> i = '''' \<and> i' = e \<and> p = p'"
  using assms(1-3) [THEN dns_label_no_sep(1)] assms(1) [THEN dns_label_no_sep(4)]
    assms(4,5) [THEN instance_slug_no_sep(1)]
  by (auto simp: BuildFQDNs_def append_sep_inject label_append_ne label_append_ne [symmetric])

theorem endpoint_stack_fqdn_clash_witness:
  "fst (BuildFQDNs ''alpha'' ''curri'' '''' ''test'') = snd (BuildFQDNs ''_'' ''curri'' ''alpha'' ''test'')"
  using endpoint_stack_fqdn_clash [of "''alpha''" "''curri''" "''curri''" "''''" "''alpha''"
      "''test''" "''_''"]
  by (simp add: dns_label_def instance_slug_def is_slug_char_def is_alnum_def)

end
