(* ===== verification/Labels.thy ===== *)
theory Labels
  imports Domain
begin

text \<open>
  Package \<open>internal/labels\<close>: the label keys and size caps (\<open>contract.go\<close>) and the parser
  that turns the labels of a container into a \<open>Meta\<close> (\<open>labels.go\<close>).  A label map is a
  \<^typ>\<open>(string, string) gomap\<close>; Go's \<open>nil\<close> map is the empty one.
\<close>

section \<open>Contract\<close>

definition ComposeProjectKey :: string where "ComposeProjectKey = ''com.docker.compose.project''"
definition ComposeServiceKey :: string where "ComposeServiceKey = ''com.docker.compose.service''"
definition EnableKey :: string where "EnableKey = ''stacklane.enable''"
definition ProjectKey :: string where "ProjectKey = ''stacklane.project''"
definition InstanceKey :: string where "InstanceKey = ''stacklane.instance''"
definition EndpointKey :: string where "EndpointKey = ''stacklane.endpoint''"
definition ProtocolKey :: string where "ProtocolKey = ''stacklane.protocol''"
definition PortKey :: string where "PortKey = ''stacklane.port''"
definition TargetPortKey :: string where "TargetPortKey = ''stacklane.target_port''"

lemmas label_keys =
  ComposeProjectKey_def ComposeServiceKey_def EnableKey_def ProjectKey_def InstanceKey_def
  EndpointKey_def ProtocolKey_def PortKey_def TargetPortKey_def

definition MaxLabelValueBytes :: nat where "MaxLabelValueBytes = 128"
definition MaxComposeProjectBytes :: nat where "MaxComposeProjectBytes = 128"

section \<open>Parser\<close>

record Meta =
  Meta_Enabled :: bool
  Meta_ComposeProject :: string
  Meta_ServiceName :: string
  Meta_ProjectSlug :: string
  Meta_InstanceSlug :: string
  Meta_EndpointName :: string
  Meta_Protocol :: Protocol
  Meta_PublicPort :: u16
  Meta_TargetPort :: u16
  Meta_StackKey :: StackKey

text \<open>The errors, with the label key and the value their message prints.\<close>

datatype label_error =
    TooManyLabels
  | LabelTooLong string
  | LabelRequired string
  | LabelSlug string domain_error
  | DefaultInstanceSlug domain_error
  | UnsupportedProtocol string
  | InvalidPortValue string string
  | PortZero string
  | LabelPort string domain_error

definition checkLabelValueLen :: "string \<Rightarrow> string \<Rightarrow> label_error option" where
  "checkLabelValueLen key v = (if MaxLabelValueBytes < length v then Some (LabelTooLong key) else None)"

text \<open>
  The checks of \<open>parsePortValue\<close> in the order of the code.  \<open>unicode.IsDigit\<close> also accepts
  the decimal digits outside ASCII, which \<open>ParseUint\<close> then refuses with the same error.
\<close>

definition parsePortValue :: "string \<Rightarrow> string \<Rightarrow> label_error + u16" where
  "parsePortValue key v =
     (case checkLabelValueLen key v of
        Some e \<Rightarrow> Inl e
      | None \<Rightarrow>
          if v \<noteq> TrimSpace v then Inl (InvalidPortValue key v)
          else if v = [] \<or> hd v = CHR ''+'' \<or> hd v = CHR ''-'' then Inl (InvalidPortValue key v)
          else if \<not> list_all is_digit v then Inl (InvalidPortValue key v)
          else (case ParseUint v 16 of
                  None \<Rightarrow> Inl (InvalidPortValue key v)
                | Some n \<Rightarrow>
                    if n = 0 then Inl (PortZero key)
                    else let p = of_nat n in
                         case ValidatePort p of
                           Some e \<Rightarrow> Inl (LabelPort key e)
                         | None \<Rightarrow> Inr p))"

definition requirePort :: "(string, string) gomap \<Rightarrow> string \<Rightarrow> label_error + u16" where
  "requirePort labels key =
     (case map_of labels key of
        None \<Rightarrow> Inl (LabelRequired key)
      | Some v \<Rightarrow> if v = [] then Inl (LabelRequired key) else parsePortValue key v)"

definition requireSlug :: "(string, string) gomap \<Rightarrow> string \<Rightarrow> label_error + string" where
  "requireSlug labels key =
     (case map_of labels key of
        None \<Rightarrow> Inl (LabelRequired key)
      | Some v \<Rightarrow>
          if v = [] then Inl (LabelRequired key)
          else (case checkLabelValueLen key v of
                  Some e \<Rightarrow> Inl e
                | None \<Rightarrow>
                    (case ValidateSlug v of
                       Some e \<Rightarrow> Inl (LabelSlug key e)
                     | None \<Rightarrow> Inr v)))"

text \<open>The parts of \<open>Parse\<close> that read the optional labels.\<close>

definition instanceSlugOf :: "(string, string) gomap \<Rightarrow> string \<Rightarrow> label_error + string" where
  "instanceSlugOf labels defaultInstance =
     (case map_of labels InstanceKey of
        Some v \<Rightarrow>
          if v \<noteq> [] then
            (case checkLabelValueLen InstanceKey v of
               Some e \<Rightarrow> Inl e
             | None \<Rightarrow> (case ValidateSlug v of
                          Some e \<Rightarrow> Inl (LabelSlug InstanceKey e)
                        | None \<Rightarrow> Inr v))
          else if defaultInstance \<noteq> [] then
            (case ValidateSlug defaultInstance of
               Some e \<Rightarrow> Inl (DefaultInstanceSlug e)
             | None \<Rightarrow> Inr defaultInstance)
          else Inr []
      | None \<Rightarrow>
          if defaultInstance \<noteq> [] then
            (case ValidateSlug defaultInstance of
               Some e \<Rightarrow> Inl (DefaultInstanceSlug e)
             | None \<Rightarrow> Inr defaultInstance)
          else Inr [])"

definition protocolOf :: "(string, string) gomap \<Rightarrow> label_error + Protocol" where
  "protocolOf labels =
     (case map_of labels ProtocolKey of
        Some v \<Rightarrow>
          if v \<noteq> [] then
            (case checkLabelValueLen ProtocolKey v of
               Some e \<Rightarrow> Inl e
             | None \<Rightarrow> if v \<noteq> ProtocolTCP then Inl (UnsupportedProtocol v) else Inr ProtocolTCP)
          else Inr ProtocolTCP
      | None \<Rightarrow> Inr ProtocolTCP)"

definition targetPortOf :: "(string, string) gomap \<Rightarrow> u16 \<Rightarrow> label_error + u16" where
  "targetPortOf labels publicPort =
     (case map_of labels TargetPortKey of
        Some v \<Rightarrow> if v \<noteq> [] then parsePortValue TargetPortKey v else Inr publicPort
      | None \<Rightarrow> Inr publicPort)"

text \<open>
  \<open>Parse\<close>: an error, or \<^const>\<open>None\<close> for a container to ignore (\<open>ok = false\<close> with a \<open>nil\<close>
  error), or the metadata.
\<close>

definition Parse :: "(string, string) gomap \<Rightarrow> string \<Rightarrow> label_error + Meta option" where
  "Parse labels defaultInstance =
     (if 64 < length (filter (\<lambda>k. HasPrefix k ''stacklane.'') (gokeys labels)) then Inl TooManyLabels
      else case map_of labels EnableKey of
        None \<Rightarrow> Inr None
      | Some enable \<Rightarrow>
      (case checkLabelValueLen EnableKey enable of Some e \<Rightarrow> Inl e | None \<Rightarrow>
      if enable \<noteq> ''1'' \<and> enable \<noteq> ''true'' then Inr None
      else case (map_of labels ComposeProjectKey, map_of labels ComposeServiceKey) of
        (Some composeProject, Some composeService) \<Rightarrow>
          if composeProject = [] \<or> composeService = [] then Inr None
          else (case checkLabelValueLen ComposeProjectKey composeProject of Some e \<Rightarrow> Inl e | None \<Rightarrow>
          if MaxComposeProjectBytes < length composeProject then Inl (LabelTooLong ComposeProjectKey)
          else (case checkLabelValueLen ComposeServiceKey composeService of Some e \<Rightarrow> Inl e | None \<Rightarrow>
          (case requireSlug labels ProjectKey of Inl e \<Rightarrow> Inl e | Inr projectSlug \<Rightarrow>
          (case requireSlug labels EndpointKey of Inl e \<Rightarrow> Inl e | Inr endpointName \<Rightarrow>
          (case instanceSlugOf labels defaultInstance of Inl e \<Rightarrow> Inl e | Inr instanceSlug \<Rightarrow>
          (case protocolOf labels of Inl e \<Rightarrow> Inl e | Inr protocol \<Rightarrow>
          (case requirePort labels PortKey of Inl e \<Rightarrow> Inl e | Inr publicPort \<Rightarrow>
          (case targetPortOf labels publicPort of Inl e \<Rightarrow> Inl e | Inr targetPort \<Rightarrow>
            Inr (Some \<lparr>
              Meta_Enabled = True,
              Meta_ComposeProject = composeProject,
              Meta_ServiceName = composeService,
              Meta_ProjectSlug = projectSlug,
              Meta_InstanceSlug = instanceSlug,
              Meta_EndpointName = endpointName,
              Meta_Protocol = protocol,
              Meta_PublicPort = publicPort,
              Meta_TargetPort = targetPort,
              Meta_StackKey = MakeStackKey projectSlug instanceSlug\<rparr>)))))))))
      | _ \<Rightarrow> Inr None))"

section \<open>What the parser guarantees\<close>

text \<open>The well-formedness of parsed metadata, on which names and keys rest.\<close>

definition wf_meta :: "Meta \<Rightarrow> bool" where
  "wf_meta m \<longleftrightarrow> Meta_Enabled m
     \<and> Meta_ComposeProject m \<noteq> [] \<and> length (Meta_ComposeProject m) \<le> 128
     \<and> Meta_ServiceName m \<noteq> [] \<and> length (Meta_ServiceName m) \<le> 128
     \<and> dns_label (Meta_ProjectSlug m) \<and> dns_label (Meta_EndpointName m)
     \<and> instance_slug (Meta_InstanceSlug m)
     \<and> Meta_Protocol m = ProtocolTCP
     \<and> Meta_PublicPort m \<noteq> 0 \<and> Meta_TargetPort m \<noteq> 0
     \<and> Meta_StackKey m = MakeStackKey (Meta_ProjectSlug m) (Meta_InstanceSlug m)"

lemma small_port_nonzero:
  assumes "0 < n" and "n < 65536"
  shows "(of_nat n :: u16) \<noteq> 0"
  using assms by (auto simp: word_of_nat_eq_0_iff dest: nat_dvd_not_less)

lemma parsePortValue_Inr_iff:
  "parsePortValue key v = Inr p \<longleftrightarrow>
     v \<noteq> [] \<and> length v \<le> 128 \<and> list_all is_digit v \<and> 0 < undec v \<and> undec v < 65536
     \<and> p = of_nat (undec v)"
proof (cases "v \<noteq> [] \<and> list_all is_digit v")
  case True
  then have "TrimSpace v = v" "is_digit (hd v)"
    by (auto simp: list_all_iff intro: TrimSpace_id)
  moreover from this have "hd v \<noteq> CHR ''+''" "hd v \<noteq> CHR ''-''"
    using not_digit_sign by metis+
  ultimately show ?thesis
    using True small_port_nonzero
    by (auto simp: parsePortValue_def checkLabelValueLen_def MaxLabelValueBytes_def ParseUint_def
        ValidatePort_def Let_def)
next
  case False
  then show ?thesis
    by (auto simp: parsePortValue_def split: option.splits if_splits)
qed

lemma requireSlug_Inr: "requireSlug labels key = Inr v \<Longrightarrow> dns_label v"
  by (auto simp: requireSlug_def split: option.splits if_splits)

lemma instanceSlugOf_Inr: "instanceSlugOf labels d = Inr v \<Longrightarrow> instance_slug v"
  by (auto simp: instanceSlugOf_def instance_slug_def split: option.splits if_splits)

lemma protocolOf_Inr: "protocolOf labels = Inr p \<Longrightarrow> p = ProtocolTCP"
  by (auto simp: protocolOf_def split: option.splits if_splits)

lemma parsePortValue_nonzero: "parsePortValue key v = Inr p \<Longrightarrow> p \<noteq> 0"
  using small_port_nonzero by (auto simp: parsePortValue_Inr_iff)

lemma requirePort_Inr: "requirePort labels key = Inr p \<Longrightarrow> p \<noteq> 0"
  by (auto simp: requirePort_def parsePortValue_nonzero split: option.splits if_splits)

lemma targetPortOf_Inr: "targetPortOf labels q = Inr p \<Longrightarrow> q \<noteq> 0 \<Longrightarrow> p \<noteq> 0"
  by (auto simp: targetPortOf_def parsePortValue_nonzero split: option.splits if_splits)

lemma checkLabelValueLen_None [simp]: "checkLabelValueLen key v = None \<longleftrightarrow> length v \<le> 128"
  by (simp add: checkLabelValueLen_def MaxLabelValueBytes_def)

lemma Parse_wf_meta: "Parse labels d = Inr (Some m) \<Longrightarrow> wf_meta m"
  by (auto simp: Parse_def wf_meta_def split: option.splits if_splits sum.splits prod.splits
      dest: requireSlug_Inr instanceSlugOf_Inr protocolOf_Inr requirePort_Inr targetPortOf_Inr)

section \<open>Which labels are accepted\<close>

text \<open>
  The label contract, declaratively.  \<open>label_of m k\<close> is Go's \<open>m[k]\<close>, the empty string for a
  missing key.
\<close>

definition label_of :: "(string, string) gomap \<Rightarrow> string \<Rightarrow> string" where
  "label_of labels k = (case map_of labels k of None \<Rightarrow> [] | Some v \<Rightarrow> v)"

definition port_text :: "string \<Rightarrow> u16 \<Rightarrow> bool" where
  "port_text v p \<longleftrightarrow> v \<noteq> [] \<and> length v \<le> 128 \<and> list_all is_digit v
     \<and> 0 < undec v \<and> undec v < 65536 \<and> p = of_nat (undec v)"

definition label_contract :: "(string, string) gomap \<Rightarrow> string \<Rightarrow> Meta \<Rightarrow> bool" where
  "label_contract labels d m \<longleftrightarrow>
     length (filter (\<lambda>k. HasPrefix k ''stacklane.'') (gokeys labels)) \<le> 64
     \<and> (label_of labels EnableKey = ''1'' \<or> label_of labels EnableKey = ''true'') \<and> Meta_Enabled m
     \<and> Meta_ComposeProject m = label_of labels ComposeProjectKey
     \<and> Meta_ComposeProject m \<noteq> [] \<and> length (Meta_ComposeProject m) \<le> 128
     \<and> Meta_ServiceName m = label_of labels ComposeServiceKey
     \<and> Meta_ServiceName m \<noteq> [] \<and> length (Meta_ServiceName m) \<le> 128
     \<and> Meta_ProjectSlug m = label_of labels ProjectKey \<and> dns_label (Meta_ProjectSlug m)
     \<and> Meta_EndpointName m = label_of labels EndpointKey \<and> dns_label (Meta_EndpointName m)
     \<and> Meta_InstanceSlug m = (if label_of labels InstanceKey \<noteq> [] then label_of labels InstanceKey else d)
     \<and> instance_slug (Meta_InstanceSlug m)
     \<and> (label_of labels ProtocolKey = [] \<or> label_of labels ProtocolKey = ProtocolTCP)
     \<and> Meta_Protocol m = ProtocolTCP
     \<and> port_text (label_of labels PortKey) (Meta_PublicPort m)
     \<and> (if label_of labels TargetPortKey = [] then Meta_TargetPort m = Meta_PublicPort m
        else port_text (label_of labels TargetPortKey) (Meta_TargetPort m))
     \<and> Meta_StackKey m = MakeStackKey (Meta_ProjectSlug m) (Meta_InstanceSlug m)"

lemma dns_label_len: "dns_label v \<Longrightarrow> length v \<le> 128"
  by (simp add: dns_label_def)

lemma requireSlug_iff:
  "requireSlug labels key = Inr v \<longleftrightarrow> v = label_of labels key \<and> dns_label v"
  using dns_label_no_sep(4) dns_label_len
  by (cases "map_of labels key") (auto simp: requireSlug_def label_of_def err_simps)

lemma instanceSlugOf_iff:
  "instanceSlugOf labels d = Inr v \<longleftrightarrow>
     v = (if label_of labels InstanceKey \<noteq> [] then label_of labels InstanceKey else d) \<and> instance_slug v"
  using dns_label_len
  by (cases "map_of labels InstanceKey")
    (auto simp: instanceSlugOf_def label_of_def instance_slug_def err_simps)

lemma protocolOf_iff:
  "protocolOf labels = Inr p \<longleftrightarrow>
     p = ProtocolTCP \<and> (label_of labels ProtocolKey = [] \<or> label_of labels ProtocolKey = ProtocolTCP)"
  by (cases "map_of labels ProtocolKey")
    (auto simp: protocolOf_def label_of_def ProtocolTCP_def err_simps)

lemma requirePort_iff: "requirePort labels key = Inr p \<longleftrightarrow> port_text (label_of labels key) p"
  by (auto simp: requirePort_def label_of_def port_text_def parsePortValue_Inr_iff split: option.splits)

lemma targetPortOf_iff:
  "targetPortOf labels q = Inr p \<longleftrightarrow>
     (if label_of labels TargetPortKey = [] then p = q
      else port_text (label_of labels TargetPortKey) p)"
  by (auto simp: targetPortOf_def label_of_def port_text_def parsePortValue_Inr_iff split: option.splits)

lemma label_of_eq_iff: "v \<noteq> [] \<Longrightarrow> label_of labels k = v \<longleftrightarrow> map_of labels k = Some v"
  by (auto simp: label_of_def split: option.splits)

text \<open>The stages of \<open>Parse\<close> that may also end in \<open>ok = false\<close>.\<close>

lemma ignore_iff [err_simps]:
  "(if c then Inr None else f) = Inr (Some y) \<longleftrightarrow> \<not> c \<and> f = Inr (Some y)"
  "(case x of None \<Rightarrow> Inr None | Some v \<Rightarrow> g v) = Inr (Some y) \<longleftrightarrow> (\<exists>v. x = Some v \<and> g v = Inr (Some y))"
  "(case (x, z) of (Some v, Some w) \<Rightarrow> h v w | _ \<Rightarrow> Inr None) = Inr (Some y)
     \<longleftrightarrow> (\<exists>v w. x = Some v \<and> z = Some w \<and> h v w = Inr (Some y))"
  by (auto split: option.splits)

lemma Parse_Some_iff: "Parse labels d = Inr (Some m) \<longleftrightarrow> label_contract labels d m"
proof -
  have "Parse labels d = Inr (Some m) \<longleftrightarrow>
      length (filter (\<lambda>k. HasPrefix k ''stacklane.'') (gokeys labels)) \<le> 64
      \<and> (map_of labels EnableKey = Some ''1'' \<or> map_of labels EnableKey = Some ''true'')
      \<and> (\<exists>cp cs. map_of labels ComposeProjectKey = Some cp \<and> map_of labels ComposeServiceKey = Some cs
          \<and> cp \<noteq> [] \<and> cs \<noteq> [] \<and> length cp \<le> 128 \<and> length cs \<le> 128
          \<and> m = m\<lparr>Meta_Enabled := True, Meta_ComposeProject := cp, Meta_ServiceName := cs\<rparr>)
      \<and> requireSlug labels ProjectKey = Inr (Meta_ProjectSlug m)
      \<and> requireSlug labels EndpointKey = Inr (Meta_EndpointName m)
      \<and> instanceSlugOf labels d = Inr (Meta_InstanceSlug m)
      \<and> protocolOf labels = Inr (Meta_Protocol m)
      \<and> requirePort labels PortKey = Inr (Meta_PublicPort m)
      \<and> targetPortOf labels (Meta_PublicPort m) = Inr (Meta_TargetPort m)
      \<and> Meta_StackKey m = MakeStackKey (Meta_ProjectSlug m) (Meta_InstanceSlug m)"
    by (cases m) (auto simp: Parse_def err_simps MaxComposeProjectBytes_def)
  also have "\<dots> \<longleftrightarrow> label_contract labels d m"
    by (cases m) (auto simp: label_contract_def requireSlug_iff instanceSlugOf_iff protocolOf_iff
        requirePort_iff targetPortOf_iff label_of_eq_iff [symmetric])
  finally show ?thesis .
qed

text \<open>
  C24 (functional).  \<open>Parse\<close> returns metadata exactly for the labels that satisfy the contract,
  and the metadata is the one the contract determines: \<open>enable\<close> is \<open>1\<close> or \<open>true\<close>, the Compose
  identity is present and at most 128 bytes, project and endpoint are DNS labels, the
  instance is the label or else the configured default, the protocol is tcp, the public port
  is a decimal in 1 to 65535 and the target port defaults to it.
\<close>

theorem Parse_accepts_iff: "Parse labels d = Inr (Some m) \<longleftrightarrow> label_contract labels d m"
  by (rule Parse_Some_iff)

text \<open>
  \<open>parsePortValue\<close> accepts exactly the non-empty digit strings of at most 128 bytes
  with a value in 1 to 65535, and then returns that value: no sign, no space, no zero, and no
  wrap-around of the 16-bit port.
\<close>

theorem parsePortValue_accepts_iff:
  "parsePortValue key v = Inr p \<longleftrightarrow>
     v \<noteq> [] \<and> length v \<le> 128 \<and> list_all is_digit v \<and> unat p = undec v \<and> p \<noteq> 0"
proof -
  have "unat p < 65536"
    using unsigned_less [where ?'a = nat, of p] by simp
  moreover have "0 < unat p \<longleftrightarrow> p \<noteq> 0"
    by (simp add: unat_gt_0)
  moreover have "p = of_nat n \<longleftrightarrow> unat p = n" if "n < 65536" for n
    using that by (auto simp: unat_of_nat)
  ultimately have "0 < n \<and> n < 65536 \<and> p = of_nat n \<longleftrightarrow> unat p = n \<and> p \<noteq> 0" for n
    by metis
  then show ?thesis by (simp add: parsePortValue_Inr_iff)
qed

end
