(* ===== verification/Docker.thy ===== *)
theory Docker
  imports Netip
begin

text \<open>
  Package \<open>internal/dockerapi\<close>: containers and port bindings (\<open>types.go\<close>), the choice of the
  loopback binding (\<open>inspect.go\<close>), and the adapter of the Docker SDK (\<open>client.go\<close>).  The SDK is
  not part of the repository: what it returns is data (records with the fields the adapter
  reads), an argument of the definitions.  The goroutine of \<open>Events\<close> is a function of the
  sequence of cases its \<open>select\<close> takes.
\<close>

section \<open>Types\<close>

record PortBinding =
  PB_HostIP :: string
  PB_HostPort :: u16
  PB_ContainerPort :: u16
  PB_Protocol :: string

record Container =
  C_ID :: string
  C_Name :: string
  C_Labels :: "(string, string) gomap"
  C_Ports :: "PortBinding list"

record Event =
  Ev_Type :: string
  Ev_Action :: string
  Ev_ActorID :: string
  Ev_Time :: gotime

section \<open>Loopback bindings\<close>

fun bindingLoop :: "u16 \<Rightarrow> string \<Rightarrow> PortBinding list \<Rightarrow> u16 \<times> bool \<Rightarrow> u16 \<times> bool" where
  "bindingLoop containerPort wantProto [] (best, found) = (best, found)"
| "bindingLoop containerPort wantProto (p # ps) (best, found) =
     (if PB_ContainerPort p \<noteq> containerPort then bindingLoop containerPort wantProto ps (best, found)
      else if ToLower (PB_Protocol p) \<noteq> wantProto then bindingLoop containerPort wantProto ps (best, found)
      else if PB_HostIP p \<noteq> ''127.0.0.1'' then bindingLoop containerPort wantProto ps (best, found)
      else if \<not> found \<or> PB_HostPort p < best
           then bindingLoop containerPort wantProto ps (PB_HostPort p, True)
           else bindingLoop containerPort wantProto ps (best, found))"

definition LoopbackBinding :: "PortBinding list \<Rightarrow> u16 \<Rightarrow> string \<Rightarrow> u16 \<times> bool" where
  "LoopbackBinding ports containerPort protocol = bindingLoop containerPort (ToLower protocol) ports (0, False)"

section \<open>The adapter\<close>

text \<open>What the SDK returns, as far as the adapter reads it; a \<open>nil\<close> label map is \<^const>\<open>None\<close>.\<close>

record PortSummary =
  PS_IP :: addr
  PS_PublicPort :: u16
  PS_PrivatePort :: u16
  PS_Type :: string

record Summary =
  Sum_ID :: string
  Sum_Names :: "string list"
  Sum_Labels :: "(string, string) gomap option"
  Sum_Ports :: "PortSummary list"

record Message =
  Msg_Type :: string
  Msg_Action :: string
  Msg_ActorID :: string
  Msg_Time :: int
  Msg_TimeNano :: int

definition mapPortSummaries :: "PortSummary list \<Rightarrow> PortBinding list" where
  "mapPortSummaries ports =
     map (\<lambda>p. \<lparr>PB_HostIP = (if IsValid (PS_IP p) then Addr_String (PS_IP p) else ''''),
               PB_HostPort = PS_PublicPort p,
               PB_ContainerPort = PS_PrivatePort p,
               PB_Protocol = ToLower (PS_Type p)\<rparr>) ports"

definition mapSummary :: "Summary \<Rightarrow> Container" where
  "mapSummary s =
     \<lparr>C_ID = Sum_ID s,
      C_Name = (case Sum_Names s of [] \<Rightarrow> '''' | n # _ \<Rightarrow> TrimPrefix n ''/''),
      C_Labels = (case Sum_Labels s of None \<Rightarrow> [] | Some l \<Rightarrow> l),
      C_Ports = mapPortSummaries (Sum_Ports s)\<rparr>"

text \<open>
  The client: it connects to the given host, or to the one of the environment if there is none; \<open>new\<close>
  and \<open>close\<close> are the SDK's.
\<close>

datatype moby_opt = WithHost string | FromEnv

record 'a sdkClient =
  sdk_api :: 'a

definition NewClient :: "(moby_opt list \<Rightarrow> string + 'a) \<Rightarrow> string \<Rightarrow> string + 'a sdkClient" where
  "NewClient new dockerHost =
     (case new [if dockerHost \<noteq> '''' then WithHost dockerHost else FromEnv] of
        Inl err \<Rightarrow> Inl (''docker client: '' @ err)
      | Inr cli \<Rightarrow> Inr \<lparr>sdk_api = cli\<rparr>)"

definition Client_Close :: "('a \<Rightarrow> string option) \<Rightarrow> 'a sdkClient \<Rightarrow> string option" where
  "Client_Close close c = close (sdk_api c)"

text \<open>\<open>ListRunning\<close> of what the SDK's \<open>ContainerList\<close> returned.\<close>

definition ListRunning :: "'e + Summary list \<Rightarrow> 'e + Container list" where
  "ListRunning res = (case res of Inl e \<Rightarrow> Inl e | Inr items \<Rightarrow> Inr (map mapSummary items))"

definition watchedContainerActions :: "string list" where
  "watchedContainerActions =
     [''start'', ''die'', ''destroy'', ''stop'', ''pause'', ''unpause'', ''health_status'', ''rename'']"

definition normalizeAction :: "string \<Rightarrow> string" where
  "normalizeAction action = (if HasPrefix action ''health_status'' then ''health_status'' else action)"

text \<open>\<open>time.Unix\<close>: nanoseconds since year 1 of a Unix time in seconds and nanoseconds.\<close>

definition unix_time :: "int \<Rightarrow> int \<Rightarrow> gotime" where
  "unix_time sec nsec = (62135596800 + sec) * second + nsec"

definition eventTime :: "Message \<Rightarrow> gotime" where
  "eventTime msg =
     (if 0 < Msg_TimeNano msg then unix_time 0 (Msg_TimeNano msg)
      else if 0 < Msg_Time msg then unix_time (Msg_Time msg) 0
      else 0)"

definition containerEventType :: string where "containerEventType = ''container''"

text \<open>
  A case that the \<open>select\<close> of the event goroutine takes: the context is done; the error
  channel yields (\<^const>\<open>None\<close> when it is closed or yields \<open>nil\<close>), with whether the context is
  done by then; the message channel yields (\<^const>\<open>None\<close> when it is closed), with whether the
  context is done before the event is taken by the reader.
\<close>

datatype 'e ev_case =
    EvCtxDone
  | EvErr "'e option" bool
  | EvMsg "Message option" bool

fun Events :: "'e ev_case list \<Rightarrow> Event list \<times> 'e list" where
  "Events [] = ([], [])"
| "Events (EvCtxDone # cs) = ([], [])"
| "Events (EvErr err ctxErr # cs) =
     (case err of
        None \<Rightarrow> ([], [])
      | Some e \<Rightarrow> if ctxErr then ([], []) else ([], [e]))"
| "Events (EvMsg msg cancelled # cs) =
     (case msg of
        None \<Rightarrow> ([], [])
      | Some m \<Rightarrow>
          if Msg_Type m \<noteq> containerEventType then Events cs
          else let action = normalizeAction (Msg_Action m) in
            if action \<notin> set watchedContainerActions then Events cs
            else if cancelled then ([], [])
            else let ev = \<lparr>Ev_Type = Msg_Type m, Ev_Action = action, Ev_ActorID = Msg_ActorID m,
                           Ev_Time = eventTime m\<rparr>;
                     (evs, errs) = Events cs
                 in (ev # evs, errs))"

section \<open>Facts\<close>

definition loopback_match :: "u16 \<Rightarrow> string \<Rightarrow> PortBinding \<Rightarrow> bool" where
  "loopback_match cport proto p \<longleftrightarrow> PB_ContainerPort p = cport \<and> ToLower (PB_Protocol p) = ToLower proto
     \<and> PB_HostIP p = ''127.0.0.1''"

definition loopback_ports :: "u16 \<Rightarrow> string \<Rightarrow> PortBinding list \<Rightarrow> u16 set" where
  "loopback_ports cport proto ps = {PB_HostPort p |p. p \<in> set ps \<and> loopback_match cport proto p}"

lemma loopback_ports_simps [simp]:
  "loopback_ports c pr [] = {}"
  "loopback_ports c pr (p # ps) =
     (if loopback_match c pr p then insert (PB_HostPort p) (loopback_ports c pr ps) else loopback_ports c pr ps)"
  by (auto simp: loopback_ports_def)

lemma loopback_ports_finite [simp]: "finite (loopback_ports c pr ps)"
  by (induction ps) auto

lemma Min_insert_if:
  "finite S \<Longrightarrow> Min (insert x (insert y S)) = Min (insert (if x < y then x else y) S)" for x y :: "'a :: linorder"
  by (cases "S = {}") (auto simp: min_def not_less)

lemma bindingLoop_eq:
  "bindingLoop c (ToLower pr) ps (best, found) =
     (if found then (Min (insert best (loopback_ports c pr ps)), True)
      else if loopback_ports c pr ps = {} then (best, False)
      else (Min (loopback_ports c pr ps), True))"
  by (induction ps arbitrary: best found)
    (auto simp: loopback_match_def Min_insert_if insert_commute [of best] simp del: Min_insert)

lemma LoopbackBinding_eq:
  "LoopbackBinding ports c pr =
     (if loopback_ports c pr ports = {} then (0, False) else (Min (loopback_ports c pr ports), True))"
  by (simp add: LoopbackBinding_def bindingLoop_eq)

lemma Min_loopback_ports:
  assumes "loopback_ports c pr ports \<noteq> {}"
  shows "Min (loopback_ports c pr ports) \<in> loopback_ports c pr ports"
  using loopback_ports_finite assms by (rule Min_in)

lemma LoopbackBinding_ok:
  assumes "LoopbackBinding ports c pr = (hp, True)"
  shows "\<exists>p\<in>set ports. loopback_match c pr p \<and> PB_HostPort p = hp"
proof -
  have "hp \<in> loopback_ports c pr ports"
    using assms Min_loopback_ports [of c pr ports] unfolding LoopbackBinding_eq by (metis prod.inject)
  then show ?thesis by (auto simp: loopback_ports_def)
qed

text \<open>The watched events of a message, for the specification of the event stream.\<close>

definition watched :: "Message \<Rightarrow> bool" where
  "watched m \<longleftrightarrow> Msg_Type m = containerEventType \<and> normalizeAction (Msg_Action m) \<in> set watchedContainerActions"

definition event_of :: "Message \<Rightarrow> Event" where
  "event_of m = \<lparr>Ev_Type = Msg_Type m, Ev_Action = normalizeAction (Msg_Action m),
     Ev_ActorID = Msg_ActorID m, Ev_Time = eventTime m\<rparr>"

lemma Events_EvMsg_delivered:
  "Events (map (\<lambda>m. EvMsg (Some m) False) ms @ cs) =
     (map event_of (filter watched ms) @ fst (Events cs), snd (Events cs))"
  by (induction ms) (auto simp: watched_def event_of_def Let_def case_prod_unfold)

section \<open>Properties\<close>

text \<open>
  \<open>LoopbackBinding\<close> finds a host port exactly when some binding of the
  container port and protocol is published on 127.0.0.1, and then returns the lowest such host
  port, whatever the order of the bindings.
\<close>

theorem LoopbackBinding_lowest:
  "LoopbackBinding ports c pr = (hp, True) \<longleftrightarrow>
     (\<exists>p\<in>set ports. loopback_match c pr p \<and> PB_HostPort p = hp
        \<and> (\<forall>q. q \<in> set ports \<and> loopback_match c pr q \<longrightarrow> hp \<le> PB_HostPort q))"
proof -
  have "Min (loopback_ports c pr ports) = hp \<longleftrightarrow>
      hp \<in> loopback_ports c pr ports \<and> (\<forall>x\<in>loopback_ports c pr ports. hp \<le> x)"
    if "loopback_ports c pr ports \<noteq> {}"
    using Min_loopback_ports [OF that] Min_eq_iff [OF loopback_ports_finite that] by metis
  moreover have "hp \<in> loopback_ports c pr ports \<Longrightarrow> loopback_ports c pr ports \<noteq> {}" by auto
  ultimately have "LoopbackBinding ports c pr = (hp, True) \<longleftrightarrow>
      hp \<in> loopback_ports c pr ports \<and> (\<forall>x\<in>loopback_ports c pr ports. hp \<le> x)"
    by (simp add: LoopbackBinding_eq)
  then show ?thesis by (auto simp: loopback_ports_def)
qed

theorem LoopbackBinding_lowest_witness:
  "LoopbackBinding
     [\<lparr>PB_HostIP = ''0.0.0.0'', PB_HostPort = 80, PB_ContainerPort = 8080, PB_Protocol = ''tcp''\<rparr>,
      \<lparr>PB_HostIP = ''127.0.0.1'', PB_HostPort = 5000, PB_ContainerPort = 8080, PB_Protocol = ''TCP''\<rparr>,
      \<lparr>PB_HostIP = ''127.0.0.1'', PB_HostPort = 4000, PB_ContainerPort = 8080, PB_Protocol = ''tcp''\<rparr>]
     8080 ''tcp'' = (4000, True)"
  by (rule LoopbackBinding_lowest [THEN iffD2]) (auto simp: loopback_match_def ToLower_def lower_char_def)

text \<open>
  The event stream delivers, in order, one event for each watched container
  message and nothing else; it ends with the first stream error, which is reported once, and
  whatever comes after that is not looked at.
\<close>

theorem Events_stream:
  "Events (map (\<lambda>m. EvMsg (Some m) False) ms @ EvErr (Some e) False # rest) =
     (map event_of (filter watched ms), [e])"
  by (simp add: Events_EvMsg_delivered)

end
