(* ===== verification/Leases.thy ===== *)
theory Leases
  imports Domain
begin

text \<open>
  The durable data of package \<open>internal/state\<close> (\<open>store.go\<close>): leases and snapshots, the
  structural check of a snapshot (\<open>validateSnapshot\<close> of \<open>jsonstore.go\<close>) and the invariant it
  decides.  The abstraction of a snapshot is the map from stack keys to VIPs.
\<close>

record Lease =
  Lease_StackKey :: StackKey
  Lease_VIP :: addr
  Lease_CreatedAt :: gotime
  Lease_LastSeenAt :: gotime
  Lease_LastActiveAt :: gotime

record Snapshot =
  Snap_Version :: int
  Snap_Leases :: "Lease list"

definition SchemaVersion :: int where
  "SchemaVersion = 1"

datatype snapshot_error =
    SnapEmptyKey
  | SnapInvalidVIP StackKey
  | SnapDuplicateKey StackKey
  | SnapDuplicateVIP addr

text \<open>The loop of \<open>validateSnapshot\<close> with its two sets of what it has seen.\<close>

fun validateLeases :: "StackKey set \<Rightarrow> addr set \<Rightarrow> Lease list \<Rightarrow> snapshot_error option" where
  "validateLeases seenKeys seenVIPs [] = None"
| "validateLeases seenKeys seenVIPs (l # ls) =
     (if Lease_StackKey l = [] then Some SnapEmptyKey
      else if \<not> IsValid (Lease_VIP l) \<or> \<not> Is4 (Lease_VIP l) then Some (SnapInvalidVIP (Lease_StackKey l))
      else if Lease_StackKey l \<in> seenKeys then Some (SnapDuplicateKey (Lease_StackKey l))
      else if Lease_VIP l \<in> seenVIPs then Some (SnapDuplicateVIP (Lease_VIP l))
      else validateLeases (insert (Lease_StackKey l) seenKeys) (insert (Lease_VIP l) seenVIPs) ls)"

definition validateSnapshot :: "Snapshot \<Rightarrow> snapshot_error option" where
  "validateSnapshot snap = validateLeases {} {} (Snap_Leases snap)"

section \<open>The lease invariant\<close>

definition wf_lease :: "Lease \<Rightarrow> bool" where
  "wf_lease l \<longleftrightarrow> Lease_StackKey l \<noteq> [] \<and> Is4 (Lease_VIP l)"

definition lease_inv :: "Lease list \<Rightarrow> bool" where
  "lease_inv ls \<longleftrightarrow> distinct (map Lease_StackKey ls) \<and> distinct (map Lease_VIP ls) \<and> (\<forall>l\<in>set ls. wf_lease l)"

lemma validateLeases_None_iff:
  "validateLeases ks vs ls = None \<longleftrightarrow>
     lease_inv ls \<and> Lease_StackKey ` set ls \<inter> ks = {} \<and> Lease_VIP ` set ls \<inter> vs = {}"
proof (induction ls arbitrary: ks vs)
  case Nil
  then show ?case by (simp add: lease_inv_def)
next
  case (Cons l ls)
  show ?case
    by (auto simp: Cons.IH lease_inv_def wf_lease_def Is4_valid)
qed

lemma validateSnapshot_None_iff: "validateSnapshot snap = None \<longleftrightarrow> lease_inv (Snap_Leases snap)"
  by (simp add: validateSnapshot_def validateLeases_None_iff)

lemma lease_inv_Nil [simp]: "lease_inv []"
  by (simp add: lease_inv_def)

lemma lease_inv_filter [inv_intros]: "lease_inv ls \<Longrightarrow> lease_inv (filter P ls)"
  by (auto simp: lease_inv_def)

lemma lease_inv_map [inv_intros]:
  assumes "lease_inv ls" and "\<And>l. Lease_StackKey (f l) = Lease_StackKey l" "\<And>l. Lease_VIP (f l) = Lease_VIP l"
  shows "lease_inv (map f ls)"
  using assms by (simp add: lease_inv_def wf_lease_def o_def)

lemma lease_inv_snoc:
  assumes "lease_inv ls" and "wf_lease l"
    and "Lease_StackKey l \<notin> Lease_StackKey ` set ls" and "Lease_VIP l \<notin> Lease_VIP ` set ls"
  shows "lease_inv (ls @ [l])"
  using assms by (auto simp: lease_inv_def)

section \<open>The abstraction: which VIP a stack holds\<close>

definition lease_map :: "Lease list \<Rightarrow> StackKey \<rightharpoonup> addr" where
  "lease_map ls = map_of (map (\<lambda>l. (Lease_StackKey l, Lease_VIP l)) ls)"

lemma lease_map_Nil [simp]: "lease_map [] = Map.empty"
  by (simp add: lease_map_def)

lemma dom_lease_map: "dom (lease_map ls) = Lease_StackKey ` set ls"
  by (simp add: lease_map_def dom_map_of_conv_image_fst image_image)

lemma lease_map_Some_iff:
  assumes "distinct (map Lease_StackKey ls)"
  shows "lease_map ls k = Some v \<longleftrightarrow> (\<exists>l\<in>set ls. Lease_StackKey l = k \<and> Lease_VIP l = v)"
  using assms by (auto simp: lease_map_def map_of_eq_Some_iff o_def)

lemma lease_map_None_iff: "lease_map ls k = None \<longleftrightarrow> k \<notin> Lease_StackKey ` set ls"
  by (auto simp flip: dom_lease_map)

lemma lease_map_map:
  assumes "\<And>l. Lease_StackKey (f l) = Lease_StackKey l" "\<And>l. Lease_VIP (f l) = Lease_VIP l"
  shows "lease_map (map f ls) = lease_map ls"
  using assms by (simp add: lease_map_def o_def)

lemma lease_map_snoc:
  assumes "Lease_StackKey l \<notin> Lease_StackKey ` set ls"
  shows "lease_map (ls @ [l]) = (lease_map ls)(Lease_StackKey l \<mapsto> Lease_VIP l)"
proof -
  from assms have "lease_map ls (Lease_StackKey l) = None" by (simp add: lease_map_None_iff)
  then show ?thesis
    by (auto simp: lease_map_def map_add_def fun_eq_iff split: option.splits)
qed

lemma lease_map_filter_key:
  assumes "distinct (map Lease_StackKey ls)"
  shows "lease_map (filter (\<lambda>l. Lease_StackKey l \<noteq> k) ls) = (lease_map ls)(k := None)"
  by (induction ls) (auto simp: lease_map_def fun_eq_iff)

lemma lease_inv_inj_map:
  assumes "lease_inv ls" "lease_map ls k = Some v" "lease_map ls k' = Some v"
  shows "k = k'"
  using assms by (auto simp: lease_inv_def lease_map_Some_iff dest: distinct_map_inj)

text \<open>All times of a lease satisfy a predicate.\<close>

definition lease_times :: "(gotime \<Rightarrow> bool) \<Rightarrow> Lease \<Rightarrow> bool" where
  "lease_times P l \<longleftrightarrow> P (Lease_CreatedAt l) \<and> P (Lease_LastSeenAt l) \<and> P (Lease_LastActiveAt l)"

text \<open>
  C25 (type).  \<open>validateSnapshot\<close>, which guards every write of the state file, accepts a
  snapshot exactly when no stack key is empty or repeated, every VIP is an IPv4 address and
  no VIP is leased twice.
\<close>

theorem validateSnapshot_iff_lease_inv:
  "validateSnapshot snap = None \<longleftrightarrow> lease_inv (Snap_Leases snap)"
  by (rule validateSnapshot_None_iff)

end
