(* ===== verification/Pool.thy ===== *)
theory Pool
  imports Netip
begin

unbundle bit_operations_syntax

text \<open>
  Package \<open>internal/vip\<close>, \<open>pool.go\<close>: the pool of VIP addresses that a CIDR gives.  Addresses
  are 32-bit words; \<open>int\<close> loop counters are naturals.  Word facts are proved on \<^const>\<open>unat\<close>,
  where a prefix is a block of \<open>2 ^ hostBits\<close> consecutive numbers.
\<close>

section \<open>Definitions\<close>

record Pool =
  Pool_prefix :: netprefix
  Pool_usable :: "addr list"
  Pool_set :: "addr set"

datatype pool_error =
    PoolInvalidCIDR string
  | PoolNotIPv4 string
  | PoolBadBits nat
  | PoolNotLoopback string
  | PoolTooSmall nat
  | PoolPanic  \<comment> \<open>\<open>As4\<close> on an address that is not IPv4\<close>

definition hostMask :: "nat \<Rightarrow> u32" where
  "hostMask hostBits = (if hostBits = 32 then NOT 0 else push_bit hostBits 1 - 1)"

definition lastAddr :: "netprefix \<Rightarrow> addr option" where
  "lastAddr pfx =
     (case As4 (Prefix_Addr pfx) of
        None \<Rightarrow> None
      | Some (a0, a1, a2, a3) \<Rightarrow>
          let hostBits = 32 - Prefix_Bits pfx;
              ip = pack4 a0 a1 a2 a3 OR hostMask hostBits
          in Some (AddrFrom4 (byte_at 24 ip, byte_at 16 ip, byte_at 8 ip, byte_at 0 ip)))"

text \<open>One iteration of the enumeration loop: the address it appends, if any.\<close>

definition usableAt :: "netprefix \<Rightarrow> u32 \<Rightarrow> nat \<Rightarrow> nat \<Rightarrow> addr option" where
  "usableAt pfx baseU tot i =
     (if i = 0 then None
      else if i = tot - 1 then None
      else
        let ip = baseU + of_nat i;
            b = (byte_at 24 ip, byte_at 16 ip, byte_at 8 ip, byte_at 0 ip);
            a = AddrFrom4 b
        in if \<not> Prefix_Contains pfx a \<or> \<not> IsLoopback a then None
           else if byte_at 0 ip = 0 \<or> byte_at 0 ip = 255 then None
           else Some a)"

definition enumerateUsable :: "netprefix \<Rightarrow> addr list option" where
  "enumerateUsable pfx =
     (let hostBits = 32 - Prefix_Bits pfx in
      if hostBits = 0 then Some []
      else
        let tot = 2 ^ hostBits in
        case As4 (Prefix_Addr pfx) of
          None \<Rightarrow> None
        | Some (b0, b1, b2, b3) \<Rightarrow>
            Some (List.map_filter (usableAt pfx (pack4 b0 b1 b2 b3) tot) [0..<tot]))"

definition ParsePool :: "string \<Rightarrow> pool_error + Pool" where
  "ParsePool cidr =
     (case ParsePrefix cidr of
        None \<Rightarrow> Inl (PoolInvalidCIDR cidr)
      | Some pfx0 \<Rightarrow>
          if \<not> Is4 (Prefix_Addr pfx0) then Inl (PoolNotIPv4 cidr)
          else
            let pfx = Masked pfx0; bits = Prefix_Bits pfx in
            if bits < 16 \<or> 30 < bits then Inl (PoolBadBits bits)
            else (case lastAddr pfx of
                    None \<Rightarrow> Inl PoolPanic
                  | Some lastA \<Rightarrow>
                      if \<not> Prefix_Contains loopback_prefix (Prefix_Addr pfx)
                         \<or> \<not> Prefix_Contains loopback_prefix lastA
                      then Inl (PoolNotLoopback cidr)
                      else (case enumerateUsable pfx of
                              None \<Rightarrow> Inl PoolPanic
                            | Some usable \<Rightarrow>
                                if length usable < 2 then Inl (PoolTooSmall (length usable))
                                else Inr \<lparr>Pool_prefix = pfx, Pool_usable = usable,
                                          Pool_set = set usable\<rparr>)))"

definition Pool_Prefix :: "Pool \<Rightarrow> netprefix" where
  "Pool_Prefix p = Pool_prefix p"

definition UsableSorted :: "Pool \<Rightarrow> addr list" where
  "UsableSorted p = Pool_usable p"

definition Pool_Contains :: "Pool \<Rightarrow> addr \<Rightarrow> bool" where
  "Pool_Contains p a \<longleftrightarrow> a \<in> Pool_set p"

text \<open>Equations that evaluate faster: an address goes through its four bytes and back.\<close>

lemma AddrFrom4_byte_at [simp]: "AddrFrom4 (byte_at 24 ip, byte_at 16 ip, byte_at 8 ip, byte_at 0 ip) = Addr4 ip"
  by (simp add: AddrFrom4_def)

lemma lastAddr_code [code]:
  "lastAddr pfx =
     (case Prefix_Addr pfx of
        Addr4 ip \<Rightarrow> Some (Addr4 (ip OR hostMask (32 - Prefix_Bits pfx)))
      | Addr6 w z \<Rightarrow> if is4in6 w then Some (Addr4 (ucast w OR hostMask (32 - Prefix_Bits pfx))) else None
      | AddrZero \<Rightarrow> None)"
  by (simp add: lastAddr_def bytes4_def Let_def split: addr.splits)

lemma usableAt_code [code]:
  "usableAt pfx baseU tot i =
     (if i = 0 \<or> i = tot - 1 then None
      else let ip = baseU + of_nat i in
        if \<not> Prefix_Contains pfx (Addr4 ip) \<or> \<not> IsLoopback (Addr4 ip) then None
        else if byte_at 0 ip = 0 \<or> byte_at 0 ip = 255 then None
        else Some (Addr4 ip))"
  by (simp add: usableAt_def Let_def del: IsLoopback.simps)

lemma enumerateUsable_code [code]:
  "enumerateUsable pfx =
     (let hostBits = 32 - Prefix_Bits pfx in
      if hostBits = 0 then Some []
      else let tot = 2 ^ hostBits in
        case Prefix_Addr pfx of
          Addr4 ip \<Rightarrow> Some (List.map_filter (usableAt pfx ip tot) [0..<tot])
        | Addr6 w z \<Rightarrow> if is4in6 w then Some (List.map_filter (usableAt pfx (ucast w) tot) [0..<tot]) else None
        | AddrZero \<Rightarrow> None)"
  by (simp add: enumerateUsable_def bytes4_def Let_def split: addr.splits)

declare Prefix_Contains.simps [simp del]

section \<open>Words as numbers\<close>

lemma unat_u32_lt [simp]: "unat (w :: u32) < 4294967296"
  using unsigned_less [where ?'a = nat, of w] by simp

lemma unat_drop_bit: "unat (drop_bit n (w :: u32)) = unat w div 2 ^ n"
proof -
  have "take_bit 32 (unat w) = unat w"
    by (rule take_bit_nat_eq_self) simp
  moreover have "unat (drop_bit n w) = drop_bit n (take_bit LENGTH(32) (unat w))"
    by (rule unsigned_drop_bit_eq)
  ultimately show ?thesis by (simp add: drop_bit_eq_div [where ?'a = nat])
qed

lemma xor_zero_iff: "(a :: u32) XOR b = 0 \<longleftrightarrow> a = b"
proof
  assume "a XOR b = 0"
  then have "(a XOR b) XOR b = b" by simp
  then show "a = b" by (simp add: xor.assoc)
qed simp

lemma drop_bit_xor_zero_iff:
  "drop_bit n ((a :: u32) XOR b) = 0 \<longleftrightarrow> unat a div 2 ^ n = unat b div 2 ^ n"
proof -
  have "drop_bit n (a XOR b) = 0 \<longleftrightarrow> drop_bit n a = drop_bit n b"
    by (simp only: drop_bit_xor xor_zero_iff)
  also have "\<dots> \<longleftrightarrow> unat (drop_bit n a) = unat (drop_bit n b)"
    by (simp add: word_unat_eq_iff)
  finally show ?thesis by (simp add: unat_drop_bit)
qed

lemma unat_byte_at: "unat (byte_at k w) = unat w div 2 ^ k mod 256"
  by (simp add: byte_at_def unsigned_ucast_eq unat_drop_bit take_bit_eq_mod)

lemma byte_at_eq_iff: "byte_at k w = b \<longleftrightarrow> unat w div 2 ^ k mod 256 = unat b"
  by (simp add: word_unat_eq_iff unat_byte_at)

lemma unat_and_not_mask: "unat ((w :: u32) AND NOT (mask n)) = unat w div 2 ^ n * 2 ^ n"
proof -
  have "w AND NOT (mask n) = push_bit n (drop_bit n w)"
    by (rule bit_word_eqI) (auto simp: bit_simps)
  moreover have "unat w div 2 ^ n * 2 ^ n < 2 ^ 32"
    using le_less_trans [OF div_times_less_eq_dividend unat_u32_lt] by simp
  moreover have "unat (push_bit n (drop_bit n w)) = take_bit LENGTH(32) (push_bit n (unat (drop_bit n w)))"
    by (rule unsigned_push_bit_eq)
  ultimately show ?thesis
    by (simp only: unat_drop_bit push_bit_eq_mult [where ?'a = nat] take_bit_nat_eq_self len_num0 len_num1
        len_bit0 len_bit1 mult_1_right) (simp add: take_bit_nat_eq_self)
qed

section \<open>Blocks of addresses\<close>

text \<open>
  The number of an address, and the block of numbers that a masked IPv4 prefix covers:
  \<open>first, \<dots>, first + 2 ^ hostBits - 1\<close>.
\<close>

fun addr_num :: "addr \<Rightarrow> nat" where
  "addr_num (Addr4 ip) = unat ip"
| "addr_num _ = 0"

definition block4 :: "netprefix \<Rightarrow> u32 \<Rightarrow> nat \<Rightarrow> bool" where
  "block4 p base hb \<longleftrightarrow> Prefix_Addr p = Addr4 base \<and> hb = 32 - Prefix_Bits p \<and> hb \<le> 32
     \<and> 2 ^ hb dvd unat base"

lemma block4_Masked:
  assumes "Prefix_Addr p = Addr4 ip"
  shows "block4 (Masked p) (ip AND NOT (mask (32 - Prefix_Bits p))) (32 - Prefix_Bits p)"
  using assms by (simp add: block4_def Masked_def unat_and_not_mask)

lemma block4_top:
  assumes "block4 p base hb"
  shows "unat base + 2 ^ hb \<le> 2 ^ 32"
proof -
  have "2 ^ hb dvd (2 ^ 32 :: nat)" using assms by (auto simp only: block4_def intro!: le_imp_power_dvd)
  with assms obtain k m where km: "unat base = 2 ^ hb * k" "(2 ^ 32 :: nat) = 2 ^ hb * m"
    unfolding block4_def dvd_def by blast
  have "unat base < 2 ^ 32" by simp
  then have "2 ^ hb * k < 2 ^ hb * m" by (simp only: km)
  then have "k < m" by simp
  then have "Suc k \<le> m" by simp
  then have "2 ^ hb * Suc k \<le> 2 ^ hb * m" by (rule mult_le_mono2)
  with km show ?thesis by simp
qed

lemma block4_unat_add:
  assumes "block4 p base hb" and "i < 2 ^ hb"
  shows "unat (base + of_nat i) = unat base + i"
proof -
  have "unat base + i < 2 ^ 32" using block4_top [OF assms(1)] assms(2) by linarith
  moreover from this have "i < 2 ^ 32" by linarith
  ultimately show ?thesis by (simp add: unat_word_ariths unat_of_nat)
qed

lemma block4_Contains_iff:
  assumes "block4 p base hb"
  shows "Prefix_Contains p (Addr4 a) \<longleftrightarrow> unat base \<le> unat a \<and> unat a < unat base + 2 ^ hb"
proof -
  obtain k where k: "unat base = k * 2 ^ hb"
    using assms unfolding block4_def dvd_def by (metis mult.commute)
  have "Prefix_Contains p (Addr4 a) \<longleftrightarrow> unat a div 2 ^ hb = k"
    using assms k by (auto simp: block4_def drop_bit_xor_zero_iff Prefix_Contains.simps simp del: drop_bit_xor)
  also have "\<dots> \<longleftrightarrow> k * 2 ^ hb \<le> unat a \<and> unat a < Suc k * 2 ^ hb"
    using dividend_less_div_times [of "2 ^ hb" "unat a"] by (auto simp: div_nat_eqI mult.commute)
  finally show ?thesis by (simp add: k add.commute)
qed

lemma block4_mem_iff:
  assumes "block4 p base hb"
  shows "Prefix_Contains p (Addr4 a) \<longleftrightarrow> (\<exists>i < 2 ^ hb. a = base + of_nat i)"
proof
  assume "Prefix_Contains p (Addr4 a)"
  then have a: "unat base \<le> unat a" "unat a - unat base < 2 ^ hb"
    by (auto simp: block4_Contains_iff [OF assms])
  then have "unat (base + of_nat (unat a - unat base)) = unat a"
    by (simp add: block4_unat_add [OF assms])
  then have "a = base + of_nat (unat a - unat base)" by (simp add: word_unat_eq_iff)
  with a show "\<exists>i < 2 ^ hb. a = base + of_nat i" by blast
next
  assume "\<exists>i < 2 ^ hb. a = base + of_nat i"
  then show "Prefix_Contains p (Addr4 a)"
    by (auto simp: block4_Contains_iff [OF assms] block4_unat_add [OF assms])
qed

lemma IsLoopback4_iff: "IsLoopback (Addr4 a) \<longleftrightarrow> unat a div 2 ^ 24 = 127"
proof -
  have "unat a div 2 ^ 24 < 256" using unat_u32_lt [of a] by (simp add: div_less_iff_less_mult)
  then show ?thesis by (simp add: byte_at_eq_iff)
qed

lemma loopback_prefix_Contains4: "Prefix_Contains loopback_prefix (Addr4 a) \<longleftrightarrow> IsLoopback (Addr4 a)"
  by (simp add: loopback_prefix_def drop_bit_xor_zero_iff IsLoopback4_iff Prefix_Contains.simps
      del: IsLoopback.simps drop_bit_xor)

section \<open>The enumeration\<close>

lemma pack4_of_As4:
  assumes "block4 p base hb"
  shows "As4 (Prefix_Addr p) = Some (bytes4 base)"
  using assms by (simp add: block4_def)

text \<open>Which step of the loop appends, and what.\<close>

lemma usableAt_block:
  assumes "block4 p base hb" and "i < 2 ^ hb"
  shows "usableAt p base (2 ^ hb) i =
     (if i \<noteq> 0 \<and> i \<noteq> 2 ^ hb - 1 \<and> IsLoopback (Addr4 (base + of_nat i))
         \<and> (unat base + i) mod 256 \<noteq> 0 \<and> (unat base + i) mod 256 \<noteq> 255
      then Some (Addr4 (base + of_nat i)) else None)"
proof -
  have a: "AddrFrom4 (byte_at 24 ip, byte_at 16 ip, byte_at 8 ip, byte_at 0 ip) = Addr4 ip" for ip
    by (simp add: AddrFrom4_def)
  have "Prefix_Contains p (Addr4 (base + of_nat i))"
    using assms by (auto simp: block4_mem_iff)
  moreover have "byte_at 0 (base + of_nat i) = b \<longleftrightarrow> (unat base + i) mod 256 = unat b" for b
    by (simp add: byte_at_eq_iff block4_unat_add [OF assms])
  ultimately show ?thesis
    by (simp add: usableAt_def Let_def a del: IsLoopback.simps)
qed

lemma enumerateUsable_block:
  assumes "block4 p base hb" and "0 < hb"
  shows "enumerateUsable p = Some (List.map_filter (usableAt p base (2 ^ hb)) [0..<2 ^ hb])"
  using assms pack4_of_As4 [OF assms(1)]
  by (simp add: enumerateUsable_def block4_def bytes4_def Let_def)

lemma map_filter_alt: "List.map_filter f xs = map (the \<circ> f) (filter (\<lambda>x. f x \<noteq> None) xs)"
  by (simp add: List.map_filter_def)

definition in_pool4 :: "netprefix \<Rightarrow> u32 \<Rightarrow> bool" where
  "in_pool4 p ip \<longleftrightarrow> Prefix_Contains p (Addr4 ip) \<and> IsLoopback (Addr4 ip)
     \<and> Prefix_Addr p \<noteq> Addr4 ip \<and> lastAddr p \<noteq> Some (Addr4 ip)
     \<and> byte_at 0 ip \<noteq> 0 \<and> byte_at 0 ip \<noteq> 255"

lemma hostMask_eq: "hb \<le> 32 \<Longrightarrow> hostMask hb = mask hb"
  by (auto simp: hostMask_def mask_eq_exp_minus_1 push_bit_eq_mult)

lemma lastAddr_block:
  assumes "block4 p base hb"
  shows "lastAddr p = Some (Addr4 (base + of_nat (2 ^ hb - 1)))"
proof -
  have "unat (take_bit hb base) = take_bit hb (unat base)"
    by (rule unsigned_take_bit_eq)
  moreover have "2 ^ hb dvd unat base" using assms unfolding block4_def by blast
  ultimately have "unat (take_bit hb base) = 0"
    by (simp only: take_bit_eq_mod [where ?'a = nat] mod_eq_0_iff_dvd)
  then have "base AND mask hb = 0"
    by (simp add: word_unat_eq_iff flip: take_bit_eq_mask)
  then have "base OR mask hb = base + mask hb"
    by (simp add: disjunctive_add_eq_or)
  moreover have "(mask hb :: u32) = of_nat (2 ^ hb - 1)"
    by (simp add: mask_eq_exp_minus_1 of_nat_diff)
  ultimately show ?thesis
    using assms by (simp add: lastAddr_def bytes4_def hostMask_eq block4_def AddrFrom4_def Let_def)
qed

text \<open>
  A block whose ends are loopback is loopback throughout, and from \<open>/30\<close> on it has at least
  two usable addresses.
\<close>

definition pool_block :: "netprefix \<Rightarrow> u32 \<Rightarrow> nat \<Rightarrow> bool" where
  "pool_block p base hb \<longleftrightarrow> block4 p base hb \<and> 2 \<le> hb \<and> hb \<le> 16
     \<and> IsLoopback (Addr4 base) \<and> IsLoopback (Addr4 (base + of_nat (2 ^ hb - 1)))"

lemma pool_block_loopback:
  assumes "pool_block p base hb" and "i < 2 ^ hb"
  shows "IsLoopback (Addr4 (base + of_nat i))"
proof -
  note b = assms(1) [unfolded pool_block_def]
  have "unat base div 2 ^ 24 = 127" "(unat base + (2 ^ hb - 1)) div 2 ^ 24 = 127"
    using b block4_unat_add [of p base hb "2 ^ hb - 1"] by (simp_all only: IsLoopback4_iff) simp_all
  moreover have "unat base div 2 ^ 24 \<le> (unat base + i) div 2 ^ 24"
    "(unat base + i) div 2 ^ 24 \<le> (unat base + (2 ^ hb - 1)) div 2 ^ 24"
    using assms(2) by (auto intro!: div_le_mono)
  moreover have "unat (base + of_nat i) = unat base + i"
    using b assms(2) by (blast intro: block4_unat_add)
  ultimately show ?thesis
    by (simp only: IsLoopback4_iff)
qed

lemma pool_block_index:
  assumes "pool_block p base hb" and "i < 2 ^ hb"
  shows "usableAt p base (2 ^ hb) i =
     (if in_pool4 p (base + of_nat i) then Some (Addr4 (base + of_nat i)) else None)"
proof -
  have b: "block4 p base hb" using assms(1) by (simp add: pool_block_def)
  have inj: "base + of_nat i = base + of_nat j \<longleftrightarrow> i = j" if "j < 2 ^ hb" for j
    by (metis b block4_unat_add assms(2) that add_left_cancel)
  have "Prefix_Addr p = Addr4 (base + of_nat i) \<longleftrightarrow> i = 0"
    using b inj [of 0] by (auto simp: block4_def)
  moreover have "lastAddr p = Some (Addr4 (base + of_nat i)) \<longleftrightarrow> i = 2 ^ hb - 1"
    using inj [of "2 ^ hb - 1"] by (auto simp: lastAddr_block [OF b])
  moreover have "Prefix_Contains p (Addr4 (base + of_nat i))"
    using b assms(2) by (auto simp: block4_mem_iff)
  moreover have "byte_at 0 (base + of_nat i) = w \<longleftrightarrow> (unat base + i) mod 256 = unat w" for w
    by (simp add: byte_at_eq_iff block4_unat_add [OF b assms(2)])
  ultimately show ?thesis
    using pool_block_loopback [OF assms]
    by (simp add: usableAt_block [OF b assms(2)] in_pool4_def del: IsLoopback.simps)
qed

lemma pool_block_enumerate:
  assumes "pool_block p base hb"
  shows "enumerateUsable p =
     Some (map (\<lambda>i. Addr4 (base + of_nat i)) (filter (\<lambda>i. in_pool4 p (base + of_nat i)) [0..<2 ^ hb]))"
proof -
  have b: "block4 p base hb" "0 < hb" using assms by (auto simp: pool_block_def)
  have "filter (\<lambda>i. usableAt p base (2 ^ hb) i \<noteq> None) [0..<2 ^ hb]
      = filter (\<lambda>i. in_pool4 p (base + of_nat i)) [0..<2 ^ hb]"
    by (rule filter_cong) (auto simp: pool_block_index [OF assms])
  then show ?thesis
    by (auto simp: enumerateUsable_block [OF b] map_filter_alt pool_block_index [OF assms]
        intro!: map_cong)
qed

lemma pool_block_two_usable:
  assumes "pool_block p base hb" and "i = 1 \<or> i = 2"
  shows "i < 2 ^ hb" and "in_pool4 p (base + of_nat i)"
proof -
  have b: "block4 p base hb" "2 \<le> hb" using assms(1) by (auto simp: pool_block_def)
  then have four: "(4 :: nat) \<le> 2 ^ hb"
    using power_increasing [of 2 hb "2 :: nat"] by simp
  then show i: "i < 2 ^ hb" using assms(2) by auto
  have "(2 :: nat) ^ 2 dvd 2 ^ hb" using b(2) by (rule le_imp_power_dvd)
  then have "4 dvd unat base" using b(1) by (auto simp: block4_def intro: dvd_trans)
  then obtain m where "unat base = 4 * m" by blast
  moreover have "n mod 256 mod 4 = n mod 4" for n :: nat
    by (simp add: mod_mod_cancel)
  moreover have "(4 * m + 1) mod 4 = 1" "(4 * m + 2) mod 4 = 2" for m :: nat
    by presburger+
  ultimately have "(unat base + i) mod 256 mod 4 = i" using assms(2) by auto
  then have "(unat base + i) mod 256 \<noteq> 0 \<and> (unat base + i) mod 256 \<noteq> 255"
    using assms(2) by auto
  then have "usableAt p base (2 ^ hb) i \<noteq> None"
    using assms(2) four pool_block_loopback [OF assms(1) i]
    by (auto simp: usableAt_block [OF b(1) i] simp del: IsLoopback.simps)
  then show "in_pool4 p (base + of_nat i)"
    by (simp add: pool_block_index [OF assms(1) i] split: if_splits)
qed

lemma pool_block_length:
  assumes "pool_block p base hb" and "enumerateUsable p = Some us"
  shows "2 \<le> length us"
proof -
  have "us = map (\<lambda>i. Addr4 (base + of_nat i)) (filter (\<lambda>i. in_pool4 p (base + of_nat i)) [0..<2 ^ hb])"
    using assms by (simp add: pool_block_enumerate)
  moreover have "card {1, 2 :: nat} \<le> card (set (filter (\<lambda>i. in_pool4 p (base + of_nat i)) [0..<2 ^ hb]))"
    using pool_block_two_usable [OF assms(1), of 1] pool_block_two_usable [OF assms(1), of 2]
    by (intro card_mono) auto
  moreover have "card {1, 2 :: nat} = 2" by simp
  ultimately show ?thesis
    using card_length [of "filter (\<lambda>i. in_pool4 p (base + of_nat i)) [0..<2 ^ hb]"]
    by (simp only: length_map)
qed

section \<open>What \<open>ParsePool\<close> accepts and returns\<close>

text \<open>The pool a prefix gives, and the invariant of every pool the program holds.\<close>

definition wf_pool :: "Pool \<Rightarrow> bool" where
  "wf_pool p \<longleftrightarrow>
     sorted_wrt (\<lambda>a b. addr_num a < addr_num b) (UsableSorted p)
     \<and> (\<forall>a. Pool_Contains p a \<longleftrightarrow> a \<in> set (UsableSorted p))
     \<and> (\<forall>a \<in> set (UsableSorted p). Is4 a \<and> IsLoopback a)
     \<and> 2 \<le> length (UsableSorted p)"

lemma wf_pool_Contains: "wf_pool p \<Longrightarrow> Pool_Contains p a \<longleftrightarrow> a \<in> set (UsableSorted p)"
  by (simp add: wf_pool_def)

lemma wf_pool_distinct: "wf_pool p \<Longrightarrow> distinct (UsableSorted p)"
  unfolding wf_pool_def by (auto simp: distinct_conv_nth sorted_wrt_iff_nth_less) (metis less_irrefl nat_neq_iff)

lemma wf_pool_Is4: "wf_pool p \<Longrightarrow> Pool_Contains p a \<Longrightarrow> Is4 a"
  and wf_pool_loopback: "wf_pool p \<Longrightarrow> Pool_Contains p a \<Longrightarrow> IsLoopback a"
  by (auto simp: wf_pool_def)

lemma div_block:
  fixes n r :: nat
  assumes "hb \<le> 24" "r < 2 ^ hb"
  shows "(n div 2 ^ hb * 2 ^ hb + r) div 2 ^ 24 = n div 2 ^ 24"
proof -
  have pow: "(2 :: nat) ^ 24 = 2 ^ hb * 2 ^ (24 - hb)"
    using assms(1) by (simp flip: power_add)
  have "(n div 2 ^ hb * 2 ^ hb + r) div 2 ^ hb = n div 2 ^ hb"
    using assms(2) by simp
  then show ?thesis by (simp only: pow div_mult2_eq)
qed

lemma Masked_block_loopback:
  fixes pfx :: netprefix
  assumes "Prefix_Addr pfx = Addr4 ip" "16 \<le> Prefix_Bits pfx" "Prefix_Bits pfx \<le> 30"
    and "hb = 32 - Prefix_Bits pfx" "base = ip AND NOT (mask hb)" "i < 2 ^ hb"
  shows "IsLoopback (Addr4 (base + of_nat i)) \<longleftrightarrow> IsLoopback (Addr4 ip)"
proof -
  have "block4 (Masked pfx) base hb" using block4_Masked [OF assms(1)] assms(4,5) by simp
  then have "unat (base + of_nat i) = unat ip div 2 ^ hb * 2 ^ hb + i"
    using assms(5,6) by (simp add: block4_unat_add unat_and_not_mask)
  then show ?thesis
    using assms(2,4,6) by (simp add: IsLoopback4_iff div_block [simplified] del: IsLoopback.simps)
qed

definition pool_cidr :: "string \<Rightarrow> netprefix \<Rightarrow> bool" where
  "pool_cidr cidr pfx \<longleftrightarrow> ParsePrefix cidr = Some pfx \<and> Is4 (Prefix_Addr pfx)
     \<and> 16 \<le> Prefix_Bits pfx \<and> Prefix_Bits pfx \<le> 30 \<and> IsLoopback (Prefix_Addr pfx)"

lemma pool_cidr_block:
  assumes "pool_cidr cidr pfx"
  shows "\<exists>base hb. pool_block (Masked pfx) base hb"
proof -
  from assms obtain ip where ip: "Prefix_Addr pfx = Addr4 ip" "IsLoopback (Addr4 ip)"
    "16 \<le> Prefix_Bits pfx" "Prefix_Bits pfx \<le> 30"
    by (cases "Prefix_Addr pfx") (auto simp: pool_cidr_def)
  define hb where "hb = 32 - Prefix_Bits pfx"
  define base where "base = ip AND NOT (mask hb)"
  have "block4 (Masked pfx) base hb" using block4_Masked [OF ip(1)] by (simp add: hb_def base_def)
  moreover have "2 \<le> hb" "hb \<le> 16" using ip by (auto simp: hb_def)
  moreover have "IsLoopback (Addr4 (base + of_nat i))" if "i < 2 ^ hb" for i
    using Masked_block_loopback [OF ip(1,3,4) hb_def base_def that] ip(2) by blast
  from this [of 0] this [of "2 ^ hb - 1"]
  have "IsLoopback (Addr4 base)" "IsLoopback (Addr4 (base + of_nat (2 ^ hb - 1)))" by simp_all
  ultimately have "pool_block (Masked pfx) base hb" by (simp add: pool_block_def del: IsLoopback.simps)
  then show ?thesis by blast
qed

definition mkPool :: "netprefix \<Rightarrow> addr list \<Rightarrow> Pool" where
  "mkPool pfx us = \<lparr>Pool_prefix = pfx, Pool_usable = us, Pool_set = set us\<rparr>"

lemma ParsePool_accepted:
  assumes "pool_cidr cidr pfx" "pool_block (Masked pfx) base hb"
  shows "\<exists>us. enumerateUsable (Masked pfx) = Some us \<and> 2 \<le> length us
    \<and> ParsePool cidr = Inr (mkPool (Masked pfx) us)"
proof -
  have b: "block4 (Masked pfx) base hb" using assms(2) by (simp add: pool_block_def)
  obtain us where us: "enumerateUsable (Masked pfx) = Some us"
    using pool_block_enumerate [OF assms(2)] by blast
  have len: "2 \<le> length us" using pool_block_length [OF assms(2) us] .
  have "Prefix_Addr (Masked pfx) = Addr4 base" using b by (simp add: block4_def)
  moreover have "Prefix_Bits (Masked pfx) = Prefix_Bits pfx" by (simp add: Masked_def)
  ultimately show ?thesis
    using assms us len
    by (simp add: ParsePool_def pool_cidr_def Let_def lastAddr_block [OF b] pool_block_def
        loopback_prefix_Contains4 mkPool_def del: IsLoopback.simps)
qed

lemma masked_pool_cidr:
  assumes p: "ParsePrefix cidr = Some pfx" "Is4 (Prefix_Addr pfx)" "16 \<le> Prefix_Bits pfx" "Prefix_Bits pfx \<le> 30"
    "Prefix_Contains loopback_prefix (Prefix_Addr (Masked pfx))"
  shows "pool_cidr cidr pfx"
proof -
  obtain ip where ip: "Prefix_Addr pfx = Addr4 ip" using p(2) by (cases "Prefix_Addr pfx") auto
  define hb where "hb = 32 - Prefix_Bits pfx"
  define base where "base = ip AND NOT (mask hb)"
  have "Prefix_Addr (Masked pfx) = Addr4 base"
    using block4_Masked [OF ip] by (simp add: block4_def hb_def base_def)
  then have "IsLoopback (Addr4 (base + of_nat 0))"
    using p(5) by (simp add: loopback_prefix_Contains4 del: IsLoopback.simps)
  then have "IsLoopback (Addr4 ip)"
    using Masked_block_loopback [OF ip p(3,4) hb_def base_def, of 0] by simp
  then show ?thesis using p ip by (auto simp: pool_cidr_def)
qed

lemma ParsePool_Inr:
  assumes "ParsePool cidr = Inr p"
  shows "\<exists>pfx. pool_cidr cidr pfx"
proof -
  from assms obtain pfx where p: "ParsePrefix cidr = Some pfx" "Is4 (Prefix_Addr pfx)"
      "16 \<le> Prefix_Bits pfx" "Prefix_Bits pfx \<le> 30"
      "Prefix_Contains loopback_prefix (Prefix_Addr (Masked pfx))"
    by (auto simp: ParsePool_def Let_def Masked_def split: option.splits if_splits)
  then show ?thesis using masked_pool_cidr by blast
qed

lemma ParsePool_cases:
  assumes "ParsePool cidr = Inr p"
  obtains pfx base hb us where "pool_cidr cidr pfx" "pool_block (Masked pfx) base hb"
    "enumerateUsable (Masked pfx) = Some us" "p = mkPool (Masked pfx) us"
proof -
  obtain pfx base hb where h: "pool_cidr cidr pfx" "pool_block (Masked pfx) base hb"
    using ParsePool_Inr [OF assms] pool_cidr_block by blast
  with ParsePool_accepted [OF h] assms that show ?thesis by fastforce
qed

lemma pool_block_usable_set:
  assumes "pool_block p base hb" "enumerateUsable p = Some us"
  shows "a \<in> set us \<longleftrightarrow> (\<exists>ip. a = Addr4 ip \<and> in_pool4 p ip)"
proof -
  have "\<exists>i < 2 ^ hb. ip = base + of_nat i" if "in_pool4 p ip" for ip
    using assms(1) that block4_mem_iff [of p base hb ip]
    by (simp add: pool_block_def in_pool4_def del: IsLoopback.simps)
  moreover have "set us = {Addr4 (base + of_nat i) |i. i < 2 ^ hb \<and> in_pool4 p (base + of_nat i)}"
    using assms by (auto simp: pool_block_enumerate)
  ultimately show ?thesis by (simp only: mem_Collect_eq) metis
qed

lemma sorted_wrt_filter_upt:
  assumes "\<And>i j. i < j \<Longrightarrow> j < n \<Longrightarrow> R (f i) (f j)"
  shows "sorted_wrt R (map f (filter P [0..<n]))"
  by (auto simp: sorted_wrt_map sorted_wrt_filter assms
      intro!: sorted_wrt_filter sorted_wrt_mono_rel [OF _ sorted_wrt_upt])

lemma pool_block_usable_sorted:
  assumes "pool_block p base hb" "enumerateUsable p = Some us"
  shows "sorted_wrt (\<lambda>a b. addr_num a < addr_num b) us"
proof -
  have "block4 p base hb" using assms(1) by (simp add: pool_block_def)
  from block4_unat_add [OF this] show ?thesis
    using assms by (auto simp: pool_block_enumerate intro!: sorted_wrt_filter_upt)
qed

lemma ParsePool_wf_pool [inv_intros]: "ParsePool cidr = Inr p \<Longrightarrow> wf_pool p"
proof (erule ParsePool_cases)
  fix pfx base hb us
  assume h: "pool_block (Masked pfx) base hb" "enumerateUsable (Masked pfx) = Some us"
    "p = mkPool (Masked pfx) us"
  show "wf_pool p"
    using pool_block_usable_sorted [OF h(1,2)] pool_block_usable_set [OF h(1,2)] pool_block_length [OF h(1,2)]
    by (auto simp: wf_pool_def h(3) mkPool_def UsableSorted_def Pool_Contains_def in_pool4_def)
qed

section \<open>Properties\<close>

text \<open>
  C22 (error).  \<open>ParsePool\<close> accepts a CIDR exactly when it parses as an IPv4 prefix of length
  16 to 30 whose address is a loopback address; the checks of the last address and of the
  number of usable addresses never reject such a prefix, and \<open>As4\<close> never panics.
\<close>

theorem ParsePool_accepts_iff:
  "(\<exists>p. ParsePool cidr = Inr p) \<longleftrightarrow>
     (\<exists>pfx. ParsePrefix cidr = Some pfx \<and> Is4 (Prefix_Addr pfx) \<and> 16 \<le> Prefix_Bits pfx
        \<and> Prefix_Bits pfx \<le> 30 \<and> IsLoopback (Prefix_Addr pfx))"
proof -
  have "(\<exists>p. ParsePool cidr = Inr p) \<longleftrightarrow> (\<exists>pfx. pool_cidr cidr pfx)"
    using ParsePool_Inr ParsePool_accepted pool_cidr_block by blast
  then show ?thesis by (simp add: pool_cidr_def)
qed

lemma ParsePool_usable_facts:
  assumes "ParsePool cidr = Inr p"
  shows "sorted_wrt (\<lambda>a b. addr_num a < addr_num b) (UsableSorted p)"
    and "2 \<le> length (UsableSorted p)"
    and "a \<in> set (UsableSorted p) \<longleftrightarrow> (\<exists>ip. a = Addr4 ip \<and> in_pool4 (Pool_Prefix p) ip)"
    and "Pool_Contains p a \<longleftrightarrow> a \<in> set (UsableSorted p)"
proof -
  have w: "wf_pool p" using assms by (rule ParsePool_wf_pool)
  then show "sorted_wrt (\<lambda>a b. addr_num a < addr_num b) (UsableSorted p)"
    and "2 \<le> length (UsableSorted p)" and "Pool_Contains p a \<longleftrightarrow> a \<in> set (UsableSorted p)"
    by (simp_all add: wf_pool_def)
  from assms show "a \<in> set (UsableSorted p) \<longleftrightarrow> (\<exists>ip. a = Addr4 ip \<and> in_pool4 (Pool_Prefix p) ip)"
    by (elim ParsePool_cases)
      (simp add: mkPool_def UsableSorted_def Pool_Prefix_def pool_block_usable_set)
qed

definition example_pool :: Pool where
  "example_pool = mkPool \<lparr>Prefix_Addr = Addr4 0x7F4D0008, Prefix_Bits = 29\<rparr>
     (map Addr4 [0x7F4D0009, 0x7F4D000A, 0x7F4D000B, 0x7F4D000C, 0x7F4D000D, 0x7F4D000E])"

lemma example_pool_parts:
  "ParsePrefix ''127.77.0.13/29'' = Some \<lparr>Prefix_Addr = Addr4 0x7F4D000D, Prefix_Bits = 29\<rparr>"
  "Masked \<lparr>Prefix_Addr = Addr4 0x7F4D000D, Prefix_Bits = 29\<rparr> = \<lparr>Prefix_Addr = Addr4 0x7F4D0008, Prefix_Bits = 29\<rparr>"
  "lastAddr \<lparr>Prefix_Addr = Addr4 0x7F4D0008, Prefix_Bits = 29\<rparr> = Some (Addr4 0x7F4D000F)"
  "Prefix_Contains loopback_prefix (Addr4 0x7F4D0008)" "Prefix_Contains loopback_prefix (Addr4 0x7F4D000F)"
  "enumerateUsable \<lparr>Prefix_Addr = Addr4 0x7F4D0008, Prefix_Bits = 29\<rparr> =
     Some (map Addr4 [0x7F4D0009, 0x7F4D000A, 0x7F4D000B, 0x7F4D000C, 0x7F4D000D, 0x7F4D000E])"
  by code_simp+

lemma ParsePool_example: "ParsePool ''127.77.0.13/29'' = Inr example_pool"
  by (simp add: ParsePool_def example_pool_parts example_pool_def mkPool_def)

lemma wf_example_pool: "wf_pool example_pool"
  by (rule ParsePool_wf_pool [OF ParsePool_example])

text \<open>
  C23 (functional).  The pool of an accepted CIDR: its usable addresses are strictly ascending,
  there are at least two, and they are exactly the IPv4 loopback addresses of the masked
  prefix other than its first and its last address whose last octet is neither 0 nor 255;
  \<open>Contains\<close> decides membership.
\<close>

theorem ParsePool_usable:
  assumes "ParsePool cidr = Inr p"
  shows "sorted_wrt (\<lambda>a b. addr_num a < addr_num b) (UsableSorted p) \<and> 2 \<le> length (UsableSorted p)
    \<and> (a \<in> set (UsableSorted p) \<longleftrightarrow> (\<exists>ip. a = Addr4 ip \<and> in_pool4 (Pool_Prefix p) ip))
    \<and> (Pool_Contains p a \<longleftrightarrow> a \<in> set (UsableSorted p))"
  using ParsePool_usable_facts [OF assms] by blast

theorem ParsePool_usable_witness:
  "sorted_wrt (\<lambda>a b. addr_num a < addr_num b) (UsableSorted example_pool)
   \<and> in_pool4 (Pool_Prefix example_pool) 0x7F4D0009"
proof -
  note u = ParsePool_usable [OF ParsePool_example, of "Addr4 0x7F4D0009"]
  have "Addr4 0x7F4D0009 \<in> set (UsableSorted example_pool)"
    by (simp add: example_pool_def mkPool_def UsableSorted_def)
  with u show ?thesis by simp
qed

end
