(* ===== verification/Allocator.thy ===== *)
theory Allocator
  imports Leases Pool
begin

text \<open>
  Package \<open>internal/vip\<close>, \<open>allocator.go\<close>: the allocator that assigns VIPs to stacks and
  releases the leases of stacks that have been gone for the grace period.  The code mutates
  the snapshot it is given; here the new snapshot is the first component of the result.  The
  snapshot argument is never \<open>nil\<close>: every caller passes the address of a variable.  The clock
  (\<open>a.clock()\<close>, read once per call) is the argument \<open>now\<close>.

  The interface \<open>Allocator\<close> is the locale \<open>vip_allocator\<close>, whose laws speak of the lease
  invariant and of the abstraction \<^const>\<open>lease_map\<close>; the model of \<open>PoolAllocator\<close> is its
  instance, through the refinement of an allocator on plain maps.
\<close>

section \<open>Definitions\<close>

datatype alloc_error = ErrPoolExhausted

text \<open>The two indexes of the leases: later entries overwrite earlier ones.\<close>

definition indexLeases :: "Lease list \<Rightarrow> (StackKey \<rightharpoonup> nat) \<times> (addr \<rightharpoonup> StackKey)" where
  "indexLeases ls =
     foldl (\<lambda>(byKey, ownedVIP) (i, l). (byKey(Lease_StackKey l \<mapsto> i), ownedVIP(Lease_VIP l \<mapsto> Lease_StackKey l)))
       (Map.empty, Map.empty) (List.enumerate 0 ls)"

text \<open>The second half of \<open>Allocate\<close>: the first address that no other key owns.\<close>

definition allocateFresh :: "Pool \<Rightarrow> gotime \<Rightarrow> Snapshot \<Rightarrow> StackKey \<Rightarrow> Snapshot \<times> (alloc_error + addr)" where
  "allocateFresh pl now snap key =
     (let (_, ownedVIP) = indexLeases (Snap_Leases snap) in
      case List.find (\<lambda>a. case ownedVIP a of None \<Rightarrow> True | Some owner \<Rightarrow> owner = key) (UsableSorted pl) of
        None \<Rightarrow> (snap, Inl ErrPoolExhausted)
      | Some a \<Rightarrow>
          (snap\<lparr>Snap_Leases := Snap_Leases snap @
              [\<lparr>Lease_StackKey = key, Lease_VIP = a, Lease_CreatedAt = now,
                Lease_LastSeenAt = now, Lease_LastActiveAt = now\<rparr>]\<rparr>, Inr a))"

definition Allocate :: "Pool \<Rightarrow> gotime \<Rightarrow> Snapshot \<Rightarrow> StackKey \<Rightarrow> Snapshot \<times> (alloc_error + addr)" where
  "Allocate pl now snap key =
     (let ls = Snap_Leases snap; (byKey, ownedVIP) = indexLeases ls in
      case byKey key of
        None \<Rightarrow> allocateFresh pl now snap key
      | Some idx \<Rightarrow>
          let lease = ls ! idx;
              inPool = Pool_Contains pl (Lease_VIP lease);
              mine = (case ownedVIP (Lease_VIP lease) of None \<Rightarrow> True | Some owner \<Rightarrow> owner = key)
          in if inPool \<and> mine
             then (snap\<lparr>Snap_Leases := ls[idx := lease\<lparr>Lease_LastSeenAt := now\<rparr>]\<rparr>, Inr (Lease_VIP lease))
             else allocateFresh pl now (snap\<lparr>Snap_Leases := take idx ls @ drop (Suc idx) ls\<rparr>) key)"

text \<open>
  The allocator of a pool.  \<open>PA_now\<close> is what the clock that tests may set answers; without it
  the time is \<open>wall\<close>, the answer of \<open>time.Now\<close>.
\<close>

record PoolAllocator =
  PA_pool :: Pool
  PA_now :: "gotime option"

definition NewAllocator :: "Pool \<Rightarrow> PoolAllocator" where
  "NewAllocator pool = \<lparr>PA_pool = pool, PA_now = None\<rparr>"

definition PoolAllocator_clock :: "PoolAllocator \<Rightarrow> gotime \<Rightarrow> gotime" where
  "PoolAllocator_clock a wall = (case PA_now a of Some t \<Rightarrow> t | None \<Rightarrow> wall)"

definition PoolAllocator_Allocate :: "PoolAllocator \<Rightarrow> gotime \<Rightarrow> Snapshot \<Rightarrow> StackKey \<Rightarrow> Snapshot \<times> (alloc_error + addr)" where
  "PoolAllocator_Allocate a wall = Allocate (PA_pool a) (PoolAllocator_clock a wall)"

lemma NewAllocator_Allocate [simp]: "PoolAllocator_Allocate (NewAllocator pool) = Allocate pool"
  by (simp add: fun_eq_iff PoolAllocator_Allocate_def NewAllocator_def PoolAllocator_clock_def)

definition lease_baseline :: "Lease \<Rightarrow> gotime" where
  "lease_baseline l = (if Lease_LastActiveAt l = 0 then Lease_CreatedAt l else Lease_LastActiveAt l)"

definition lease_expired :: "gotime \<Rightarrow> duration \<Rightarrow> Lease \<Rightarrow> bool" where
  "lease_expired now grace l \<longleftrightarrow> lease_baseline l \<noteq> 0 \<and> \<not> now < lease_baseline l + grace"

fun releaseLoop :: "gotime \<Rightarrow> duration \<Rightarrow> Lease list \<Rightarrow> Lease list \<Rightarrow> StackKey list \<Rightarrow> Lease list \<times> StackKey list" where
  "releaseLoop now grace [] kept released = (kept, released)"
| "releaseLoop now grace (l # ls) kept released =
     (if lease_expired now grace l then releaseLoop now grace ls kept (released @ [Lease_StackKey l])
      else releaseLoop now grace ls (kept @ [l]) released)"

definition ReleaseExpired :: "Snapshot \<Rightarrow> gotime \<Rightarrow> duration \<Rightarrow> Snapshot \<times> StackKey list" where
  "ReleaseExpired snap now grace =
     (if Snap_Leases snap = [] then (snap, [])
      else let (kept, released) = releaseLoop now grace (Snap_Leases snap) [] []
           in (snap\<lparr>Snap_Leases := kept\<rparr>, released))"

section \<open>The indexes\<close>

lemma indexLeases_snoc:
  "indexLeases (ls @ [l]) =
     ((fst (indexLeases ls))(Lease_StackKey l \<mapsto> length ls), (snd (indexLeases ls))(Lease_VIP l \<mapsto> Lease_StackKey l))"
  by (simp add: indexLeases_def enumerate_append_eq case_prod_unfold)

lemma indexLeases_Nil [simp]: "indexLeases [] = (Map.empty, Map.empty)"
  by (simp add: indexLeases_def)

lemma byKey_Some:
  assumes "fst (indexLeases ls) k = Some i"
  shows "i < length ls \<and> Lease_StackKey (ls ! i) = k"
  using assms by (induction ls rule: rev_induct)
    (auto simp: indexLeases_snoc nth_append less_Suc_eq split: if_splits)

lemma byKey_None_iff: "fst (indexLeases ls) k = None \<longleftrightarrow> k \<notin> Lease_StackKey ` set ls"
  by (induction ls rule: rev_induct) (auto simp: indexLeases_snoc)

lemma ownedVIP_Some:
  "snd (indexLeases ls) v = Some k \<Longrightarrow> \<exists>l\<in>set ls. Lease_VIP l = v \<and> Lease_StackKey l = k"
  by (induction ls rule: rev_induct) (auto simp: indexLeases_snoc split: if_splits)

lemma ownedVIP_None_iff: "snd (indexLeases ls) v = None \<longleftrightarrow> v \<notin> Lease_VIP ` set ls"
  by (induction ls rule: rev_induct) (auto simp: indexLeases_snoc)

text \<open>Under the lease invariant a key that owns its VIP passes the ownership test.\<close>

lemma ownedVIP_inv:
  assumes "lease_inv ls" "l \<in> set ls"
  shows "snd (indexLeases ls) (Lease_VIP l) = Some (Lease_StackKey l)"
proof -
  obtain k where k: "snd (indexLeases ls) (Lease_VIP l) = Some k"
    using assms(2) ownedVIP_None_iff [of ls "Lease_VIP l"] by (cases "snd (indexLeases ls) (Lease_VIP l)") auto
  then obtain l' where "l' \<in> set ls" "Lease_VIP l' = Lease_VIP l" "Lease_StackKey l' = k"
    using ownedVIP_Some by blast
  then show ?thesis
    using assms k by (auto simp: lease_inv_def dest: distinct_map_inj)
qed

lemma byKey_inv:
  assumes "lease_inv ls" "i < length ls"
  shows "fst (indexLeases ls) (Lease_StackKey (ls ! i)) = Some i"
proof -
  obtain j where j: "fst (indexLeases ls) (Lease_StackKey (ls ! i)) = Some j"
    using assms(2) byKey_None_iff [of ls "Lease_StackKey (ls ! i)"]
    by (cases "fst (indexLeases ls) (Lease_StackKey (ls ! i))") auto
  with byKey_Some have "j < length ls" "map Lease_StackKey ls ! j = map Lease_StackKey ls ! i"
    using assms(2) by fastforce+
  then have "j = i"
    using assms nth_eq_iff_index_eq [of "map Lease_StackKey ls" j i] by (simp add: lease_inv_def)
  with j show ?thesis by simp
qed

lemma filter_other_key:
  assumes "distinct (map f (xs @ y # zs))"
  shows "filter (\<lambda>x. f x \<noteq> f y) (xs @ y # zs) = xs @ zs"
proof -
  have "filter (\<lambda>x. f x \<noteq> f y) xs = xs" "filter (\<lambda>x. f x \<noteq> f y) zs = zs"
    using assms by (auto intro!: filter_True simp: image_iff)
  then show ?thesis by simp
qed

lemma remove_key:
  assumes "lease_inv ls" "i < length ls"
  shows "take i ls @ drop (Suc i) ls = filter (\<lambda>l. Lease_StackKey l \<noteq> Lease_StackKey (ls ! i)) ls"
  using assms filter_other_key [of Lease_StackKey "take i ls" "ls ! i" "drop (Suc i) ls"]
  by (simp add: lease_inv_def flip: id_take_nth_drop)

section \<open>The allocator on maps\<close>

text \<open>
  The specification: a stack keeps a VIP that is in the pool; otherwise it gets the first
  usable address that no other stack holds; when there is none it loses its old VIP.
\<close>

definition spec_allocate :: "addr list \<Rightarrow> (StackKey \<rightharpoonup> addr) \<Rightarrow> StackKey \<Rightarrow> (StackKey \<rightharpoonup> addr) \<times> addr option" where
  "spec_allocate us m k =
     (if \<exists>v\<in>set us. m k = Some v then (m, m k)
      else case List.find (\<lambda>a. a \<notin> ran (m(k := None))) us of
             None \<Rightarrow> (m(k := None), None)
           | Some a \<Rightarrow> (m(k \<mapsto> a), Some a))"

fun result_option :: "'e + 'a \<Rightarrow> 'a option" where
  "result_option (Inl e) = None"
| "result_option (Inr a) = Some a"

lemma ran_lease_map: "distinct (map Lease_StackKey ls) \<Longrightarrow> ran (lease_map ls) = Lease_VIP ` set ls"
  by (auto simp: ran_def lease_map_Some_iff)

lemma allocateFresh_refines:
  assumes "lease_inv (Snap_Leases snap)" "key \<notin> Lease_StackKey ` set (Snap_Leases snap)"
    and "allocateFresh pl now snap key = (snap', r)"
  shows "r = (case List.find (\<lambda>a. a \<notin> ran (lease_map (Snap_Leases snap))) (UsableSorted pl) of
                None \<Rightarrow> Inl ErrPoolExhausted | Some a \<Rightarrow> Inr a)"
    and "lease_map (Snap_Leases snap') =
           (case r of Inl _ \<Rightarrow> lease_map (Snap_Leases snap) | Inr a \<Rightarrow> (lease_map (Snap_Leases snap))(key \<mapsto> a))"
proof -
  let ?ls = "Snap_Leases snap"
  have "(case snd (indexLeases ?ls) a of None \<Rightarrow> True | Some owner \<Rightarrow> owner = key) \<longleftrightarrow> a \<notin> ran (lease_map ?ls)" for a
    using assms(1,2) ownedVIP_None_iff [of ?ls a] ownedVIP_Some [of ?ls a]
    by (auto simp: lease_inv_def ran_lease_map split: option.splits)
  then show "r = (case List.find (\<lambda>a. a \<notin> ran (lease_map ?ls)) (UsableSorted pl) of
                None \<Rightarrow> Inl ErrPoolExhausted | Some a \<Rightarrow> Inr a)"
    and "lease_map (Snap_Leases snap') =
           (case r of Inl _ \<Rightarrow> lease_map ?ls | Inr a \<Rightarrow> (lease_map ?ls)(key \<mapsto> a))"
    using assms(2,3)
    by (auto simp: allocateFresh_def case_prod_unfold lease_map_snoc split: option.splits)
qed

text \<open>What \<open>Allocate\<close> does under the lease invariant, as one case distinction.\<close>

definition without_key :: "StackKey \<Rightarrow> Snapshot \<Rightarrow> Snapshot" where
  "without_key key snap = snap\<lparr>Snap_Leases := filter (\<lambda>l. Lease_StackKey l \<noteq> key) (Snap_Leases snap)\<rparr>"

definition refresh_key :: "gotime \<Rightarrow> StackKey \<Rightarrow> Snapshot \<Rightarrow> Snapshot" where
  "refresh_key now key snap =
     snap\<lparr>Snap_Leases := map (\<lambda>l. if Lease_StackKey l = key then l\<lparr>Lease_LastSeenAt := now\<rparr> else l) (Snap_Leases snap)\<rparr>"

lemma list_update_key:
  assumes "distinct (map f xs)" "i < length xs" "f (xs ! i) = k"
  shows "xs[i := g (xs ! i)] = map (\<lambda>x. if f x = k then g x else x) xs"
proof (rule nth_equalityI)
  fix j
  assume j: "j < length (xs[i := g (xs ! i)])"
  then have "f (xs ! j) = k \<longleftrightarrow> j = i"
    using assms nth_eq_iff_index_eq [of "map f xs" j i] by auto
  with j show "xs[i := g (xs ! i)] ! j = map (\<lambda>x. if f x = k then g x else x) xs ! j"
    by (simp add: nth_list_update)
qed simp

lemma Allocate_cases:
  assumes "lease_inv (Snap_Leases snap)"
  shows "Allocate pl now snap key =
     (case lease_map (Snap_Leases snap) key of
        None \<Rightarrow> allocateFresh pl now snap key
      | Some v \<Rightarrow> if Pool_Contains pl v then (refresh_key now key snap, Inr v)
                  else allocateFresh pl now (without_key key snap) key)"
proof (cases "fst (indexLeases (Snap_Leases snap)) key")
  case None
  then have "lease_map (Snap_Leases snap) key = None" by (simp add: byKey_None_iff lease_map_None_iff)
  with None show ?thesis by (simp add: Allocate_def case_prod_unfold Let_def)
next
  case (Some i)
  let ?ls = "Snap_Leases snap"
  have i: "i < length ?ls" "Lease_StackKey (?ls ! i) = key" using byKey_Some [OF Some] by auto
  then have mem: "?ls ! i \<in> set ?ls" by simp
  have d: "distinct (map Lease_StackKey ?ls)" using assms by (simp add: lease_inv_def)
  have "lease_map ?ls key = Some (Lease_VIP (?ls ! i))"
    using i mem by (auto simp: lease_map_Some_iff [OF d])
  moreover have "snd (indexLeases ?ls) (Lease_VIP (?ls ! i)) = Some key"
    using ownedVIP_inv [OF assms mem] i by simp
  moreover have "?ls[i := (?ls ! i)\<lparr>Lease_LastSeenAt := now\<rparr>] = Snap_Leases (refresh_key now key snap)"
    using list_update_key [OF d i, of "Lease_LastSeenAt_update (\<lambda>_. now)"] by (simp add: refresh_key_def)
  ultimately show ?thesis
    using Some remove_key [OF assms i(1)] i(2)
    by (simp add: Allocate_def case_prod_unfold Let_def refresh_key_def without_key_def)
qed

lemma lease_inv_without_key [inv_intros]:
  "lease_inv (Snap_Leases snap) \<Longrightarrow> lease_inv (Snap_Leases (without_key key snap))"
  by (simp add: without_key_def lease_inv_filter)

lemma lease_map_without_key:
  "lease_inv (Snap_Leases snap) \<Longrightarrow> lease_map (Snap_Leases (without_key key snap)) = (lease_map (Snap_Leases snap))(key := None)"
  by (simp add: without_key_def lease_map_filter_key lease_inv_def)

lemma keys_without_key [simp]: "key \<notin> Lease_StackKey ` set (Snap_Leases (without_key key snap))"
  by (auto simp: without_key_def)

lemma lease_inv_refresh_key [inv_intros]:
  "lease_inv (Snap_Leases snap) \<Longrightarrow> lease_inv (Snap_Leases (refresh_key now key snap))"
  by (auto simp: refresh_key_def intro!: lease_inv_map)

lemma lease_map_refresh_key [simp]:
  "lease_map (Snap_Leases (refresh_key now key snap)) = lease_map (Snap_Leases snap)"
  by (auto simp: refresh_key_def intro!: lease_map_map)

lemma Allocate_refines_spec:
  assumes "wf_pool pl" "lease_inv (Snap_Leases snap)" "Allocate pl now snap key = (snap', r)"
  shows "(lease_map (Snap_Leases snap'), result_option r)
    = spec_allocate (UsableSorted pl) (lease_map (Snap_Leases snap)) key"
proof (cases "lease_map (Snap_Leases snap) key")
  case None
  then have k: "key \<notin> Lease_StackKey ` set (Snap_Leases snap)" by (simp add: lease_map_None_iff)
  have a: "allocateFresh pl now snap key = (snap', r)"
    using assms None by (simp add: Allocate_cases)
  show ?thesis
    using allocateFresh_refines [OF assms(2) k a] None
    by (auto simp: spec_allocate_def fun_upd_idem split: option.splits)
next
  case (Some v)
  show ?thesis
  proof (cases "Pool_Contains pl v")
    case True
    then have "v \<in> set (UsableSorted pl)" using assms(1) by (simp add: wf_pool_Contains)
    then show ?thesis
      using assms(3) Some True by (auto simp: Allocate_cases [OF assms(2)] spec_allocate_def)
  next
    case False
    then have v: "v \<notin> set (UsableSorted pl)" using assms(1) by (simp add: wf_pool_Contains)
    have a: "allocateFresh pl now (without_key key snap) key = (snap', r)"
      using assms(3) Some False by (simp add: Allocate_cases [OF assms(2)])
    show ?thesis
      using allocateFresh_refines [OF lease_inv_without_key [OF assms(2)] keys_without_key a] Some v
      by (auto simp: spec_allocate_def lease_map_without_key [OF assms(2)] split: option.splits)
  qed
qed

lemma allocateFresh_inv:
  assumes "wf_pool pl" "lease_inv (Snap_Leases snap)" "key \<noteq> []"
    and "key \<notin> Lease_StackKey ` set (Snap_Leases snap)"
  shows "lease_inv (Snap_Leases (fst (allocateFresh pl now snap key)))"
proof -
  let ?free = "\<lambda>a. case snd (indexLeases (Snap_Leases snap)) a of None \<Rightarrow> True | Some owner \<Rightarrow> owner = key"
  have "Is4 a \<and> a \<notin> Lease_VIP ` set (Snap_Leases snap)" if "List.find ?free (UsableSorted pl) = Some a" for a
  proof -
    have "?free a" "a \<in> set (UsableSorted pl)" using that by (auto simp: find_Some_iff)
    then show ?thesis
      using assms(1,4) ownedVIP_None_iff [of "Snap_Leases snap" a] ownedVIP_Some [of "Snap_Leases snap" a]
      by (auto simp: wf_pool_def split: option.splits)
  qed
  then show ?thesis
    using assms(2-4)
    by (cases "List.find ?free (UsableSorted pl)")
      (auto simp: allocateFresh_def case_prod_unfold wf_lease_def intro!: lease_inv_snoc)
qed

lemma Allocate_inv [inv_intros]:
  assumes "wf_pool pl" "lease_inv (Snap_Leases snap)" "key \<noteq> []"
  shows "lease_inv (Snap_Leases (fst (Allocate pl now snap key)))"
  using assms allocateFresh_inv [OF assms]
    allocateFresh_inv [OF assms(1) lease_inv_without_key [OF assms(2)] assms(3) keys_without_key]
  by (auto simp: Allocate_cases lease_map_None_iff lease_inv_refresh_key split: option.splits)

section \<open>Release\<close>

lemma releaseLoop_eq:
  "releaseLoop now grace ls kept released =
     (kept @ filter (\<lambda>l. \<not> lease_expired now grace l) ls,
      released @ map Lease_StackKey (filter (lease_expired now grace) ls))"
  by (induction ls arbitrary: kept released) auto

lemma ReleaseExpired_eq:
  "ReleaseExpired snap now grace =
     (snap\<lparr>Snap_Leases := filter (\<lambda>l. \<not> lease_expired now grace l) (Snap_Leases snap)\<rparr>,
      map Lease_StackKey (filter (lease_expired now grace) (Snap_Leases snap)))"
  by (simp add: ReleaseExpired_def releaseLoop_eq)

lemma ReleaseExpired_inv [inv_intros]:
  "lease_inv (Snap_Leases snap) \<Longrightarrow> lease_inv (Snap_Leases (fst (ReleaseExpired snap now grace)))"
  by (simp add: ReleaseExpired_eq lease_inv_filter)

lemma lease_map_filter_le:
  assumes "distinct (map Lease_StackKey ls)"
  shows "lease_map (filter P ls) \<subseteq>\<^sub>m lease_map ls"
proof -
  have "distinct (map Lease_StackKey (filter P ls))" using assms by auto
  then have "lease_map ls k = Some v" if "lease_map (filter P ls) k = Some v" for k v
    using assms that by (auto simp: lease_map_Some_iff)
  then show ?thesis by (auto simp: map_le_def dom_def)
qed

section \<open>The interface\<close>

text \<open>
  What the reconciler relies on: the invariant is kept, a result lies in the pool and is the
  only change of the lease map, a stack keeps the VIP it has, allocation succeeds while fewer
  other stacks hold leases than the pool has addresses, and releasing only forgets.
\<close>

locale vip_allocator =
  fixes wf :: "'p \<Rightarrow> bool"
    and inPool :: "'p \<Rightarrow> addr \<Rightarrow> bool"
    and capacity :: "'p \<Rightarrow> nat"
    and allocate :: "'p \<Rightarrow> gotime \<Rightarrow> Snapshot \<Rightarrow> StackKey \<Rightarrow> Snapshot \<times> (alloc_error + addr)"
    and release :: "'p \<Rightarrow> Snapshot \<Rightarrow> gotime \<Rightarrow> duration \<Rightarrow> Snapshot \<times> StackKey list"
  assumes allocate_inv:
      "wf p \<Longrightarrow> lease_inv (Snap_Leases s) \<Longrightarrow> k \<noteq> [] \<Longrightarrow> lease_inv (Snap_Leases (fst (allocate p t s k)))"
    and allocate_ok:
      "wf p \<Longrightarrow> lease_inv (Snap_Leases s) \<Longrightarrow> allocate p t s k = (s', Inr v) \<Longrightarrow>
         inPool p v \<and> lease_map (Snap_Leases s') = (lease_map (Snap_Leases s))(k \<mapsto> v)"
    and allocate_err:
      "wf p \<Longrightarrow> lease_inv (Snap_Leases s) \<Longrightarrow> allocate p t s k = (s', Inl e) \<Longrightarrow>
         lease_map (Snap_Leases s') = (lease_map (Snap_Leases s))(k := None)"
    and allocate_keeps:
      "wf p \<Longrightarrow> lease_inv (Snap_Leases s) \<Longrightarrow> lease_map (Snap_Leases s) k = Some v \<Longrightarrow> inPool p v \<Longrightarrow>
         snd (allocate p t s k) = Inr v"
    and allocate_room:
      "wf p \<Longrightarrow> lease_inv (Snap_Leases s) \<Longrightarrow> card (dom (lease_map (Snap_Leases s)) - {k}) < capacity p \<Longrightarrow>
         \<exists>v. snd (allocate p t s k) = Inr v"
    and allocate_version: "Snap_Version (fst (allocate p t s k)) = Snap_Version s"
    and release_inv:
      "lease_inv (Snap_Leases s) \<Longrightarrow> lease_inv (Snap_Leases (fst (release p s now grace)))"
    and release_le:
      "lease_inv (Snap_Leases s) \<Longrightarrow> lease_map (Snap_Leases (fst (release p s now grace))) \<subseteq>\<^sub>m lease_map (Snap_Leases s)"
    and release_version: "Snap_Version (fst (release p s now grace)) = Snap_Version s"
    and allocate_times: "lease_inv (Snap_Leases s) \<Longrightarrow> list_all (lease_times P) (Snap_Leases s) \<Longrightarrow> P t \<Longrightarrow>
         list_all (lease_times P) (Snap_Leases (fst (allocate p t s k)))"
    and release_times: "list_all (lease_times P) (Snap_Leases s) \<Longrightarrow>
         list_all (lease_times P) (Snap_Leases (fst (release p s now grace)))"
begin

lemma allocate_other:
  assumes "wf p" "lease_inv (Snap_Leases s)" "k' \<noteq> k"
  shows "lease_map (Snap_Leases (fst (allocate p t s k))) k' = lease_map (Snap_Leases s) k'"
proof (cases "allocate p t s k")
  case (Pair s' r)
  with assms show ?thesis
    using allocate_err [of p s t k s'] allocate_ok [of p s t k s'] by (cases r) auto
qed

text \<open>Two stacks that both hold a lease never share a VIP, whatever was allocated before.\<close>

lemma allocate_no_sharing:
  assumes "wf p" "lease_inv (Snap_Leases s)" "k \<noteq> []" "allocate p t s k = (s', Inr v)"
    and "lease_map (Snap_Leases s) k' = Some v"
  shows "k' = k"
proof (rule ccontr)
  assume ne: "k' \<noteq> k"
  have inv: "lease_inv (Snap_Leases s')" using allocate_inv [OF assms(1-3), of t] assms(4) by simp
  have m: "lease_map (Snap_Leases s') = (lease_map (Snap_Leases s))(k \<mapsto> v)"
    using allocate_ok [OF assms(1,2,4)] by simp
  have "lease_map (Snap_Leases s') k' = Some v" "lease_map (Snap_Leases s') k = Some v"
    using m assms(5) ne by simp_all
  with lease_inv_inj_map [OF inv] ne show False by blast
qed

end

lemma allocateFresh_version [simp]: "Snap_Version (fst (allocateFresh pl now snap key)) = Snap_Version snap"
  by (simp add: allocateFresh_def case_prod_unfold split: option.splits)

lemma Allocate_version [simp]: "Snap_Version (fst (Allocate pl now snap key)) = Snap_Version snap"
  by (simp add: Allocate_def case_prod_unfold Let_def split: option.splits)

lemma result_option_cases [simp]:
  "result_option r = Some v \<longleftrightarrow> r = Inr v" "result_option r = None \<longleftrightarrow> (\<exists>e. r = Inl e)"
  by (cases r; simp)+

lemma spec_allocate_Some:
  assumes "spec_allocate us m k = (m', Some v)"
  shows "v \<in> set us" "m' = m(k \<mapsto> v)"
  using assms by (auto simp: spec_allocate_def find_Some_iff split: if_splits option.splits)

lemma spec_allocate_None: "spec_allocate us m k = (m', None) \<Longrightarrow> m' = m(k := None)"
  by (auto simp: spec_allocate_def split: if_splits option.splits)

lemma spec_allocate_room:
  assumes "distinct us" "finite (dom m)" "card (dom m - {k}) < length us"
  shows "snd (spec_allocate us m k) \<noteq> None"
proof
  assume "snd (spec_allocate us m k) = None"
  then have "set us \<subseteq> ran (m(k := None))"
    by (auto simp: spec_allocate_def find_None_all split: if_splits option.splits)
  moreover have "ran (m(k := None)) = (the \<circ> m) ` (dom m - {k})"
    by (force simp: ran_def)
  ultimately have "card (set us) \<le> card (dom m - {k})"
    using assms(2) by (metis (no_types, lifting) card_image_le card_mono finite_Diff finite_imageI le_trans)
  with assms(1,3) show False by (simp add: distinct_card)
qed

lemma Allocate_times:
  assumes "lease_inv (Snap_Leases s)" "list_all (lease_times P) (Snap_Leases s)" "P t"
  shows "list_all (lease_times P) (Snap_Leases (fst (Allocate pl t s k)))"
proof -
  have fresh: "list_all (lease_times P) (Snap_Leases (fst (allocateFresh pl t s' k)))"
    if "list_all (lease_times P) (Snap_Leases s')" for s' :: Snapshot
    using that assms(3) by (auto simp: allocateFresh_def lease_times_def split: option.splits prod.splits)
  have "list_all (lease_times P) (Snap_Leases (without_key k s))" "list_all (lease_times P) (Snap_Leases (refresh_key t k s))"
    using assms(2,3) by (auto simp: without_key_def refresh_key_def list_all_iff lease_times_def)
  then show ?thesis using fresh assms(2) by (auto simp: Allocate_cases [OF assms(1)] split: option.splits)
qed

interpretation pool_alloc: vip_allocator wf_pool Pool_Contains "\<lambda>pl. length (UsableSorted pl)" Allocate "\<lambda>_. ReleaseExpired"
proof
  fix pl :: Pool and s s' :: Snapshot and t now grace k v and e :: alloc_error
  assume inv: "lease_inv (Snap_Leases s)"
  show "lease_inv (Snap_Leases (fst (ReleaseExpired s now grace)))"
    using inv by (rule ReleaseExpired_inv)
  show "lease_map (Snap_Leases (fst (ReleaseExpired s now grace))) \<subseteq>\<^sub>m lease_map (Snap_Leases s)"
    using inv by (simp add: ReleaseExpired_eq lease_map_filter_le lease_inv_def)
  assume wf: "wf_pool pl"
  note ref = Allocate_refines_spec [OF wf inv, of t k]
  show "lease_inv (Snap_Leases (fst (Allocate pl t s k)))" if "k \<noteq> []"
    using Allocate_inv [OF wf inv that] .
  show "Pool_Contains pl v \<and> lease_map (Snap_Leases s') = (lease_map (Snap_Leases s))(k \<mapsto> v)"
    if "Allocate pl t s k = (s', Inr v)"
    using spec_allocate_Some [OF ref [OF that, simplified, symmetric]]
    by (simp add: wf_pool_Contains [OF wf])
  show "lease_map (Snap_Leases s') = (lease_map (Snap_Leases s))(k := None)"
    if "Allocate pl t s k = (s', Inl e)"
    using spec_allocate_None [OF ref [OF that, simplified, symmetric]] .
  show "snd (Allocate pl t s k) = Inr v"
    if "lease_map (Snap_Leases s) k = Some v" "Pool_Contains pl v"
    using that by (simp add: Allocate_cases [OF inv])
  show "\<exists>v. snd (Allocate pl t s k) = Inr v"
    if "card (dom (lease_map (Snap_Leases s)) - {k}) < length (UsableSorted pl)"
  proof -
    obtain s' r where a: "Allocate pl t s k = (s', r)" by force
    have "finite (dom (lease_map (Snap_Leases s)))" by (simp add: dom_lease_map)
    from spec_allocate_room [OF wf_pool_distinct [OF wf] this that] ref [OF a, symmetric]
    have "result_option r \<noteq> None" by simp
    with a show ?thesis by (cases r) auto
  qed
qed (auto simp: ReleaseExpired_eq list_all_iff intro: Allocate_times [unfolded list_all_iff, rule_format])

section \<open>Properties\<close>

text \<open>
  C5 (refinement).  On a well-formed pool and a snapshot that meets the lease invariant,
  \<open>Allocate\<close> computes exactly what the allocator on plain maps specifies: a stack whose VIP is
  in the pool keeps it, any other stack gets the first usable address that no other stack
  holds, and if there is none the stack ends up without a VIP; all other stacks keep theirs.
\<close>

theorem Allocate_refines:
  assumes "wf_pool pl" "lease_inv (Snap_Leases snap)" "Allocate pl now snap key = (snap', r)"
  shows "(lease_map (Snap_Leases snap'), result_option r)
    = spec_allocate (UsableSorted pl) (lease_map (Snap_Leases snap)) key"
  using assms by (rule Allocate_refines_spec)

definition example_snap :: Snapshot where
  "example_snap = \<lparr>Snap_Version = 1, Snap_Leases =
     [\<lparr>Lease_StackKey = ''shop'', Lease_VIP = Addr4 0x7F4D0009, Lease_CreatedAt = 5,
       Lease_LastSeenAt = 5, Lease_LastActiveAt = 5\<rparr>,
      \<lparr>Lease_StackKey = ''blog/dev'', Lease_VIP = Addr4 0x7F000001, Lease_CreatedAt = 7,
       Lease_LastSeenAt = 7, Lease_LastActiveAt = 0\<rparr>]\<rparr>"

lemma example_snap_inv: "lease_inv (Snap_Leases example_snap)"
  by (simp add: example_snap_def lease_inv_def wf_lease_def)

lemma example_usable:
  "UsableSorted example_pool =
     map Addr4 [0x7F4D0009, 0x7F4D000A, 0x7F4D000B, 0x7F4D000C, 0x7F4D000D, 0x7F4D000E]"
  by (simp add: example_pool_def mkPool_def UsableSorted_def)

text \<open>A lease outside the pool is replaced: the stack moves to the first free address.\<close>

theorem Allocate_refines_witness:
  "snd (Allocate example_pool 9 example_snap ''blog/dev'') = Inr (Addr4 0x7F4D000A)
   \<and> result_option (snd (Allocate example_pool 9 example_snap ''blog/dev''))
     = snd (spec_allocate (UsableSorted example_pool) (lease_map (Snap_Leases example_snap)) ''blog/dev'')"
proof -
  obtain snap' r where a: "Allocate example_pool 9 example_snap ''blog/dev'' = (snap', r)"
    by (cases "Allocate example_pool 9 example_snap ''blog/dev''")
  have "snd (Allocate example_pool 9 example_snap ''blog/dev'') = Inr (Addr4 0x7F4D000A)"
    by code_simp
  then show ?thesis
    using Allocate_refines [OF wf_example_pool example_snap_inv a, symmetric] by (simp add: a)
qed

text \<open>
  A stack without a lease gets the numerically lowest usable address that is
  free: the address is usable, no stack held it, and every lower usable address is held.
\<close>

theorem Allocate_lowest_free:
  assumes "wf_pool pl" "lease_inv (Snap_Leases snap)" "lease_map (Snap_Leases snap) key = None"
    and "Allocate pl now snap key = (snap', Inr v)"
  shows "v \<in> set (UsableSorted pl) \<and> v \<notin> ran (lease_map (Snap_Leases snap))
    \<and> (\<forall>u\<in>set (UsableSorted pl). addr_num u < addr_num v \<longrightarrow> u \<in> ran (lease_map (Snap_Leases snap)))"
proof -
  let ?m = "lease_map (Snap_Leases snap)" and ?us = "UsableSorted pl"
  have "List.find (\<lambda>a. a \<notin> ran ?m) ?us = Some v"
    using Allocate_refines_spec [OF assms(1,2,4)] assms(3)
    by (auto simp: spec_allocate_def fun_upd_idem split: option.splits)
  then obtain i where i: "i < length ?us" "v = ?us ! i" "v \<notin> ran ?m" "\<forall>j<i. ?us ! j \<in> ran ?m"
    by (auto simp: find_Some_iff)
  have "?us ! j \<in> ran ?m" if "j < length ?us" "addr_num (?us ! j) < addr_num v" for j
  proof -
    have "sorted_wrt (\<lambda>a b. addr_num a < addr_num b) ?us" using assms(1) by (simp add: wf_pool_def)
    then have "\<not> i < j" using that i(1,2) by (auto simp: sorted_wrt_iff_nth_less dest: less_asym)
    then show ?thesis using that i by (cases "j = i") auto
  qed
  then show ?thesis using i by (auto simp: in_set_conv_nth)
qed

theorem Allocate_lowest_free_witness:
  "Addr4 0x7F4D0009 \<in> ran (lease_map (Snap_Leases example_snap))
   \<and> snd (Allocate example_pool 9 example_snap ''new'') = Inr (Addr4 0x7F4D000A)"
proof -
  have s: "snd (Allocate example_pool 9 example_snap ''new'') = Inr (Addr4 0x7F4D000A)"
    by code_simp
  obtain snap' where a: "Allocate example_pool 9 example_snap ''new'' = (snap', Inr (Addr4 0x7F4D000A))"
    using s by (cases "Allocate example_pool 9 example_snap ''new''") simp
  have "lease_map (Snap_Leases example_snap) ''new'' = None"
    by (simp add: example_snap_def lease_map_def)
  from Allocate_lowest_free [OF wf_example_pool example_snap_inv this a] show ?thesis
    using s by (simp add: example_usable)
qed

text \<open>
  C20 (error).  \<open>Allocate\<close> fails exactly when the stack's own lease, if any, lies outside the
  pool and every usable address is held by another stack.
\<close>

theorem Allocate_exhausted_iff:
  assumes "wf_pool pl" "lease_inv (Snap_Leases snap)"
  shows "snd (Allocate pl now snap key) = Inl ErrPoolExhausted \<longleftrightarrow>
    (\<forall>u\<in>set (UsableSorted pl). \<exists>k. k \<noteq> key \<and> lease_map (Snap_Leases snap) k = Some u)"
proof -
  let ?m = "lease_map (Snap_Leases snap)" and ?us = "UsableSorted pl"
  obtain snap' r where a: "Allocate pl now snap key = (snap', r)" by force
  have held: "u \<in> ran (?m(key := None)) \<longleftrightarrow> (\<exists>k. k \<noteq> key \<and> ?m k = Some u)" for u
    by (auto simp: ran_def)
  have "r = Inl ErrPoolExhausted \<longleftrightarrow> result_option r = None"
    using alloc_error.exhaust by (auto intro: alloc_error.exhaust)
  also have "\<dots> \<longleftrightarrow> snd (spec_allocate ?us ?m key) = None"
    by (simp add: Allocate_refines_spec [OF assms a, symmetric])
  also have "\<dots> \<longleftrightarrow> (\<not> (\<exists>v\<in>set ?us. ?m key = Some v)) \<and> (\<forall>u\<in>set ?us. u \<in> ran (?m(key := None)))"
    by (auto simp: spec_allocate_def find_None_all find_Some_iff split: option.splits)
  also have "\<dots> \<longleftrightarrow> (\<forall>u\<in>set ?us. \<exists>k. k \<noteq> key \<and> ?m k = Some u)"
    using lease_inv_inj_map [OF assms(2)] by (auto simp: held)
  finally show ?thesis by (simp add: a)
qed

theorem Allocate_exhausted_iff_witness:
  "snd (Allocate example_pool 9 example_snap ''new'') \<noteq> Inl ErrPoolExhausted
   \<and> \<not> (\<exists>k. k \<noteq> ''new'' \<and> lease_map (Snap_Leases example_snap) k = Some (Addr4 0x7F4D000E))"
proof -
  have n: "\<not> (\<exists>k. k \<noteq> ''new'' \<and> lease_map (Snap_Leases example_snap) k = Some (Addr4 0x7F4D000E))"
    by (auto simp: example_snap_def lease_map_def split: if_splits)
  then have "\<not> (\<forall>u\<in>set (UsableSorted example_pool). \<exists>k. k \<noteq> ''new'' \<and> lease_map (Snap_Leases example_snap) k = Some u)"
    by (auto simp: example_usable)
  with n Allocate_exhausted_iff [OF wf_example_pool example_snap_inv, of 9 "''new''"] show ?thesis by blast
qed

text \<open>
  \<open>Allocate\<close> and \<open>ReleaseExpired\<close> keep the lease invariant: keys stay distinct
  and non-empty, VIPs stay distinct IPv4 addresses.
\<close>

theorem allocator_keeps_inv:
  assumes "wf_pool pl" "lease_inv (Snap_Leases snap)" "key \<noteq> []"
  shows "lease_inv (Snap_Leases (fst (Allocate pl now snap key)))
    \<and> lease_inv (Snap_Leases (fst (ReleaseExpired snap now grace)))"
  using assms pool_alloc.allocate_inv pool_alloc.release_inv by blast

theorem allocator_keeps_inv_witness:
  "lease_inv (Snap_Leases (fst (Allocate example_pool 9 example_snap ''new'')))
   \<and> lease_inv (Snap_Leases (fst (ReleaseExpired example_snap 9 3)))"
  using allocator_keeps_inv [OF wf_example_pool example_snap_inv] by blast

lemma ReleaseExpired_exact_facts:
  assumes "lease_inv (Snap_Leases snap)" "l \<in> set (Snap_Leases snap)"
    and "baseline = (if Lease_LastActiveAt l = 0 then Lease_CreatedAt l else Lease_LastActiveAt l)"
    and "ReleaseExpired snap now grace = (snap', released)"
  shows "Lease_StackKey l \<in> set released \<longleftrightarrow> baseline \<noteq> 0 \<and> grace \<le> now - baseline"
    and "l \<in> set (Snap_Leases snap') \<longleftrightarrow> \<not> (baseline \<noteq> 0 \<and> grace \<le> now - baseline)"
    and "subseq (Snap_Leases snap') (Snap_Leases snap)"
    and "lease_map (Snap_Leases snap') (Lease_StackKey l) =
           (if baseline \<noteq> 0 \<and> grace \<le> now - baseline then None else Some (Lease_VIP l))"
proof -
  let ?ls = "Snap_Leases snap"
  have exp: "lease_expired now grace l \<longleftrightarrow> baseline \<noteq> 0 \<and> grace \<le> now - baseline"
    using assms(3) by (auto simp: lease_expired_def lease_baseline_def)
  have d: "distinct (map Lease_StackKey ?ls)" using assms(1) by (simp add: lease_inv_def)
  have r: "Snap_Leases snap' = filter (\<lambda>l. \<not> lease_expired now grace l) ?ls"
    "released = map Lease_StackKey (filter (lease_expired now grace) ?ls)"
    using assms(4) by (auto simp: ReleaseExpired_eq)
  have same: "l' = l" if "l' \<in> set ?ls" "Lease_StackKey l' = Lease_StackKey l" for l'
    using distinct_map_inj [OF d that(1) assms(2) that(2)] .
  show "Lease_StackKey l \<in> set released \<longleftrightarrow> baseline \<noteq> 0 \<and> grace \<le> now - baseline"
    unfolding exp [symmetric] r(2)
  proof
    assume "Lease_StackKey l \<in> set (map Lease_StackKey (filter (lease_expired now grace) ?ls))"
    then obtain l' where "l' \<in> set ?ls" "lease_expired now grace l'" "Lease_StackKey l' = Lease_StackKey l" by auto
    with same show "lease_expired now grace l" by blast
  qed (use assms(2) in simp)
  show "l \<in> set (Snap_Leases snap') \<longleftrightarrow> \<not> (baseline \<noteq> 0 \<and> grace \<le> now - baseline)"
    using assms(2) unfolding exp [symmetric] r(1) by simp
  show "subseq (Snap_Leases snap') ?ls"
    by (simp add: r)
  have d': "distinct (map Lease_StackKey (Snap_Leases snap'))" unfolding r using d by auto
  show "lease_map (Snap_Leases snap') (Lease_StackKey l) =
           (if baseline \<noteq> 0 \<and> grace \<le> now - baseline then None else Some (Lease_VIP l))"
  proof (cases "lease_expired now grace l")
    case True
    then have "Lease_StackKey l \<notin> Lease_StackKey ` set (Snap_Leases snap')"
      using same by (auto simp: r)
    then show ?thesis using True exp by (simp add: lease_map_None_iff)
  next
    case False
    then show ?thesis
      using assms(2) exp d' by (auto simp: lease_map_Some_iff r)
  qed
qed

text \<open>
  C21 (functional).  \<open>ReleaseExpired\<close> releases exactly the leases whose activity baseline (the
  last activity, or the creation time if there was none) is set and at least the grace period
  old; the others keep their order and their contents, and their VIPs.
\<close>

theorem ReleaseExpired_exact:
  assumes "lease_inv (Snap_Leases snap)" "l \<in> set (Snap_Leases snap)"
    and "baseline = (if Lease_LastActiveAt l = 0 then Lease_CreatedAt l else Lease_LastActiveAt l)"
    and "ReleaseExpired snap now grace = (snap', released)"
  shows "(Lease_StackKey l \<in> set released \<longleftrightarrow> baseline \<noteq> 0 \<and> grace \<le> now - baseline)
    \<and> (l \<in> set (Snap_Leases snap') \<longleftrightarrow> \<not> (baseline \<noteq> 0 \<and> grace \<le> now - baseline))
    \<and> subseq (Snap_Leases snap') (Snap_Leases snap)
    \<and> lease_map (Snap_Leases snap') (Lease_StackKey l) =
           (if baseline \<noteq> 0 \<and> grace \<le> now - baseline then None else Some (Lease_VIP l))"
  using ReleaseExpired_exact_facts [OF assms] by blast

theorem ReleaseExpired_exact_witness:
  "snd (ReleaseExpired example_snap 9 3) = [''shop'']
   \<and> lease_map (Snap_Leases (fst (ReleaseExpired example_snap 9 3))) ''shop'' = None"
proof -
  have r: "snd (ReleaseExpired example_snap 9 3) = [''shop'']"
    by (simp add: ReleaseExpired_eq example_snap_def lease_expired_def lease_baseline_def)
  let ?l = "\<lparr>Lease_StackKey = ''shop'', Lease_VIP = Addr4 0x7F4D0009, Lease_CreatedAt = 5,
       Lease_LastSeenAt = 5, Lease_LastActiveAt = 5\<rparr>"
  have "?l \<in> set (Snap_Leases example_snap)" by (simp add: example_snap_def)
  from ReleaseExpired_exact [OF example_snap_inv this refl prod.collapse [symmetric], of 9 3] r
  show ?thesis by simp
qed

end
