(* ===== verification/Build.thy ===== *)
theory Build
  imports Labels Docker Allocator
begin

text \<open>
  Package \<open>internal/reconcile\<close>, \<open>build.go\<close>: from the running containers to the desired state.
  Logging is left out.  The allocator is the argument \<open>alloc\<close> (\<^const>\<open>None\<close> for Go's \<open>nil\<close>),
  whose \<open>i\<close>-th call reads the clock at \<open>clk i\<close>.  \<open>range\<close> over the map of groups visits it in
  any order; the model takes the order of insertion and \<open>winners_any_order\<close> shows that no
  other order changes the result.
\<close>

section \<open>Definitions\<close>

record BuildConfig =
  BC_BaseDomain :: string
  BC_DefaultInstance :: string

record candidate =
  cand_meta :: Meta
  cand_container :: Container
  cand_targetBind :: u16
  cand_epFQDN :: string
  cand_stackFQDN :: string
  cand_mapKey :: string

type_synonym allocate_fn = "gotime \<Rightarrow> Snapshot \<Rightarrow> StackKey \<Rightarrow> Snapshot \<times> (alloc_error + addr)"

definition parseContainer :: "Container \<Rightarrow> BuildConfig \<Rightarrow> candidate option" where
  "parseContainer c cfg =
     (case Parse (C_Labels c) (BC_DefaultInstance cfg) of
        Inl _ \<Rightarrow> None
      | Inr None \<Rightarrow> None
      | Inr (Some meta) \<Rightarrow>
          (case LoopbackBinding (C_Ports c) (Meta_TargetPort meta) (Meta_Protocol meta) of
             (hostPort, bindOK) \<Rightarrow>
               if \<not> bindOK then None
               else
                 let (epFQDN, stackFQDN) =
                       BuildFQDNs (Meta_EndpointName meta) (Meta_ProjectSlug meta) (Meta_InstanceSlug meta) (BC_BaseDomain cfg);
                     mapKey = EndpointMapKey epFQDN (Meta_PublicPort meta) (Meta_Protocol meta)
                 in Some \<lparr>cand_meta = meta, cand_container = c, cand_targetBind = hostPort,
                          cand_epFQDN = epFQDN, cand_stackFQDN = stackFQDN, cand_mapKey = mapKey\<rparr>))"

definition collectCandidates :: "Container list \<Rightarrow> BuildConfig \<Rightarrow> candidate list" where
  "collectCandidates containers cfg = List.map_filter (\<lambda>c. parseContainer c cfg) containers"

definition groupByKey :: "candidate list \<Rightarrow> (string, candidate list) gomap" where
  "groupByKey cands =
     foldl (\<lambda>byKey cand. AList.update (cand_mapKey cand)
              ((case map_of byKey (cand_mapKey cand) of None \<Rightarrow> [] | Some g \<Rightarrow> g) @ [cand]) byKey) [] cands"

definition groupWinner :: "candidate list \<Rightarrow> candidate" where
  "groupWinner g = hd (sort_key (\<lambda>c. C_ID (cand_container c)) g)"

definition sortWinners :: "candidate list \<Rightarrow> candidate list" where
  "sortWinners ws = sort_key (\<lambda>c. (Meta_StackKey (cand_meta c), cand_mapKey c)) ws"

definition pickWinners :: "(string, candidate list) gomap \<Rightarrow> candidate list" where
  "pickWinners byKey = sortWinners (map (\<lambda>(_, g). groupWinner g) byKey)"

definition mkEndpoint :: "candidate \<Rightarrow> addr \<Rightarrow> Endpoint" where
  "mkEndpoint cand a =
     \<lparr>Ep_StackKey = Meta_StackKey (cand_meta cand),
      Ep_Name = Meta_EndpointName (cand_meta cand),
      Ep_FQDN = cand_epFQDN cand,
      Ep_Protocol = Meta_Protocol (cand_meta cand),
      Ep_VIP = a,
      Ep_PublicPort = Meta_PublicPort (cand_meta cand),
      Ep_TargetPort = Meta_TargetPort (cand_meta cand),
      Ep_TargetHost = loopback4,
      Ep_TargetBind = cand_targetBind cand,
      Ep_ContainerID = C_ID (cand_container cand),
      Ep_ServiceName = Meta_ServiceName (cand_meta cand)\<rparr>"

type_synonym build_state = "Snapshot \<times> StackKey set \<times> DesiredState"

text \<open>One iteration over the winners; the clock reading of its call is \<open>t\<close>.\<close>

definition buildStep :: "allocate_fn option \<Rightarrow> gotime \<Rightarrow> candidate \<Rightarrow> build_state \<Rightarrow> build_state" where
  "buildStep alloc t cand = (\<lambda>(snap, active, desired).
     let key = Meta_StackKey (cand_meta cand) in
     case alloc of
       None \<Rightarrow> (snap, active, desired)
     | Some allocate \<Rightarrow>
         (case allocate t snap key of
            (snap', Inl _) \<Rightarrow> (snap', active, desired)
          | (snap', Inr a) \<Rightarrow>
              let (stacks, a') =
                    (case map_of (Stacks desired) key of
                       None \<Rightarrow>
                         (AList.update key
                            \<lparr>Stack_Key = key, Stack_ProjectSlug = Meta_ProjectSlug (cand_meta cand),
                             Stack_InstanceSlug = Meta_InstanceSlug (cand_meta cand),
                             Stack_ComposeProject = Meta_ComposeProject (cand_meta cand),
                             Stack_VIP = a\<rparr> (Stacks desired), a)
                     | Some st \<Rightarrow> (Stacks desired, Stack_VIP st))
              in (snap', insert key active,
                  \<lparr>Stacks = stacks,
                   Endpoints = AList.update (cand_mapKey cand) (mkEndpoint cand a') (Endpoints desired)\<rparr>)))"

fun buildLoop :: "allocate_fn option \<Rightarrow> (nat \<Rightarrow> gotime) \<Rightarrow> nat \<Rightarrow> candidate list \<Rightarrow> build_state \<Rightarrow> build_state" where
  "buildLoop alloc clk i [] st = st"
| "buildLoop alloc clk i (cand # cands) st = buildLoop alloc clk (Suc i) cands (buildStep alloc (clk i) cand st)"

definition touchActiveLeases :: "Snapshot \<Rightarrow> StackKey set \<Rightarrow> gotime \<Rightarrow> Snapshot" where
  "touchActiveLeases snap active now =
     (if active = {} then snap
      else snap\<lparr>Snap_Leases := map (\<lambda>l. if Lease_StackKey l \<in> active
                                        then l\<lparr>Lease_LastActiveAt := now, Lease_LastSeenAt := now\<rparr> else l)
                                  (Snap_Leases snap)\<rparr>)"

definition BuildDesired ::
  "Container list \<Rightarrow> Snapshot \<Rightarrow> allocate_fn option \<Rightarrow> BuildConfig \<Rightarrow> (nat \<Rightarrow> gotime) \<Rightarrow> gotime \<Rightarrow> Snapshot \<times> DesiredState" where
  "BuildDesired containers snap alloc cfg clk now =
     (let cands = collectCandidates containers cfg;
          winners = pickWinners (groupByKey cands);
          (snap', active, desired) = buildLoop alloc clk 0 winners (snap, {}, \<lparr>Stacks = [], Endpoints = []\<rparr>)
      in (touchActiveLeases snap' active now, desired))"

section \<open>Candidates and winners\<close>

definition wf_cand :: "BuildConfig \<Rightarrow> candidate \<Rightarrow> bool" where
  "wf_cand cfg cand \<longleftrightarrow>
     (let m = cand_meta cand in
      wf_meta m
      \<and> (cand_epFQDN cand, cand_stackFQDN cand) =
          BuildFQDNs (Meta_EndpointName m) (Meta_ProjectSlug m) (Meta_InstanceSlug m) (BC_BaseDomain cfg)
      \<and> cand_mapKey cand = EndpointMapKey (cand_epFQDN cand) (Meta_PublicPort m) ProtocolTCP
      \<and> LoopbackBinding (C_Ports (cand_container cand)) (Meta_TargetPort m) ProtocolTCP = (cand_targetBind cand, True))"

lemma parseContainer_wf:
  assumes "parseContainer c cfg = Some cand"
  shows "wf_cand cfg cand" "cand_container cand = c" "Parse (C_Labels c) (BC_DefaultInstance cfg) = Inr (Some (cand_meta cand))"
proof -
  from assms obtain m where m: "Parse (C_Labels c) (BC_DefaultInstance cfg) = Inr (Some m)"
    by (auto simp: parseContainer_def split: sum.splits option.splits)
  then have "wf_meta m" by (rule Parse_wf_meta)
  then have "Meta_Protocol m = ProtocolTCP" by (simp add: wf_meta_def)
  with m \<open>wf_meta m\<close> assms show "wf_cand cfg cand" "cand_container cand = c"
    "Parse (C_Labels c) (BC_DefaultInstance cfg) = Inr (Some (cand_meta cand))"
    by (auto simp: parseContainer_def wf_cand_def Let_def split: prod.splits if_splits)
qed

lemma set_collectCandidates:
  "set (collectCandidates cs cfg) = {cand. \<exists>c\<in>set cs. parseContainer c cfg = Some cand}"
  by (auto simp: collectCandidates_def List.map_filter_def image_iff) (metis option.sel)

lemma map_of_groupByKey:
  "map_of (groupByKey cands) k =
     (let g = filter (\<lambda>c. cand_mapKey c = k) cands in if g = [] then None else Some g)"
  by (induction cands rule: rev_induct) (auto simp: groupByKey_def Let_def split: option.splits if_splits)

lemma distinct_groupByKey [simp]: "distinct (gokeys (groupByKey cands))"
  by (induction cands rule: rev_induct) (auto simp: groupByKey_def)

definition cand_id :: "candidate \<Rightarrow> string" where
  "cand_id c = C_ID (cand_container c)"

lemma groupWinner_least:
  assumes "c \<in> set g"
  shows "groupWinner g \<in> set g" and "cand_id (groupWinner g) \<le> cand_id c"
  using sort_key_hd_least [OF assms, where f = "\<lambda>c. C_ID (cand_container c)"]
  by (simp_all add: groupWinner_def cand_id_def)

lemma mem_groupByKey:
  "(k, g) \<in> set (groupByKey cands) \<longleftrightarrow> g = filter (\<lambda>c. cand_mapKey c = k) cands \<and> g \<noteq> []"
proof -
  have "(k, g) \<in> set (groupByKey cands) \<longleftrightarrow> map_of (groupByKey cands) k = Some g"
    by (simp add: map_of_eq_Some_iff)
  then show ?thesis by (auto simp: map_of_groupByKey Let_def)
qed

text \<open>The group of a key, and the candidate that wins it.\<close>

definition winnerOf :: "candidate list \<Rightarrow> string \<Rightarrow> candidate" where
  "winnerOf cands k = groupWinner (filter (\<lambda>c. cand_mapKey c = k) cands)"

lemma winnerOf_least:
  assumes "c \<in> set cands"
  shows "winnerOf cands (cand_mapKey c) \<in> set cands"
    and "cand_mapKey (winnerOf cands (cand_mapKey c)) = cand_mapKey c"
    and "cand_id (winnerOf cands (cand_mapKey c)) \<le> cand_id c"
  using groupWinner_least [of c "filter (\<lambda>d. cand_mapKey d = cand_mapKey c) cands"] assms
  by (auto simp: winnerOf_def)

lemma groupWinners_eq:
  "map (\<lambda>(_, g). groupWinner g) (groupByKey cands) = map (winnerOf cands) (gokeys (groupByKey cands))"
  by (auto simp: winnerOf_def mem_groupByKey)

lemma keys_groupByKey: "set (gokeys (groupByKey cands)) = cand_mapKey ` set cands"
proof -
  have "k \<in> set (gokeys (groupByKey cands)) \<longleftrightarrow> k \<in> cand_mapKey ` set cands" for k
    using map_of_None_iff [of "groupByKey cands" k]
    by (auto simp: map_of_groupByKey Let_def filter_empty_conv split: if_splits)
  then show ?thesis by blast
qed

lemma groupWinners_mapKeys:
  "map cand_mapKey (map (\<lambda>(_, g). groupWinner g) (groupByKey cands)) = gokeys (groupByKey cands)"
proof -
  have "cand_mapKey (winnerOf cands k) = k" if "k \<in> set (gokeys (groupByKey cands))" for k
    using that winnerOf_least(2) [of _ cands] unfolding keys_groupByKey by blast
  then show ?thesis unfolding groupWinners_eq by (simp add: map_idI)
qed

lemma mset_sortWinners [simp]: "mset (sortWinners ws) = mset ws" "set (sortWinners ws) = set ws"
  by (simp_all add: sortWinners_def)

lemma distinct_sortWinners_mapKey:
  "distinct (map cand_mapKey (sortWinners ws)) \<longleftrightarrow> distinct (map cand_mapKey ws)"
proof -
  have "mset (map cand_mapKey (sortWinners ws)) = mset (map cand_mapKey ws)" by simp
  then show ?thesis by (rule mset_eq_imp_distinct_iff)
qed

lemma sortWinners_perm:
  assumes "mset ws = mset ws'" "distinct (map cand_mapKey ws)"
  shows "sortWinners ws = sortWinners ws'"
proof -
  have "inj_on (\<lambda>c. (Meta_StackKey (cand_meta c), cand_mapKey c)) (set ws)"
    using assms(2) by (auto simp: inj_on_def distinct_map)
  with assms(1) show ?thesis unfolding sortWinners_def by (rule sort_key_permutation_eq)
qed

text \<open>The order in which \<open>range\<close> visits the groups has no influence.\<close>

lemma winners_any_order:
  assumes "mset visited = mset (groupByKey cands)"
  shows "pickWinners visited = pickWinners (groupByKey cands)"
proof -
  have "distinct (map cand_mapKey (map (\<lambda>(_, g). groupWinner g) (groupByKey cands)))"
    unfolding groupWinners_mapKeys by simp
  then show ?thesis
    unfolding pickWinners_def by (intro sortWinners_perm [symmetric]) (simp_all add: assms)
qed

abbreviation winners :: "candidate list \<Rightarrow> candidate list" where
  "winners cands \<equiv> pickWinners (groupByKey cands)"

lemma set_winners: "set (winners cands) = winnerOf cands ` cand_mapKey ` set cands"
  unfolding pickWinners_def groupWinners_eq by (simp only: mset_sortWinners set_map keys_groupByKey [unfolded set_map])

lemma distinct_winners: "distinct (map cand_mapKey (winners cands))"
  unfolding pickWinners_def distinct_sortWinners_mapKey groupWinners_mapKeys by simp

lemma winners_least:
  assumes "w \<in> set (winners cands)"
  shows "w \<in> set cands" and "c \<in> set cands \<Longrightarrow> cand_mapKey c = cand_mapKey w \<Longrightarrow> cand_id w \<le> cand_id c"
proof -
  from assms obtain d where d: "d \<in> set cands" "w = winnerOf cands (cand_mapKey d)"
    by (auto simp: set_winners)
  then show "w \<in> set cands" using winnerOf_least by simp
  show "cand_id w \<le> cand_id c" if "c \<in> set cands" "cand_mapKey c = cand_mapKey w"
    using winnerOf_least(3) [OF that(1)] winnerOf_least(2) [OF d(1)] that(2) d(2) by simp
qed

lemma mapKeys_winners: "cand_mapKey ` set (winners cands) = cand_mapKey ` set cands"
  using winnerOf_least(2) [of _ cands] by (force simp: set_winners image_image)

text \<open>With distinct container IDs the winners depend only on the set of candidates.\<close>

lemma winnerOf_perm:
  assumes "set cands = set cands'" "inj_on cand_id (set cands)" "c \<in> set cands"
  shows "winnerOf cands (cand_mapKey c) = winnerOf cands' (cand_mapKey c)"
proof -
  have c': "c \<in> set cands'" using assms by simp
  note w = winnerOf_least [OF assms(3)] and w' = winnerOf_least [OF c']
  have "cand_id (winnerOf cands (cand_mapKey c)) \<le> cand_id (winnerOf cands' (cand_mapKey c))"
    using winnerOf_least(3) [of "winnerOf cands' (cand_mapKey c)" cands] w' assms(1) by simp
  moreover have "cand_id (winnerOf cands' (cand_mapKey c)) \<le> cand_id (winnerOf cands (cand_mapKey c))"
    using winnerOf_least(3) [of "winnerOf cands (cand_mapKey c)" cands'] w assms(1) by simp
  ultimately have "cand_id (winnerOf cands (cand_mapKey c)) = cand_id (winnerOf cands' (cand_mapKey c))"
    by (rule antisym)
  then show ?thesis using inj_onD [OF assms(2)] w(1) w'(1) assms(1) by blast
qed

lemma winners_perm:
  assumes "set cands = set cands'" "inj_on cand_id (set cands)"
  shows "winners cands = winners cands'"
proof -
  have "set (winners cands) = set (winners cands')"
    using winnerOf_perm [OF assms] by (simp add: set_winners image_image assms(1) [symmetric] cong: image_cong)
  moreover have "distinct (winners cands)" "distinct (winners cands')"
    using distinct_winners [of cands] distinct_winners [of cands'] by (simp_all add: distinct_map)
  ultimately have m: "mset (winners cands) = mset (winners cands')"
    by (simp add: set_eq_iff_mset_eq_distinct)
  have s: "sortWinners (winners xs) = winners xs" for xs
    unfolding pickWinners_def sortWinners_def by (intro sort_key_id_if_sorted) (simp add: sorted_sort_key)
  from sortWinners_perm [OF m distinct_winners] show ?thesis by (simp only: s)
qed

section \<open>The desired state\<close>

declare map_of_eq_Some_iff [simp del] Some_eq_map_of_iff [simp del]

text \<open>
  What every stack and endpoint of a desired state satisfies, relative to the leases and to the
  candidates that were considered.
\<close>

definition stack_ok :: "(addr \<Rightarrow> bool) \<Rightarrow> Lease list \<Rightarrow> StackKey \<Rightarrow> Stack \<Rightarrow> bool" where
  "stack_ok inPool ls k st \<longleftrightarrow>
     Stack_Key st = k \<and> dns_label (Stack_ProjectSlug st) \<and> instance_slug (Stack_InstanceSlug st)
     \<and> k = MakeStackKey (Stack_ProjectSlug st) (Stack_InstanceSlug st)
     \<and> inPool (Stack_VIP st) \<and> lease_map ls k = Some (Stack_VIP st)"

definition endpoint_ok :: "(StackKey, Stack) gomap \<Rightarrow> candidate list \<Rightarrow> string \<Rightarrow> Endpoint \<Rightarrow> bool" where
  "endpoint_ok stacks cands mk ep \<longleftrightarrow>
     (\<exists>cand st. cand \<in> set cands \<and> cand_mapKey cand = mk
        \<and> map_of stacks (Meta_StackKey (cand_meta cand)) = Some st \<and> ep = mkEndpoint cand (Stack_VIP st))"

definition build_inv :: "(addr \<Rightarrow> bool) \<Rightarrow> candidate list \<Rightarrow> build_state \<Rightarrow> bool" where
  "build_inv inPool cands = (\<lambda>(snap, active, desired).
     lease_inv (Snap_Leases snap)
     \<and> distinct (gokeys (Stacks desired)) \<and> distinct (gokeys (Endpoints desired))
     \<and> active = dom (map_of (Stacks desired))
     \<and> (\<forall>k st. map_of (Stacks desired) k = Some st \<longrightarrow> stack_ok inPool (Snap_Leases snap) k st)
     \<and> (\<forall>mk ep. map_of (Endpoints desired) mk = Some ep \<longrightarrow> endpoint_ok (Stacks desired) cands mk ep)
     \<and> (\<forall>k\<in>active. \<exists>mk ep. map_of (Endpoints desired) mk = Some ep \<and> Ep_StackKey ep = k))"

lemma build_invD:
  assumes "build_inv P cands (snap, active, D)"
  shows "lease_inv (Snap_Leases snap)" "distinct (gokeys (Stacks D))" "distinct (gokeys (Endpoints D))"
    and "active = dom (map_of (Stacks D))"
    and "map_of (Stacks D) k = Some st \<Longrightarrow> stack_ok P (Snap_Leases snap) k st"
    and "map_of (Endpoints D) mk = Some ep \<Longrightarrow> endpoint_ok (Stacks D) cands mk ep"
    and "k \<in> active \<Longrightarrow> \<exists>mk ep. map_of (Endpoints D) mk = Some ep \<and> Ep_StackKey ep = k"
  using assms by (simp_all add: build_inv_def)

lemma build_inv_init: "lease_inv (Snap_Leases snap) \<Longrightarrow> build_inv P cands (snap, {}, \<lparr>Stacks = [], Endpoints = []\<rparr>)"
  by (simp add: build_inv_def)

lemma wf_cand_key: "wf_cand cfg cand \<Longrightarrow> Meta_StackKey (cand_meta cand) \<noteq> []"
  by (auto simp: wf_cand_def wf_meta_def Let_def MakeStackKey_def dest: dns_label_no_sep(4))

lemma endpoint_ok_mono:
  assumes "endpoint_ok stacks cands mk ep" "map_of stacks \<subseteq>\<^sub>m map_of stacks'"
  shows "endpoint_ok stacks' cands mk ep"
  using assms unfolding endpoint_ok_def map_le_def by (metis domI)

text \<open>
  The endpoints an update leaves: the keys of the active stacks keep an endpoint because the
  endpoint that is replaced belongs to the same stack.
\<close>

lemma endpoint_key_stack:
  assumes "wf_cand cfg c" "wf_cand cfg d" "cand_mapKey c = cand_mapKey d"
  shows "Meta_StackKey (cand_meta c) = Meta_StackKey (cand_meta d)"
proof -
  let ?c = "cand_meta c" and ?d = "cand_meta d"
  have w: "wf_meta ?c" "wf_meta ?d" using assms by (simp_all add: wf_cand_def Let_def)
  have "EndpointMapKey (fst (BuildFQDNs (Meta_EndpointName ?c) (Meta_ProjectSlug ?c) (Meta_InstanceSlug ?c) (BC_BaseDomain cfg)))
          (Meta_PublicPort ?c) ProtocolTCP
      = EndpointMapKey (fst (BuildFQDNs (Meta_EndpointName ?d) (Meta_ProjectSlug ?d) (Meta_InstanceSlug ?d) (BC_BaseDomain cfg)))
          (Meta_PublicPort ?d) ProtocolTCP"
    using assms by (simp add: wf_cand_def Let_def) (metis fst_conv)
  then show ?thesis
    using w by (auto simp: wf_meta_def EndpointMapKey_inject endpoint_fqdn_inject)
qed

lemma stack_ok_cong:
  "lease_map ls k = lease_map ls' k \<Longrightarrow> stack_ok P ls k st \<longleftrightarrow> stack_ok P ls' k st"
  by (simp add: stack_ok_def)

lemma build_inv_snap:
  assumes "build_inv P cands (snap, active, D)" "lease_inv (Snap_Leases snap')"
    and "\<And>k. k \<in> active \<Longrightarrow> lease_map (Snap_Leases snap') k = lease_map (Snap_Leases snap) k"
  shows "build_inv P cands (snap', active, D)"
proof -
  have "stack_ok P (Snap_Leases snap') k st" if "map_of (Stacks D) k = Some st" for k st
  proof -
    have "k \<in> active" using that build_invD(4) [OF assms(1)] by blast
    then show ?thesis using build_invD(5) [OF assms(1) that] stack_ok_cong [OF assms(3)] by blast
  qed
  then show ?thesis
    using assms(1,2) by (simp add: build_inv_def)
qed

lemma build_inv_put:
  assumes inv: "build_inv P cands (snap, active, D)"
    and snap': "lease_inv (Snap_Leases snap')"
      "\<And>k'. k' \<noteq> k \<Longrightarrow> lease_map (Snap_Leases snap') k' = lease_map (Snap_Leases snap) k'"
    and st: "stack_ok P (Snap_Leases snap') k st"
      "map_of (Stacks D) k = None \<or> map_of (Stacks D) k = Some st"
    and cand: "cand \<in> set cands" "\<forall>c\<in>set cands. wf_cand cfg c" "k = Meta_StackKey (cand_meta cand)"
  shows "build_inv P cands (snap', insert k active,
    \<lparr>Stacks = AList.update k st (Stacks D),
     Endpoints = AList.update (cand_mapKey cand) (mkEndpoint cand (Stack_VIP st)) (Endpoints D)\<rparr>)"
proof -
  let ?S = "AList.update k st (Stacks D)"
    and ?E = "AList.update (cand_mapKey cand) (mkEndpoint cand (Stack_VIP st)) (Endpoints D)"
  note i = build_invD [OF inv]
  have le: "map_of (Stacks D) \<subseteq>\<^sub>m map_of ?S" using st(2) by (auto simp: map_le_def)
  have stacks: "stack_ok P (Snap_Leases snap') k' st'" if "map_of ?S k' = Some st'" for k' st'
  proof (cases "k' = k")
    case False
    with that have "stack_ok P (Snap_Leases snap) k' st'" by (simp add: i(5))
    then show ?thesis using stack_ok_cong [OF snap'(2) [OF False]] by blast
  qed (use that st(1) in simp)
  have new: "endpoint_ok ?S cands (cand_mapKey cand) (mkEndpoint cand (Stack_VIP st))"
    using cand(1,3) by (auto simp: endpoint_ok_def)
  have eps: "endpoint_ok ?S cands mk ep" if "map_of ?E mk = Some ep" for mk ep
  proof (cases "mk = cand_mapKey cand")
    case False
    with that have "endpoint_ok (Stacks D) cands mk ep" by (simp add: i(6))
    then show ?thesis using le by (rule endpoint_ok_mono)
  qed (use that new in simp)
  have act: "\<exists>mk ep. map_of ?E mk = Some ep \<and> Ep_StackKey ep = k'" if k': "k' \<in> insert k active" for k'
  proof (cases "k' = k")
    case True
    then show ?thesis using cand(3) by (auto simp: mkEndpoint_def)
  next
    case False
    with k' i(7) obtain mk ep where ep: "map_of (Endpoints D) mk = Some ep" "Ep_StackKey ep = k'" by blast
    then obtain c and st' :: Stack where "c \<in> set cands" "cand_mapKey c = mk" "ep = mkEndpoint c (Stack_VIP st')"
      using i(6) unfolding endpoint_ok_def by blast
    then have "mk \<noteq> cand_mapKey cand"
      using endpoint_key_stack [of cfg c cand] cand ep(2) False by (auto simp: mkEndpoint_def)
    with ep show ?thesis by auto
  qed
  show ?thesis
    using i(2-4) snap'(1) stacks eps act by (simp add: build_inv_def dom_fun_upd del: map_of_update)
      (simp add: map_of_update)
qed

context vip_allocator
begin

lemma buildStep_inv:
  assumes wf: "wf p" and inv: "build_inv (inPool p) cands st"
    and cand: "cand \<in> set cands" "\<forall>c\<in>set cands. wf_cand cfg c"
  shows "build_inv (inPool p) cands (buildStep (Some (allocate p)) t cand st)"
proof -
  obtain snap active D where st: "st = (snap, active, D)" by (cases st)
  let ?k = "Meta_StackKey (cand_meta cand)" and ?m = "cand_meta cand"
  obtain snap' r where a: "allocate p t snap ?k = (snap', r)" by force
  have wc: "wf_cand cfg cand" using cand by blast
  then have wm: "wf_meta ?m" by (simp add: wf_cand_def Let_def)
  have li: "lease_inv (Snap_Leases snap)" using inv by (simp add: st build_inv_def)
  have li': "lease_inv (Snap_Leases snap')"
    using allocate_inv [OF wf li wf_cand_key [OF wc], of t] a by simp
  have other: "lease_map (Snap_Leases snap') k = lease_map (Snap_Leases snap) k" if "k \<noteq> ?k" for k
    using allocate_other [OF wf li that, of t] a by simp
  have put: "build_inv (inPool p) cands (snap', insert ?k active,
      \<lparr>Stacks = AList.update ?k s (Stacks D),
       Endpoints = AList.update (cand_mapKey cand) (mkEndpoint cand (Stack_VIP s)) (Endpoints D)\<rparr>)"
    if "stack_ok (inPool p) (Snap_Leases snap') ?k s" "map_of (Stacks D) ?k = None \<or> map_of (Stacks D) ?k = Some s" for s
    using inv [unfolded st] li' other that cand refl by (rule build_inv_put)
  show ?thesis
  proof (cases "map_of (Stacks D) ?k")
    case None
    show ?thesis
    proof (cases r)
      case (Inl e)
      have "?k \<notin> active" using None build_invD(4) [OF inv [unfolded st]] by auto
      then have "build_inv (inPool p) cands (snap', active, D)"
        using build_inv_snap [OF inv [unfolded st] li'] other by metis
      with Inl a show ?thesis by (simp add: st buildStep_def)
    next
      case (Inr v)
      let ?st = "\<lparr>Stack_Key = ?k, Stack_ProjectSlug = Meta_ProjectSlug ?m, Stack_InstanceSlug = Meta_InstanceSlug ?m,
        Stack_ComposeProject = Meta_ComposeProject ?m, Stack_VIP = v\<rparr>"
      have "stack_ok (inPool p) (Snap_Leases snap') ?k ?st"
        using wm allocate_ok [OF wf li, of t ?k snap' v] a Inr by (simp add: stack_ok_def wf_meta_def)
      from put [OF this] None Inr a show ?thesis by (simp add: st buildStep_def Let_def)
    qed
  next
    case (Some s)
    then have ok: "stack_ok (inPool p) (Snap_Leases snap) ?k s" using inv by (simp add: st build_inv_def)
    then have "lease_map (Snap_Leases snap) ?k = Some (Stack_VIP s)" "inPool p (Stack_VIP s)"
      unfolding stack_ok_def by blast+
    from allocate_keeps [OF wf li this, of t] a have r: "r = Inr (Stack_VIP s)" by simp
    then have "stack_ok (inPool p) (Snap_Leases snap') ?k s"
      using allocate_ok [OF wf li, of t ?k snap' "Stack_VIP s"] a ok by (simp add: stack_ok_def)
    from put [OF this] Some r a show ?thesis by (simp add: st buildStep_def update_same Let_def)
  qed
qed

lemma buildLoop_inv:
  assumes "wf p" "build_inv (inPool p) cands st" "set cs \<subseteq> set cands" "\<forall>c\<in>set cands. wf_cand cfg c"
  shows "build_inv (inPool p) cands (buildLoop (Some (allocate p)) clk i cs st)"
  using assms(2,3)
proof (induction cs arbitrary: i st)
  case (Cons c cs)
  then show ?case using buildStep_inv [OF assms(1) Cons.prems(1) _ assms(4), of c "clk i"] by simp
qed simp

end

section \<open>What the loop does to the leases\<close>

context vip_allocator
begin

lemma buildStep_snap:
  "fst (buildStep (Some (allocate p)) t cand st) = fst (allocate p t (fst st) (Meta_StackKey (cand_meta cand)))"
  by (cases st) (auto simp: buildStep_def Let_def split: prod.splits sum.splits option.splits)

lemma buildStep_leases:
  fixes t :: gotime
  assumes "wf p" "lease_inv (Snap_Leases (fst st))" "wf_cand cfg c"
  defines "st' \<equiv> buildStep (Some (allocate p)) t c st"
  shows "lease_inv (Snap_Leases (fst st'))"
    and "Meta_StackKey (cand_meta c) \<noteq> k \<Longrightarrow> lease_map (Snap_Leases (fst st')) k = lease_map (Snap_Leases (fst st)) k"
    and "lease_map (Snap_Leases (fst st)) k = Some v \<Longrightarrow> inPool p v \<Longrightarrow> lease_map (Snap_Leases (fst st')) k = Some v"
proof -
  let ?k = "Meta_StackKey (cand_meta c)"
  show "lease_inv (Snap_Leases (fst st'))"
    using allocate_inv [OF assms(1,2) wf_cand_key [OF assms(3)]] by (simp add: st'_def buildStep_snap)
  show other: "lease_map (Snap_Leases (fst st')) k = lease_map (Snap_Leases (fst st)) k" if "?k \<noteq> k"
    using allocate_other [OF assms(1,2), of k ?k t] that by (simp add: st'_def buildStep_snap)
  show "lease_map (Snap_Leases (fst st')) k = Some v"
    if "lease_map (Snap_Leases (fst st)) k = Some v" "inPool p v"
  proof (cases "k = ?k")
    case True
    with that allocate_keeps [OF assms(1,2), of ?k v t]
    have "allocate p t (fst st) ?k = (fst st', Inr v)"
      by (simp add: st'_def buildStep_snap prod_eq_iff)
    from allocate_ok [OF assms(1,2) this] True show ?thesis by simp
  qed (use that other in simp)
qed

lemma buildLoop_leases:
  assumes "wf p" "lease_inv (Snap_Leases (fst st))" "\<forall>c\<in>set cs. wf_cand cfg c"
  shows "((\<forall>c\<in>set cs. Meta_StackKey (cand_meta c) \<noteq> k) \<longrightarrow>
      lease_map (Snap_Leases (fst (buildLoop (Some (allocate p)) clk i cs st))) k = lease_map (Snap_Leases (fst st)) k)
    \<and> (lease_map (Snap_Leases (fst st)) k = Some v \<and> inPool p v \<longrightarrow>
      lease_map (Snap_Leases (fst (buildLoop (Some (allocate p)) clk i cs st))) k = Some v)
    \<and> Snap_Version (fst (buildLoop (Some (allocate p)) clk i cs st)) = Snap_Version (fst st)"
  using assms(2,3)
proof (induction cs arbitrary: i st)
  case (Cons c cs)
  let ?st = "buildStep (Some (allocate p)) (clk i) c st"
  have "wf_cand cfg c" using Cons.prems by simp
  note step = buildStep_leases [OF assms(1) Cons.prems(1) this, where t = "clk i"]
  have "Snap_Version (fst ?st) = Snap_Version (fst st)" by (simp add: buildStep_snap allocate_version)
  with Cons.IH [OF step(1), of "Suc i"] Cons.prems(2) step(2,3) show ?case by simp
qed simp

end

lemma touchActiveLeases_inv [inv_intros]:
  "lease_inv (Snap_Leases snap) \<Longrightarrow> lease_inv (Snap_Leases (touchActiveLeases snap active now))"
  by (simp add: touchActiveLeases_def lease_inv_map)

lemma lease_map_touchActiveLeases [simp]:
  "lease_map (Snap_Leases (touchActiveLeases snap active now)) = lease_map (Snap_Leases snap)"
  by (simp add: touchActiveLeases_def lease_map_map)

lemma touchActiveLeases_version [simp]: "Snap_Version (touchActiveLeases snap active now) = Snap_Version snap"
  by (simp add: touchActiveLeases_def)

section \<open>Room in the pool\<close>

text \<open>
  If the pool has an address for every stack that holds a lease or has a candidate, every
  winner is published.
\<close>

definition published :: "build_state \<Rightarrow> string set" where
  "published st = dom (map_of (Endpoints (snd (snd st))))"

context vip_allocator
begin

lemma buildStep_published:
  assumes "wf p" "lease_inv (Snap_Leases (fst st))" "finite K" "card K \<le> capacity p"
    and "dom (lease_map (Snap_Leases (fst st))) \<subseteq> K" "Meta_StackKey (cand_meta c) \<in> K"
  shows "published (buildStep (Some (allocate p)) t c st) = insert (cand_mapKey c) (published st)"
proof -
  let ?k = "Meta_StackKey (cand_meta c)"
  have "card (dom (lease_map (Snap_Leases (fst st))) - {?k}) \<le> card (K - {?k})"
    using assms(3,5) by (intro card_mono) auto
  also have "\<dots> < card K" using assms(3,6) by (rule card_Diff1_less)
  finally obtain v where "snd (allocate p t (fst st) ?k) = Inr v"
    using allocate_room [OF assms(1,2), of ?k t] assms(4) by auto
  then obtain s' where "allocate p t (fst st) ?k = (s', Inr v)" by (metis prod.collapse)
  then show ?thesis
    by (cases st) (auto simp: published_def buildStep_def Let_def split: option.splits)
qed

lemma buildStep_dom:
  assumes "wf p" "lease_inv (Snap_Leases (fst st))"
  shows "dom (lease_map (Snap_Leases (fst (buildStep (Some (allocate p)) t c st))))
    \<subseteq> insert (Meta_StackKey (cand_meta c)) (dom (lease_map (Snap_Leases (fst st))))"
  using allocate_other [OF assms] by (force simp: buildStep_snap)

lemma buildLoop_published:
  assumes "wf p" "lease_inv (Snap_Leases (fst st))" "\<forall>c\<in>set cs. wf_cand cfg c"
    and "finite K" "card K \<le> capacity p" "dom (lease_map (Snap_Leases (fst st))) \<subseteq> K"
    and "(\<lambda>c. Meta_StackKey (cand_meta c)) ` set cs \<subseteq> K"
  shows "published (buildLoop (Some (allocate p)) clk i cs st) = cand_mapKey ` set cs \<union> published st"
  using assms(2,3,6,7)
proof (induction cs arbitrary: i st)
  case (Cons c cs)
  have wc: "wf_cand cfg c" and k: "Meta_StackKey (cand_meta c) \<in> K" using Cons.prems by auto
  note inv = buildStep_leases(1) [OF assms(1) Cons.prems(1) wc, of "clk i"]
  have "dom (lease_map (Snap_Leases (fst (buildStep (Some (allocate p)) (clk i) c st)))) \<subseteq> K"
    using buildStep_dom [OF assms(1) Cons.prems(1), of "clk i" c] Cons.prems(3) k by blast
  from Cons.IH [OF inv _ this, of "Suc i"] Cons.prems(2,4)
  show ?case
    using buildStep_published [OF assms(1) Cons.prems(1) assms(4,5) Cons.prems(3) k] by auto
qed simp

end

section \<open>\<open>BuildDesired\<close> as a whole\<close>

definition desired_ok :: "(addr \<Rightarrow> bool) \<Rightarrow> candidate list \<Rightarrow> Snapshot \<Rightarrow> DesiredState \<Rightarrow> bool" where
  "desired_ok inPool ws snap desired \<longleftrightarrow> build_inv inPool ws (snap, dom (map_of (Stacks desired)), desired)"

lemma inj_cand_id:
  assumes "distinct (map C_ID cs)"
  shows "inj_on cand_id (set (collectCandidates cs cfg))"
proof (rule inj_onI)
  fix x y
  assume "x \<in> set (collectCandidates cs cfg)" "y \<in> set (collectCandidates cs cfg)" and eq: "cand_id x = cand_id y"
  then obtain c d where c: "c \<in> set cs" "parseContainer c cfg = Some x" and d: "d \<in> set cs" "parseContainer d cfg = Some y"
    by (auto simp: set_collectCandidates)
  have "C_ID c = C_ID d"
    using eq parseContainer_wf(2) [OF c(2)] parseContainer_wf(2) [OF d(2)] by (simp add: cand_id_def)
  then have "c = d" using distinct_map_inj [OF assms c(1) d(1)] by blast
  with c d show "x = y" by simp
qed

lemma wf_candidates: "\<forall>c\<in>set (collectCandidates cs cfg). wf_cand cfg c"
  by (auto simp: set_collectCandidates dest: parseContainer_wf)

lemma wf_winners: "\<forall>c\<in>set (winners (collectCandidates cs cfg)). wf_cand cfg c"
  using wf_candidates winners_least(1) by blast

context vip_allocator
begin

lemma BuildDesired_ok:
  assumes "wf p" "lease_inv (Snap_Leases snap)"
    and "BuildDesired containers snap (Some (allocate p)) cfg clk now = (snap', desired)"
  shows "desired_ok (inPool p) (winners (collectCandidates containers cfg)) snap' desired"
proof -
  let ?ws = "winners (collectCandidates containers cfg)"
  let ?st = "buildLoop (Some (allocate p)) clk 0 ?ws (snap, {}, \<lparr>Stacks = [], Endpoints = []\<rparr>)"
  obtain s active D where st: "?st = (s, active, D)" by (cases ?st)
  have inv: "build_inv (inPool p) ?ws (s, active, D)"
    using buildLoop_inv [OF assms(1) build_inv_init [OF assms(2)] subset_refl wf_winners, where clk = clk and i = 0]
      st by metis
  then have "build_inv (inPool p) ?ws (touchActiveLeases s active now, active, D)"
    using build_invD(1) [OF inv] by (intro build_inv_snap [OF inv]) (simp_all add: touchActiveLeases_inv)
  moreover have "snap' = touchActiveLeases s active now" "desired = D" "active = dom (map_of (Stacks D))"
    using assms(3) st build_invD(4) [OF inv] by (auto simp: BuildDesired_def Let_def)
  ultimately show ?thesis by (simp add: desired_ok_def)
qed

lemma BuildDesired_leases:
  assumes "wf p" "lease_inv (Snap_Leases snap)"
    and "BuildDesired containers snap (Some (allocate p)) cfg clk now = (snap', desired)"
  shows "(\<forall>c\<in>set (collectCandidates containers cfg). Meta_StackKey (cand_meta c) \<noteq> k) \<Longrightarrow>
      lease_map (Snap_Leases snap') k = lease_map (Snap_Leases snap) k"
    and "lease_map (Snap_Leases snap) k = Some v \<Longrightarrow> inPool p v \<Longrightarrow> lease_map (Snap_Leases snap') k = Some v"
    and "Snap_Version snap' = Snap_Version snap"
proof -
  let ?ws = "winners (collectCandidates containers cfg)" and ?i = "(snap, {}, \<lparr>Stacks = [], Endpoints = []\<rparr>)"
  have "snap' = touchActiveLeases (fst (buildLoop (Some (allocate p)) clk 0 ?ws ?i))
      (fst (snd (buildLoop (Some (allocate p)) clk 0 ?ws ?i))) now"
    using assms(3) by (auto simp: BuildDesired_def Let_def split: prod.splits)
  note l = this buildLoop_leases [OF assms(1) _ wf_winners [of containers cfg],
      where st = ?i and k = k and clk = clk and i = 0 and v = v]
  have sub: "set ?ws \<subseteq> set (collectCandidates containers cfg)" using winners_least(1) by blast
  show "lease_map (Snap_Leases snap') k = lease_map (Snap_Leases snap) k"
    if "\<forall>c\<in>set (collectCandidates containers cfg). Meta_StackKey (cand_meta c) \<noteq> k"
  proof -
    have "\<forall>c\<in>set ?ws. Meta_StackKey (cand_meta c) \<noteq> k" using that sub by blast
    then show ?thesis using l assms(2) by simp
  qed
  show "lease_map (Snap_Leases snap') k = Some v" if "lease_map (Snap_Leases snap) k = Some v" "inPool p v"
    using l assms(2) that by auto
  show "Snap_Version snap' = Snap_Version snap"
    using l assms(2) by auto
qed

lemma buildLoop_times:
  assumes "wf p" "lease_inv (Snap_Leases (fst st))" "\<forall>c\<in>set cs. wf_cand cfg c"
    and "list_all (lease_times P) (Snap_Leases (fst st))" "\<And>i. P (clk i)"
  shows "list_all (lease_times P) (Snap_Leases (fst (buildLoop (Some (allocate p)) clk i cs st)))"
  using assms(2-4)
proof (induction cs arbitrary: i st)
  case (Cons c cs)
  have c: "wf_cand cfg c" using Cons.prems by simp
  have "list_all (lease_times P) (Snap_Leases (fst (buildStep (Some (allocate p)) (clk i) c st)))"
    by (simp add: buildStep_snap allocate_times Cons.prems assms(5))
  with Cons.IH [OF buildStep_leases(1) [OF assms(1) Cons.prems(1) c]] Cons.prems(2) show ?case by simp
qed simp

lemma BuildDesired_times:
  assumes "wf p" "lease_inv (Snap_Leases snap)"
    and "BuildDesired containers snap (Some (allocate p)) cfg clk now = (snap', desired)"
    and "list_all (lease_times P) (Snap_Leases snap)" "\<And>i. P (clk i)" "P now"
  shows "list_all (lease_times P) (Snap_Leases snap')"
proof -
  let ?ws = "winners (collectCandidates containers cfg)" and ?i = "(snap, {}, \<lparr>Stacks = [], Endpoints = []\<rparr>) :: build_state"
  have "snap' = touchActiveLeases (fst (buildLoop (Some (allocate p)) clk 0 ?ws ?i))
      (fst (snd (buildLoop (Some (allocate p)) clk 0 ?ws ?i))) now"
    using assms(3) by (auto simp: BuildDesired_def Let_def split: prod.splits)
  moreover have "list_all (lease_times P) (Snap_Leases (fst (buildLoop (Some (allocate p)) clk 0 ?ws ?i)))"
    using assms(2,4,5) by (intro buildLoop_times [OF assms(1) _ wf_winners]) simp_all
  ultimately show ?thesis
    using assms(6) by (auto simp: touchActiveLeases_def list_all_iff lease_times_def)
qed

text \<open>A stack key that holds a lease afterwards held one before or has a container.\<close>

lemma BuildDesired_keys:
  assumes "wf p" "lease_inv (Snap_Leases snap)"
    and "BuildDesired containers snap (Some (allocate p)) cfg clk now = (snap', desired)"
  shows "Lease_StackKey ` set (Snap_Leases snap') \<subseteq>
    Lease_StackKey ` set (Snap_Leases snap) \<union> (\<lambda>c. Meta_StackKey (cand_meta c)) ` set (collectCandidates containers cfg)"
proof
  fix k
  assume k: "k \<in> Lease_StackKey ` set (Snap_Leases snap')"
  show "k \<in> Lease_StackKey ` set (Snap_Leases snap) \<union> (\<lambda>c. Meta_StackKey (cand_meta c)) ` set (collectCandidates containers cfg)"
  proof (cases "\<exists>c\<in>set (collectCandidates containers cfg). Meta_StackKey (cand_meta c) = k")
    case False
    then have "lease_map (Snap_Leases snap') k = lease_map (Snap_Leases snap) k"
      using BuildDesired_leases(1) [OF assms] by blast
    then show ?thesis using k by (auto simp flip: dom_lease_map)
  qed auto
qed

lemma BuildDesired_published:
  assumes "wf p" "lease_inv (Snap_Leases snap)"
    and "BuildDesired containers snap (Some (allocate p)) cfg clk now = (snap', desired)"
    and "card (dom (lease_map (Snap_Leases snap)) \<union> (\<lambda>c. Meta_StackKey (cand_meta c)) ` set (collectCandidates containers cfg))
           \<le> capacity p"
  shows "dom (map_of (Endpoints desired)) = cand_mapKey ` set (collectCandidates containers cfg)"
proof -
  let ?cs = "collectCandidates containers cfg" and ?i = "(snap, {}, \<lparr>Stacks = [], Endpoints = []\<rparr>) :: build_state"
  let ?K = "dom (lease_map (Snap_Leases snap)) \<union> (\<lambda>c. Meta_StackKey (cand_meta c)) ` set ?cs"
  have "published (buildLoop (Some (allocate p)) clk 0 (winners ?cs) ?i) = cand_mapKey ` set (winners ?cs) \<union> published ?i"
    using assms(2,4) winners_least(1) [of _ ?cs]
    by (intro buildLoop_published [OF assms(1) _ wf_winners, where K = ?K]) (auto simp: dom_lease_map)
  then show ?thesis
    using assms(3) by (auto simp: published_def mapKeys_winners BuildDesired_def Let_def split: prod.splits)
qed

end

section \<open>An example inventory\<close>

definition example_labels :: "string \<Rightarrow> string \<Rightarrow> (string, string) gomap" where
  "example_labels project endpoint =
     [(EnableKey, ''1''), (ComposeProjectKey, ''c''), (ComposeServiceKey, ''s''),
      (ProjectKey, project), (EndpointKey, endpoint), (PortKey, ''80'')]"

definition example_container :: "string \<Rightarrow> string \<Rightarrow> string \<Rightarrow> u16 \<Rightarrow> Container" where
  "example_container cid project endpoint hostPort =
     \<lparr>C_ID = cid, C_Name = cid, C_Labels = example_labels project endpoint,
      C_Ports = [\<lparr>PB_HostIP = ''127.0.0.1'', PB_HostPort = hostPort, PB_ContainerPort = 80, PB_Protocol = ''tcp''\<rparr>]\<rparr>"

text \<open>Three containers, two of which compete for the endpoint \<open>web.shop.test\<close>.\<close>

definition example_containers :: "Container list" where
  "example_containers =
     [example_container ''b2'' ''shop'' ''web'' 4002, example_container ''a1'' ''shop'' ''web'' 4001,
      example_container ''c3'' ''blog'' ''web'' 4003]"

definition example_cfg :: BuildConfig where
  "example_cfg = \<lparr>BC_BaseDomain = ''test'', BC_DefaultInstance = ''''\<rparr>"

definition example_build :: "Snapshot \<times> DesiredState" where
  "example_build = BuildDesired example_containers example_snap (Some (Allocate example_pool)) example_cfg (\<lambda>_. 9) 9"

definition example_stack :: "string \<Rightarrow> addr \<Rightarrow> Stack" where
  "example_stack project vip =
     \<lparr>Stack_Key = project, Stack_ProjectSlug = project, Stack_InstanceSlug = '''', Stack_ComposeProject = ''c'', Stack_VIP = vip\<rparr>"

definition example_endpoint :: "string \<Rightarrow> addr \<Rightarrow> string \<Rightarrow> u16 \<Rightarrow> Endpoint" where
  "example_endpoint project vip cid bind =
     \<lparr>Ep_StackKey = project, Ep_Name = ''web'', Ep_FQDN = ''web.'' @ project @ ''.test'', Ep_Protocol = ''tcp'', Ep_VIP = vip,
      Ep_PublicPort = 80, Ep_TargetPort = 80, Ep_TargetHost = Addr4 0x7F000001, Ep_TargetBind = bind,
      Ep_ContainerID = cid, Ep_ServiceName = ''s''\<rparr>"

lemma example_build_desired:
  "snd example_build =
     \<lparr>Stacks = [(''blog'', example_stack ''blog'' (Addr4 0x7F4D000A)), (''shop'', example_stack ''shop'' (Addr4 0x7F4D0009))],
      Endpoints = [(''web.blog.test|80|tcp'', example_endpoint ''blog'' (Addr4 0x7F4D000A) ''c3'' 4003),
                   (''web.shop.test|80|tcp'', example_endpoint ''shop'' (Addr4 0x7F4D0009) ''a1'' 4001)]\<rparr>"
  by code_simp

lemma example_build_pair:
  "BuildDesired example_containers example_snap (Some (Allocate example_pool)) example_cfg (\<lambda>_. 9) 9 =
     (fst example_build, snd example_build)"
  by (simp add: example_build_def)

section \<open>Properties\<close>

lemma desired_ok_stackD:
  assumes "desired_ok P ws snap D" "map_of (Stacks D) k = Some st"
  shows "stack_ok P (Snap_Leases snap) k st"
  using assms by (auto simp: desired_ok_def dest: build_invD(5))

lemma desired_ok_lease_inv: "desired_ok P ws snap D \<Longrightarrow> lease_inv (Snap_Leases snap)"
  by (auto simp: desired_ok_def dest: build_invD(1))

lemma desired_ok_endpointD:
  assumes "desired_ok P ws snap D" "map_of (Endpoints D) mk = Some ep"
  obtains cand st where "cand \<in> set ws" "cand_mapKey cand = mk"
    "map_of (Stacks D) (Meta_StackKey (cand_meta cand)) = Some st" "ep = mkEndpoint cand (Stack_VIP st)"
  using build_invD(6) [OF assms(1) [unfolded desired_ok_def] assms(2)] that unfolding endpoint_ok_def by blast

lemma BuildDesired_distinct_vips_facts:
  assumes "wf_pool pl" "lease_inv (Snap_Leases snap)"
    and "BuildDesired containers snap (Some (Allocate pl)) cfg clk now = (snap', desired)"
    and "map_of (Stacks desired) k = Some st"
  shows "Pool_Contains pl (Stack_VIP st)" and "lease_map (Snap_Leases snap') k = Some (Stack_VIP st)"
    and "lease_inv (Snap_Leases snap')"
    and "map_of (Stacks desired) k' = Some st' \<Longrightarrow> Stack_VIP st' = Stack_VIP st \<Longrightarrow> k' = k"
proof -
  note ok = pool_alloc.BuildDesired_ok [OF assms(1-3)]
  show inv: "lease_inv (Snap_Leases snap')" using ok by (rule desired_ok_lease_inv)
  have vip: "Pool_Contains pl (Stack_VIP s) \<and> lease_map (Snap_Leases snap') j = Some (Stack_VIP s)"
    if "map_of (Stacks desired) j = Some s" for j s
    using desired_ok_stackD [OF ok that] unfolding stack_ok_def by blast
  show "Pool_Contains pl (Stack_VIP st)" "lease_map (Snap_Leases snap') k = Some (Stack_VIP st)"
    using vip [OF assms(4)] by simp_all
  show "k' = k" if "map_of (Stacks desired) k' = Some st'" "Stack_VIP st' = Stack_VIP st"
    using vip [OF assms(4)] vip [OF that(1)] that(2) lease_inv_inj_map [OF inv] by metis
qed

text \<open>
  C4 (safety).  The stacks that \<open>BuildDesired\<close> publishes have pairwise distinct VIPs; each VIP
  is a usable address of the pool and is the one that the returned snapshot, which meets the
  lease invariant, leases to that stack.
\<close>

theorem BuildDesired_distinct_vips:
  assumes "wf_pool pl" "lease_inv (Snap_Leases snap)"
    and "BuildDesired containers snap (Some (Allocate pl)) cfg clk now = (snap', desired)"
    and "map_of (Stacks desired) k = Some st"
  shows "Pool_Contains pl (Stack_VIP st) \<and> lease_map (Snap_Leases snap') k = Some (Stack_VIP st)
    \<and> lease_inv (Snap_Leases snap')
    \<and> (\<forall>k' st'. map_of (Stacks desired) k' = Some st' \<and> Stack_VIP st' = Stack_VIP st \<longrightarrow> k' = k)"
  using BuildDesired_distinct_vips_facts [OF assms] by blast

theorem BuildDesired_distinct_vips_witness:
  "lease_map (Snap_Leases (fst example_build)) ''blog'' = Some (Addr4 0x7F4D000A)"
  using BuildDesired_distinct_vips [OF wf_example_pool example_snap_inv example_build_pair,
      of "''blog''" "example_stack ''blog'' (Addr4 0x7F4D000A)"]
  by (simp add: example_build_desired) (simp add: example_stack_def)

text \<open>
  C11 (functional).  Where containers compete for an endpoint key, the one with the smallest
  container ID is published: an endpoint of the desired state is built from a candidate of the
  inventory, carries its stack's VIP, forwards to a port that this container publishes on
  127.0.0.1, and no other candidate for the key has a smaller container ID.
\<close>

theorem BuildDesired_smallest_id:
  assumes "wf_pool pl" "lease_inv (Snap_Leases snap)"
    and "BuildDesired containers snap (Some (Allocate pl)) cfg clk now = (snap', desired)"
    and "map_of (Endpoints desired) mk = Some ep"
  shows "\<exists>c cand st. c \<in> set containers \<and> parseContainer c cfg = Some cand \<and> cand_mapKey cand = mk
    \<and> map_of (Stacks desired) (Ep_StackKey ep) = Some st \<and> ep = mkEndpoint cand (Stack_VIP st)
    \<and> Ep_ContainerID ep = C_ID c \<and> Ep_TargetHost ep = loopback4
    \<and> (\<exists>b\<in>set (C_Ports c). PB_HostIP b = ''127.0.0.1'' \<and> PB_HostPort b = Ep_TargetBind ep)
    \<and> (\<forall>c' cand'. c' \<in> set containers \<and> parseContainer c' cfg = Some cand' \<and> cand_mapKey cand' = mk
         \<longrightarrow> C_ID c \<le> C_ID c')"
proof -
  let ?cs = "collectCandidates containers cfg"
  from desired_ok_endpointD [OF pool_alloc.BuildDesired_ok [OF assms(1-3)] assms(4)]
  obtain cand st where w: "cand \<in> set (winners ?cs)" "cand_mapKey cand = mk"
    "map_of (Stacks desired) (Meta_StackKey (cand_meta cand)) = Some st" "ep = mkEndpoint cand (Stack_VIP st)" .
  have "cand \<in> set ?cs" using winners_least(1) [OF w(1)] .
  then obtain c where c: "c \<in> set containers" "parseContainer c cfg = Some cand"
    by (auto simp: set_collectCandidates)
  note wf = parseContainer_wf [OF c(2)]
  have "C_ID c \<le> C_ID c'" if c': "c' \<in> set containers" "parseContainer c' cfg = Some cand'" "cand_mapKey cand' = mk" for c' cand'
  proof -
    have "cand' \<in> set ?cs" using c' by (auto simp: set_collectCandidates)
    from winners_least(2) [OF w(1) this] w(2) c'(3) wf(2) parseContainer_wf(2) [OF c'(2)]
    show ?thesis by (simp add: cand_id_def)
  qed
  moreover have "\<exists>b\<in>set (C_Ports c). PB_HostIP b = ''127.0.0.1'' \<and> PB_HostPort b = cand_targetBind cand"
  proof -
    have "LoopbackBinding (C_Ports c) (Meta_TargetPort (cand_meta cand)) ProtocolTCP = (cand_targetBind cand, True)"
      using wf(1,2) by (simp add: wf_cand_def Let_def)
    from LoopbackBinding_ok [OF this] show ?thesis by (auto simp: loopback_match_def)
  qed
  ultimately show ?thesis
    using c w wf(2) by (intro exI [of _ c] exI [of _ cand] exI [of _ st]) (auto simp: mkEndpoint_def)
qed

theorem BuildDesired_smallest_id_witness:
  "\<exists>c. c \<in> set example_containers \<and> C_ID c = ''a1'' \<and> (\<exists>b\<in>set (C_Ports c). PB_HostIP b = ''127.0.0.1'' \<and> PB_HostPort b = 4001)"
proof -
  have e: "map_of (Endpoints (snd example_build)) ''web.shop.test|80|tcp''
      = Some (example_endpoint ''shop'' (Addr4 0x7F4D0009) ''a1'' 4001)"
    by (simp add: example_build_desired)
  from BuildDesired_smallest_id [OF wf_example_pool example_snap_inv example_build_pair e]
  show ?thesis by (auto simp: example_endpoint_def)
qed

text \<open>
  C10 (equivalence).  The desired state and the leases do not depend on the order in which
  Docker lists the containers: permuting an inventory whose container IDs are distinct changes
  nothing, whatever the allocator.
\<close>

theorem BuildDesired_order_independent:
  assumes "mset containers = mset containers'" "distinct (map C_ID containers)"
  shows "BuildDesired containers snap alloc cfg clk now = BuildDesired containers' snap alloc cfg clk now"
proof -
  let ?cs = "collectCandidates containers cfg" and ?cs' = "collectCandidates containers' cfg"
  have "set containers = set containers'" using assms(1) by (rule mset_eq_setD)
  then have "set ?cs = set ?cs'" by (simp add: set_collectCandidates)
  moreover have "inj_on cand_id (set ?cs)" using assms(2) by (rule inj_cand_id)
  ultimately show ?thesis by (simp add: BuildDesired_def winners_perm [of ?cs ?cs'])
qed

theorem BuildDesired_order_independent_witness:
  "BuildDesired (rev example_containers) example_snap (Some (Allocate example_pool)) example_cfg (\<lambda>_. 9) 9 = example_build"
  using BuildDesired_order_independent [of "rev example_containers" example_containers]
  by (simp add: example_build_def) (simp add: example_containers_def example_container_def)




text \<open>
  C13 (liveness).  If the pool has an address for every stack that holds a lease or has a valid
  container, every endpoint key of the inventory is published.
\<close>

theorem BuildDesired_publishes_all:
  assumes "wf_pool pl" "lease_inv (Snap_Leases snap)"
    and "BuildDesired containers snap (Some (Allocate pl)) cfg clk now = (snap', desired)"
    and "card (dom (lease_map (Snap_Leases snap)) \<union> (\<lambda>c. Meta_StackKey (cand_meta c)) ` set (collectCandidates containers cfg))
           \<le> length (UsableSorted pl)"
  shows "dom (map_of (Endpoints desired)) = cand_mapKey ` set (collectCandidates containers cfg)"
  using assms by (rule pool_alloc.BuildDesired_published)

theorem BuildDesired_publishes_all_witness:
  "dom (map_of (Endpoints (snd example_build))) = {''web.shop.test|80|tcp'', ''web.blog.test|80|tcp''}"
proof -
  have c: "map (\<lambda>c. Meta_StackKey (cand_meta c)) (collectCandidates example_containers example_cfg) = [''shop'', ''shop'', ''blog'']"
    "map cand_mapKey (collectCandidates example_containers example_cfg)
      = [''web.shop.test|80|tcp'', ''web.shop.test|80|tcp'', ''web.blog.test|80|tcp'']"
    by code_simp+
  have "dom (lease_map (Snap_Leases example_snap)) = {''shop'', ''blog/dev''}"
    by (auto simp: dom_lease_map example_snap_def)
  moreover have "(\<lambda>c. Meta_StackKey (cand_meta c)) ` set (collectCandidates example_containers example_cfg) = {''shop'', ''blog''}"
    using arg_cong [OF c(1), of set] by simp
  moreover have "cand_mapKey ` set (collectCandidates example_containers example_cfg) = {''web.shop.test|80|tcp'', ''web.blog.test|80|tcp''}"
    using arg_cong [OF c(2), of set] by simp
  ultimately show ?thesis
    using BuildDesired_publishes_all [OF wf_example_pool example_snap_inv example_build_pair]
    by (simp add: example_usable card_insert_if)
qed

end
