(* ===== verification/Dns.thy ===== *)
theory Dns
  imports Netip
begin

text \<open>
  Package \<open>internal/dns\<close>: the authoritative server for the base domain.  The state of a
  \<open>Server\<close> is a record; the atomic pointer to the record set and the atomic serial number are
  fields of it.  The library \<open>miekg/dns\<close> is the argument \<open>md\<close>: its functions \<open>CanonicalName\<close>,
  \<open>Fqdn\<close> and \<open>SetReply\<close>, of which \<open>mdns_ok\<close> states the documented behaviour.  The results of the
  socket calls in \<open>Start\<close> and of the wait in \<open>Shutdown\<close> are arguments.
\<close>

section \<open>Messages\<close>

record Record =
  Rec_Name :: string
  Rec_Type :: string
  Rec_VIP :: addr
  Rec_TTL :: u32

type_synonym recordSet = "(string, Record) gomap"

text \<open>Resource records, all of class \<open>INET\<close>: owner name and TTL first.\<close>

datatype RR =
    RR_A string u32 addr
  | RR_NS string u32 string
  | RR_SOA string u32 string string u32 u32 u32 u32 u32

record Question =
  Q_Name :: string
  Q_Qtype :: u16

record Msg =
  M_Id :: u16
  M_Rcode :: nat
  M_Authoritative :: bool
  M_RecursionAvailable :: bool
  M_Question :: "Question list"
  M_Answer :: "RR list"
  M_Ns :: "RR list"

definition TypeA :: u16 where "TypeA = 1"
definition TypeNS :: u16 where "TypeNS = 2"
definition TypeSOA :: u16 where "TypeSOA = 6"
definition TypePTR :: u16 where "TypePTR = 12"
definition TypeAAAA :: u16 where "TypeAAAA = 28"
definition RcodeSuccess :: nat where "RcodeSuccess = 0"
definition RcodeFormatError :: nat where "RcodeFormatError = 1"
definition RcodeNameError :: nat where "RcodeNameError = 3"
definition RcodeRefused :: nat where "RcodeRefused = 5"

lemmas dns_consts =
  TypeA_def TypeNS_def TypeSOA_def TypePTR_def TypeAAAA_def
  RcodeSuccess_def RcodeFormatError_def RcodeNameError_def RcodeRefused_def

section \<open>The library\<close>

record mdns =
  CanonicalName :: "string \<Rightarrow> string"
  Fqdn :: "string \<Rightarrow> string"
  SetReply :: "Msg \<Rightarrow> Msg"

text \<open>
  \<open>Fqdn\<close> appends the final dot where it is missing (names with escapes are not described) and
  is the identity on names that are fully qualified;
  \<open>CanonicalName\<close> is the lower-case form of \<open>Fqdn\<close>; \<open>SetReply\<close> makes an empty successful reply.
\<close>

definition mdns_ok :: "mdns \<Rightarrow> bool" where
  "mdns_ok md \<longleftrightarrow>
     (\<forall>s. CHR 0x5C \<notin> set s \<longrightarrow> Fqdn md s = (if HasSuffix s ''.'' then s else s @ ''.''))
     \<and> (\<forall>s. Fqdn md (Fqdn md s) = Fqdn md s)
     \<and> (\<forall>s. CanonicalName md s = ToLower (Fqdn md s))
     \<and> (\<forall>r. M_Rcode (SetReply md r) = RcodeSuccess \<and> M_Answer (SetReply md r) = [] \<and> M_Ns (SetReply md r) = [])"

section \<open>The server\<close>

text \<open>A socket is \<open>nil\<close> (\<^const>\<open>None\<close>), open or closed.\<close>

record Server =
  Srv_baseDomain :: string
  Srv_baseLabel :: string
  Srv_pc :: "bool option"
  Srv_tl :: "bool option"
  Srv_addr :: string
  Srv_listen :: string
  Srv_records :: recordSet
  Srv_serial :: u32
  Srv_started :: bool
  Srv_shutdown :: bool

datatype dns_error =
    DnsListenRequired
  | DnsBaseRequired
  | DnsShutDown
  | DnsListenUDP
  | DnsListenTCP
  | DnsServe
  | DnsCtxErr
  | DnsServerErr
  | DnsUnsupportedType string
  | DnsRequiresIPv4 string
  | DnsNotLoopback string
  | DnsOutsideBase string

definition NewServer :: "mdns \<Rightarrow> string \<Rightarrow> string \<Rightarrow> dns_error + Server" where
  "NewServer md listenAddr baseDomain =
     (if listenAddr = '''' then Inl DnsListenRequired
      else
        let base = TrimSpace baseDomain in
        if base = '''' then Inl DnsBaseRequired
        else
          let baseFQDN = CanonicalName md (Fqdn md base) in
          Inr \<lparr>Srv_baseDomain = baseFQDN, Srv_baseLabel = TrimSuffix baseFQDN ''.'',
               Srv_pc = None, Srv_tl = None, Srv_addr = '''', Srv_listen = listenAddr,
               Srv_records = [], Srv_serial = 1, Srv_started = False, Srv_shutdown = False\<rparr>)"

text \<open>
  \<open>Start\<close> with the results of \<open>ListenPacket\<close> (the local address or failure), of \<open>Listen\<close> and of
  the peek at the channel of serve errors.
\<close>

definition Start :: "string option \<Rightarrow> bool \<Rightarrow> bool \<Rightarrow> Server \<Rightarrow> Server \<times> dns_error option" where
  "Start udpRes tcpOk serveOk s =
     (if Srv_shutdown s then (s, Some DnsShutDown)
      else if Srv_started s then (s, None)
      else case udpRes of
        None \<Rightarrow> (s, Some DnsListenUDP)
      | Some a \<Rightarrow>
          let s1 = s\<lparr>Srv_pc := Some True, Srv_addr := a\<rparr> in
          if \<not> tcpOk then (s1\<lparr>Srv_pc := None\<rparr>, Some DnsListenTCP)
          else
            let s2 = s1\<lparr>Srv_tl := Some True\<rparr> in
            if \<not> serveOk then (s2\<lparr>Srv_pc := Some False, Srv_tl := Some False\<rparr>, Some DnsServe)
            else (s2\<lparr>Srv_started := True\<rparr>, None))"

definition ListenAddr :: "Server \<Rightarrow> string" where
  "ListenAddr s = Srv_addr s"

definition inZone :: "Server \<Rightarrow> string \<Rightarrow> bool" where
  "inZone s name \<longleftrightarrow> name = Srv_baseDomain s \<or> HasSuffix name (''.'' @ Srv_baseDomain s)"

fun checkRecords :: "mdns \<Rightarrow> Server \<Rightarrow> Record list \<Rightarrow> recordSet \<Rightarrow> dns_error + recordSet" where
  "checkRecords md s [] nxt = Inr nxt"
| "checkRecords md s (r # rs) nxt =
     (if Rec_Type r \<noteq> '''' \<and> \<not> EqualFold (Rec_Type r) ''A'' then Inl (DnsUnsupportedType (Rec_Type r))
      else if \<not> IsValid (Rec_VIP r) \<or> \<not> Is4 (Rec_VIP r) then Inl (DnsRequiresIPv4 (Rec_Name r))
      else if \<not> IsLoopback (Rec_VIP r) then Inl (DnsNotLoopback (Rec_Name r))
      else
        let key = CanonicalName md (Fqdn md (Rec_Name r)) in
        if \<not> inZone s key then Inl (DnsOutsideBase (Rec_Name r))
        else
          let cp = r\<lparr>Rec_Name := key, Rec_TTL := (if Rec_TTL r = 0 then 5 else Rec_TTL r)\<rparr>
          in checkRecords md s rs (AList.update key cp nxt))"

definition SetRecords :: "mdns \<Rightarrow> Server \<Rightarrow> Record list \<Rightarrow> Server \<times> dns_error option" where
  "SetRecords md s recs =
     (case checkRecords md s recs [] of
        Inl e \<Rightarrow> (s, Some e)
      | Inr nxt \<Rightarrow> (s\<lparr>Srv_records := nxt, Srv_serial := Srv_serial s + 1\<rparr>, None))"

text \<open>
  \<open>Shutdown\<close> with what its \<open>select\<close> sees first: the context done (\<^const>\<open>None\<close>), or the servers
  stopped, with whether one of them reported an error.
\<close>

definition Shutdown :: "bool option \<Rightarrow> Server \<Rightarrow> Server \<times> dns_error option" where
  "Shutdown outcome s =
     (if Srv_shutdown s then (s, None)
      else
        let s1 = s\<lparr>Srv_shutdown := True\<rparr> in
        if \<not> Srv_started s1 then (s1, None)
        else case outcome of
          None \<Rightarrow> (s1\<lparr>Srv_pc := map_option (\<lambda>_. False) (Srv_pc s1),
                      Srv_tl := map_option (\<lambda>_. False) (Srv_tl s1)\<rparr>, Some DnsCtxErr)
        | Some failed \<Rightarrow> (s1, if failed then Some DnsServerErr else None))"

section \<open>Queries\<close>

definition nsName :: "mdns \<Rightarrow> Server \<Rightarrow> string" where
  "nsName md s = CanonicalName md (''ns.'' @ Srv_baseDomain s)"

definition nameExists :: "mdns \<Rightarrow> Server \<Rightarrow> string \<Rightarrow> recordSet \<Rightarrow> bool" where
  "nameExists md s canon recs \<longleftrightarrow>
     map_of recs canon \<noteq> None \<or> canon = Srv_baseDomain s \<or> canon = nsName md s"

text \<open>\<open>net.ParseIP\<close> refuses zones; \<open>To4\<close> unmaps an IPv4-mapped address.\<close>

definition nsIP :: "Server \<Rightarrow> addr" where
  "nsIP s =
     (case SplitHostPort (ListenAddr s) of
        None \<Rightarrow> loopback4
      | Some (host, _) \<Rightarrow>
          (case ParseAddr host of
             Some (Addr4 ip) \<Rightarrow> if IsLoopback (Addr4 ip) then Addr4 ip else loopback4
           | Some (Addr6 w z) \<Rightarrow>
               if z = '''' \<and> is4in6 w \<and> IsLoopback (Addr4 (ucast w)) then Addr4 (ucast w) else loopback4
           | _ \<Rightarrow> loopback4))"

definition soaRR :: "Server \<Rightarrow> string \<Rightarrow> RR" where
  "soaRR s owner =
     RR_SOA owner 5 (''ns.'' @ Srv_baseDomain s) (''hostmaster.'' @ Srv_baseDomain s)
       (Srv_serial s) 3600 600 86400 5"

definition addSOAAuthority :: "Server \<Rightarrow> Msg \<Rightarrow> Msg" where
  "addSOAAuthority s m = m\<lparr>M_Ns := M_Ns m @ [soaRR s (Srv_baseDomain s)]\<rparr>"

definition nxdomain :: "Server \<Rightarrow> Msg \<Rightarrow> Msg" where
  "nxdomain s m = addSOAAuthority s (m\<lparr>M_Rcode := RcodeNameError\<rparr>)"

definition handleA :: "mdns \<Rightarrow> Server \<Rightarrow> Msg \<Rightarrow> Question \<Rightarrow> string \<Rightarrow> recordSet \<Rightarrow> Msg" where
  "handleA md s m q canon recs =
     (case map_of recs canon of
        Some r \<Rightarrow> m\<lparr>M_Rcode := RcodeSuccess, M_Answer := M_Answer m @ [RR_A (Q_Name q) (Rec_TTL r) (Rec_VIP r)]\<rparr>
      | None \<Rightarrow>
          if canon = nsName md s
          then m\<lparr>M_Rcode := RcodeSuccess, M_Answer := M_Answer m @ [RR_A (Q_Name q) 5 (nsIP s)]\<rparr>
          else nxdomain s m)"

text \<open>The three handlers that answer an existing name with an empty answer.\<close>

definition emptyOrNX :: "mdns \<Rightarrow> Server \<Rightarrow> Msg \<Rightarrow> string \<Rightarrow> recordSet \<Rightarrow> Msg" where
  "emptyOrNX md s m canon recs =
     (if nameExists md s canon recs then m\<lparr>M_Rcode := RcodeSuccess\<rparr> else nxdomain s m)"

definition handleAAAA :: "mdns \<Rightarrow> Server \<Rightarrow> Msg \<Rightarrow> string \<Rightarrow> recordSet \<Rightarrow> Msg" where
  "handleAAAA md s m canon recs = emptyOrNX md s m canon recs"

definition handleSOA :: "mdns \<Rightarrow> Server \<Rightarrow> Msg \<Rightarrow> Question \<Rightarrow> string \<Rightarrow> Msg" where
  "handleSOA md s m q canon =
     (if canon \<noteq> Srv_baseDomain s then emptyOrNX md s m canon (Srv_records s)
      else m\<lparr>M_Rcode := RcodeSuccess, M_Answer := M_Answer m @ [soaRR s (Q_Name q)]\<rparr>)"

definition handleNS :: "mdns \<Rightarrow> Server \<Rightarrow> Msg \<Rightarrow> Question \<Rightarrow> string \<Rightarrow> Msg" where
  "handleNS md s m q canon =
     (if canon \<noteq> Srv_baseDomain s then emptyOrNX md s m canon (Srv_records s)
      else m\<lparr>M_Rcode := RcodeSuccess, M_Answer := M_Answer m @ [RR_NS (Q_Name q) 5 (''ns.'' @ Srv_baseDomain s)]\<rparr>)"

definition serveDNS :: "mdns \<Rightarrow> Server \<Rightarrow> Msg \<Rightarrow> Msg" where
  "serveDNS md s r =
     (let m = (SetReply md r)\<lparr>M_Authoritative := False, M_RecursionAvailable := False\<rparr> in
      case M_Question r of
        [] \<Rightarrow> m\<lparr>M_Rcode := RcodeFormatError\<rparr>
      | q # _ \<Rightarrow>
          let canon = CanonicalName md (Q_Name q) in
          if Q_Qtype q = TypePTR then m\<lparr>M_Rcode := RcodeRefused, M_Authoritative := False\<rparr>
          else if \<not> inZone s canon then m\<lparr>M_Rcode := RcodeRefused\<rparr>
          else
            let m = m\<lparr>M_Authoritative := True\<rparr>; recs = Srv_records s in
            if Q_Qtype q = TypeA then handleA md s m q canon recs
            else if Q_Qtype q = TypeAAAA then handleAAAA md s m canon recs
            else if Q_Qtype q = TypeSOA then handleSOA md s m q canon
            else if Q_Qtype q = TypeNS then handleNS md s m q canon
            else emptyOrNX md s m canon recs)"

section \<open>Record sets\<close>

abbreviation canon_key :: "mdns \<Rightarrow> string \<Rightarrow> string" where
  "canon_key md n \<equiv> CanonicalName md (Fqdn md n)"

lemma canon_key_eq: "mdns_ok md \<Longrightarrow> canon_key md n = CanonicalName md n"
  by (simp add: mdns_ok_def)

definition rec_ok :: "mdns \<Rightarrow> Server \<Rightarrow> Record \<Rightarrow> bool" where
  "rec_ok md s r \<longleftrightarrow> (Rec_Type r = '''' \<or> EqualFold (Rec_Type r) ''A'') \<and> Is4 (Rec_VIP r)
     \<and> IsLoopback (Rec_VIP r) \<and> inZone s (canon_key md (Rec_Name r))"

definition norm_rec :: "mdns \<Rightarrow> Record \<Rightarrow> Record" where
  "norm_rec md r = r\<lparr>Rec_Name := canon_key md (Rec_Name r), Rec_TTL := (if Rec_TTL r = 0 then 5 else Rec_TTL r)\<rparr>"

definition put_rec :: "mdns \<Rightarrow> recordSet \<Rightarrow> Record \<Rightarrow> recordSet" where
  "put_rec md m r = AList.update (canon_key md (Rec_Name r)) (norm_rec md r) m"

lemma checkRecords_eq:
  assumes "checkRecords md s rs nxt = res"
  shows "(\<forall>r\<in>set rs. rec_ok md s r) \<Longrightarrow> res = Inr (foldl (put_rec md) nxt rs)"
    and "\<not> (\<forall>r\<in>set rs. rec_ok md s r) \<Longrightarrow> \<exists>e. res = Inl e"
  unfolding assms [symmetric]
  by (induction rs arbitrary: nxt)
    (auto simp: rec_ok_def put_rec_def norm_rec_def Let_def Is4_valid split: if_splits)

lemma map_of_put_recs:
  "map_of (foldl (put_rec md) nxt rs) k =
     (case List.find (\<lambda>r. canon_key md (Rec_Name r) = k) (rev rs) of
        Some r \<Rightarrow> Some (norm_rec md r) | None \<Rightarrow> map_of nxt k)"
  by (induction rs arbitrary: nxt rule: rev_induct) (auto simp: put_rec_def)

lemma distinct_put_recs: "distinct (gokeys nxt) \<Longrightarrow> distinct (gokeys (foldl (put_rec md) nxt rs))"
  by (induction rs arbitrary: nxt) (auto simp: put_rec_def)

text \<open>\<open>SetRecords\<close> in one equation: all or nothing.\<close>

lemma SetRecords_ok:
  assumes "\<forall>r\<in>set recs. rec_ok md s r"
  shows "SetRecords md s recs = (s\<lparr>Srv_records := foldl (put_rec md) [] recs, Srv_serial := Srv_serial s + 1\<rparr>, None)"
  using checkRecords_eq(1) [OF refl assms, of "[]"] by (simp add: SetRecords_def)

lemma SetRecords_fail:
  assumes "\<not> (\<forall>r\<in>set recs. rec_ok md s r)"
  shows "\<exists>e. SetRecords md s recs = (s, Some e)"
  using checkRecords_eq(2) [OF refl assms, of "[]"] by (auto simp: SetRecords_def)

lemma SetRecords_None_iff: "snd (SetRecords md s recs) = None \<longleftrightarrow> (\<forall>r\<in>set recs. rec_ok md s r)"
  using SetRecords_ok [of recs md s] SetRecords_fail [of recs md s] by (cases "\<forall>r\<in>set recs. rec_ok md s r") auto

section \<open>The invariant\<close>

definition srv_inv :: "Server \<Rightarrow> bool" where
  "srv_inv s \<longleftrightarrow> distinct (gokeys (Srv_records s))
     \<and> (\<forall>k r. map_of (Srv_records s) k = Some r \<longrightarrow>
          Rec_Name r = k \<and> Is4 (Rec_VIP r) \<and> IsLoopback (Rec_VIP r) \<and> Rec_TTL r \<noteq> 0 \<and> inZone s k)"

lemma inZone_cong: "Srv_baseDomain s = Srv_baseDomain s' \<Longrightarrow> inZone s n = inZone s' n"
  by (simp add: inZone_def)

lemma srv_inv_cong:
  assumes "Srv_records s = Srv_records s'" "Srv_baseDomain s = Srv_baseDomain s'"
  shows "srv_inv s \<longleftrightarrow> srv_inv s'"
  using assms inZone_cong [OF assms(2)] by (simp add: srv_inv_def)

lemma NewServer_inv [inv_intros]: "NewServer md l b = Inr s \<Longrightarrow> srv_inv s"
  by (auto simp: NewServer_def srv_inv_def Let_def split: if_splits)

lemma Start_inv [inv_intros]: "srv_inv s \<Longrightarrow> srv_inv (fst (Start u t v s))"
  by (erule srv_inv_cong [THEN iffD1, rotated -1]) (auto simp: Start_def Let_def split: option.splits)

lemma Shutdown_inv [inv_intros]: "srv_inv s \<Longrightarrow> srv_inv (fst (Shutdown o' s))"
  by (erule srv_inv_cong [THEN iffD1, rotated -1]) (auto simp: Shutdown_def Let_def split: option.splits)

lemma SetRecords_inv [inv_intros]:
  assumes "srv_inv s"
  shows "srv_inv (fst (SetRecords md s recs))"
proof (cases "\<forall>r\<in>set recs. rec_ok md s r")
  case True
  have "Rec_Name r = k \<and> Is4 (Rec_VIP r) \<and> IsLoopback (Rec_VIP r) \<and> Rec_TTL r \<noteq> 0 \<and> inZone s k"
    if "map_of (foldl (put_rec md) [] recs) k = Some r" for k r
  proof -
    from that obtain r' where "List.find (\<lambda>r. canon_key md (Rec_Name r) = k) (rev recs) = Some r'" "r = norm_rec md r'"
      by (auto simp: map_of_put_recs split: option.splits)
    moreover from this have "r' \<in> set recs" "canon_key md (Rec_Name r') = k"
      using find_Some_in [of _ "rev recs"] by fastforce+
    ultimately show ?thesis using True by (auto simp: rec_ok_def norm_rec_def)
  qed
  then show ?thesis
    using distinct_put_recs [of "[]" md recs] by (simp add: SetRecords_ok [OF True] srv_inv_def inZone_def)
next
  case False
  then show ?thesis using SetRecords_fail [OF False] assms by auto
qed

lemma nsIP_loopback: "IsLoopback (nsIP s)" "Is4 (nsIP s)"
  by (auto simp: nsIP_def loopback4_def byte_at_def split: option.splits addr.splits)

text \<open>The address that the server gives for a name among its dynamic records.\<close>

definition lookupA :: "mdns \<Rightarrow> Server \<Rightarrow> string \<Rightarrow> addr option" where
  "lookupA md s n = map_option Rec_VIP (map_of (Srv_records s) (CanonicalName md n))"

section \<open>The interface\<close>

text \<open>
  The \<open>Controller\<close> as the reconciler sees it: a set of records is taken as a whole or not at
  all, and afterwards exactly its names resolve, the last record of a name counting.
\<close>

locale dns_controller =
  fixes wf :: "'s \<Rightarrow> bool"
    and setRecords :: "'s \<Rightarrow> Record list \<Rightarrow> 's \<times> dns_error option"
    and lookup :: "'s \<Rightarrow> string \<Rightarrow> addr option"
    and accepts :: "'s \<Rightarrow> Record \<Rightarrow> bool"
    and canon :: "'s \<Rightarrow> string \<Rightarrow> string"
  assumes set_wf: "wf s \<Longrightarrow> wf (fst (setRecords s rs))"
    and set_error: "snd (setRecords s rs) = Some e \<Longrightarrow> fst (setRecords s rs) = s"
    and set_ok_iff: "wf s \<Longrightarrow> snd (setRecords s rs) = None \<longleftrightarrow> (\<forall>r\<in>set rs. accepts s r)"
    and set_lookup: "wf s \<Longrightarrow> snd (setRecords s rs) = None \<Longrightarrow>
      lookup (fst (setRecords s rs)) n =
        map_option Rec_VIP (List.find (\<lambda>r. canon s (Rec_Name r) = canon s n) (rev rs))"
    and set_accepts: "wf s \<Longrightarrow> accepts (fst (setRecords s rs)) r = accepts s r"
    and set_canon: "wf s \<Longrightarrow> canon (fst (setRecords s rs)) n = canon s n"
    and lookup_loopback: "wf s \<Longrightarrow> lookup s n = Some v \<Longrightarrow> IsLoopback v \<and> Is4 v"
begin

lemma lookup_published:
  assumes "wf s" "\<forall>r\<in>set rs. accepts s r" "r \<in> set rs"
    and "distinct (map (\<lambda>r. canon s (Rec_Name r)) rs)"
  shows "lookup (fst (setRecords s rs)) (Rec_Name r) = Some (Rec_VIP r)"
proof -
  have ok: "snd (setRecords s rs) = None" using assms set_ok_iff by blast
  have "List.find (\<lambda>q. canon s (Rec_Name q) = canon s (Rec_Name r)) (rev rs) = Some r"
    using assms(3) distinct_map_inj [OF assms(4)] by (intro find_unique) auto
  with set_lookup [OF assms(1) ok] show ?thesis by simp
qed

lemma lookup_unpublished:
  assumes "wf s" "\<forall>r\<in>set rs. accepts s r" "canon s n \<notin> (\<lambda>r. canon s (Rec_Name r)) ` set rs"
  shows "lookup (fst (setRecords s rs)) n = None"
proof -
  have "List.find (\<lambda>r. canon s (Rec_Name r) = canon s n) (rev rs) = None"
    using assms(3) unfolding find_None_iff by (metis image_eqI set_rev)
  moreover have "snd (setRecords s rs) = None" using assms set_ok_iff by blast
  ultimately show ?thesis using set_lookup [OF assms(1)] by simp
qed

end

definition ctl_wf :: "mdns \<times> Server \<Rightarrow> bool" where
  "ctl_wf c \<longleftrightarrow> mdns_ok (fst c) \<and> srv_inv (snd c)"

definition ctl_SetRecords :: "mdns \<times> Server \<Rightarrow> Record list \<Rightarrow> (mdns \<times> Server) \<times> dns_error option" where
  "ctl_SetRecords c rs = (case SetRecords (fst c) (snd c) rs of (s', e) \<Rightarrow> ((fst c, s'), e))"

lemma rec_ok_cong: "Srv_baseDomain s = Srv_baseDomain s' \<Longrightarrow> rec_ok md s r = rec_ok md s' r"
  by (simp add: rec_ok_def inZone_def)

lemma SetRecords_base [simp]: "Srv_baseDomain (fst (SetRecords md s rs)) = Srv_baseDomain s"
  by (simp add: SetRecords_def split: sum.splits)

lemma lookupA_SetRecords:
  assumes "mdns_ok md" "\<forall>r\<in>set rs. rec_ok md s r"
  shows "lookupA md (fst (SetRecords md s rs)) n =
    map_option Rec_VIP (List.find (\<lambda>r. CanonicalName md (Rec_Name r) = CanonicalName md n) (rev rs))"
  by (simp add: SetRecords_ok [OF assms(2)] lookupA_def map_of_put_recs canon_key_eq [OF assms(1)] norm_rec_def split: option.splits)

interpretation dns_server: dns_controller ctl_wf ctl_SetRecords "\<lambda>c. lookupA (fst c) (snd c)"
  "\<lambda>c. rec_ok (fst c) (snd c)" "\<lambda>c. CanonicalName (fst c)"
proof
  fix c :: "mdns \<times> Server" and rs r n v and e :: dns_error
  obtain md s where c: "c = (md, s)" by (cases c)
  show "fst (ctl_SetRecords c rs) = c" if "snd (ctl_SetRecords c rs) = Some e"
    using that by (auto simp: c ctl_SetRecords_def SetRecords_def split: sum.splits)
  assume wf: "ctl_wf c"
  show "ctl_wf (fst (ctl_SetRecords c rs))"
    using wf by (simp add: c ctl_wf_def ctl_SetRecords_def SetRecords_inv split: prod.splits) (metis SetRecords_inv fst_conv)
  show ok: "snd (ctl_SetRecords c rs) = None \<longleftrightarrow> (\<forall>r\<in>set rs. rec_ok (fst c) (snd c) r)"
    by (simp add: c ctl_SetRecords_def case_prod_unfold SetRecords_None_iff)
  show "lookupA (fst (fst (ctl_SetRecords c rs))) (snd (fst (ctl_SetRecords c rs))) n =
      map_option Rec_VIP (List.find (\<lambda>r. CanonicalName (fst c) (Rec_Name r) = CanonicalName (fst c) n) (rev rs))"
    if "snd (ctl_SetRecords c rs) = None"
    using that wf unfolding ok by (simp add: c ctl_wf_def ctl_SetRecords_def case_prod_unfold lookupA_SetRecords)
  show "rec_ok (fst (fst (ctl_SetRecords c rs))) (snd (fst (ctl_SetRecords c rs))) r = rec_ok (fst c) (snd c) r"
    by (simp add: c ctl_SetRecords_def case_prod_unfold rec_ok_def inZone_def)
  show "CanonicalName (fst (fst (ctl_SetRecords c rs))) n = CanonicalName (fst c) n"
    by (simp add: ctl_SetRecords_def case_prod_unfold)
  show "IsLoopback v \<and> Is4 v" if "lookupA (fst c) (snd c) n = Some v"
    using that wf by (auto simp: c ctl_wf_def lookupA_def srv_inv_def)
qed

section \<open>Answers\<close>

lemmas reply_simps = serveDNS_def handleA_def handleAAAA_def handleSOA_def handleNS_def emptyOrNX_def
  nxdomain_def addSOAAuthority_def

lemma serveDNS_A:
  assumes "mdns_ok md" "M_Question r = q # qs" "Q_Qtype q = TypeA" "inZone s (CanonicalName md (Q_Name q))"
  shows "lookupA md s (Q_Name q) = Some v \<Longrightarrow>
      M_Rcode (serveDNS md s r) = RcodeSuccess \<and> (\<exists>ttl. M_Answer (serveDNS md s r) = [RR_A (Q_Name q) ttl v])"
    and "lookupA md s (Q_Name q) = None \<Longrightarrow> CanonicalName md (Q_Name q) \<noteq> nsName md s \<Longrightarrow>
      M_Rcode (serveDNS md s r) = RcodeNameError \<and> M_Answer (serveDNS md s r) = []
      \<and> M_Ns (serveDNS md s r) = [soaRR s (Srv_baseDomain s)]"
  using assms by (auto simp: reply_simps lookupA_def Let_def mdns_ok_def dns_consts)

lemma serveDNS_answer_loopback:
  assumes "mdns_ok md" "srv_inv s" "RR_A n ttl v \<in> set (M_Answer (serveDNS md s r))"
  shows "IsLoopback v \<and> Is4 v"
  using assms nsIP_loopback [of s]
  by (auto simp: reply_simps mdns_ok_def Let_def srv_inv_def soaRR_def split: list.splits option.splits if_splits)

definition plain_fqdn :: "string \<Rightarrow> string" where
  "plain_fqdn n = (if HasSuffix n ''.'' then n else n @ ''.'')"

definition plain_mdns :: mdns where
  "plain_mdns =
     \<lparr>CanonicalName = (\<lambda>n. ToLower (plain_fqdn n)), Fqdn = plain_fqdn,
      SetReply = (\<lambda>r. r\<lparr>M_Rcode := RcodeSuccess, M_Answer := [], M_Ns := []\<rparr>)\<rparr>"

lemma plain_mdns_ok: "mdns_ok plain_mdns"
  by (simp add: mdns_ok_def plain_mdns_def plain_fqdn_def)

section \<open>The life of a server\<close>

text \<open>
  The states a server can be in: created, then any sequence of starts, record updates and
  shutdowns.
\<close>

inductive srv_reach :: "mdns \<Rightarrow> Server \<Rightarrow> bool" for md where
  new: "NewServer md listenAddr baseDomain = Inr s \<Longrightarrow> srv_reach md s"
| start: "srv_reach md s \<Longrightarrow> Start udpRes tcpOk serveOk s = (s', e) \<Longrightarrow> srv_reach md s'"
| set_records: "srv_reach md s \<Longrightarrow> SetRecords md s recs = (s', e) \<Longrightarrow> srv_reach md s'"
| shut: "srv_reach md s \<Longrightarrow> Shutdown outcome s = (s', e) \<Longrightarrow> srv_reach md s'"

lemma srv_reach_inv: "srv_reach md s \<Longrightarrow> srv_inv s"
proof (induction rule: srv_reach.induct)
  case (start s udpRes tcpOk serveOk s' e)
  then show ?case using Start_inv [of s udpRes tcpOk serveOk] by simp
next
  case (set_records s recs s' e)
  then show ?case using SetRecords_inv [of s md recs] by simp
next
  case (shut s outcome s' e)
  then show ?case using Shutdown_inv [of s outcome] by simp
qed (rule NewServer_inv)

text \<open>A server is shut down for good: no later call starts it.\<close>

lemma Shutdown_final: "Srv_shutdown (fst (Shutdown outcome s))"
  "Srv_shutdown s \<Longrightarrow> Start u t v s = (s, Some DnsShutDown)"
  by (auto simp: Shutdown_def Start_def Let_def split: option.splits)

section \<open>An example server\<close>

definition example_server :: Server where
  "example_server =
     \<lparr>Srv_baseDomain = ''test.'', Srv_baseLabel = ''test'', Srv_pc = None, Srv_tl = None, Srv_addr = '''',
      Srv_listen = ''127.0.0.1:0'', Srv_records = [], Srv_serial = 1, Srv_started = False, Srv_shutdown = False\<rparr>"

definition example_records :: "Record list" where
  "example_records =
     [\<lparr>Rec_Name = ''shop.test'', Rec_Type = ''A'', Rec_VIP = Addr4 0x7F4D0009, Rec_TTL = 0\<rparr>,
      \<lparr>Rec_Name = ''web.shop.test'', Rec_Type = ''A'', Rec_VIP = Addr4 0x7F4D0009, Rec_TTL = 30\<rparr>]"

lemma NewServer_example: "NewServer plain_mdns ''127.0.0.1:0'' ''Test'' = Inr example_server"
  by code_simp

lemma example_server_reach: "srv_reach plain_mdns (fst (SetRecords plain_mdns example_server example_records))"
  using srv_reach.set_records [OF srv_reach.new [OF NewServer_example] prod.collapse [symmetric]] .

definition example_query :: "string \<Rightarrow> u16 \<Rightarrow> Msg" where
  "example_query n t =
     \<lparr>M_Id = 7, M_Rcode = 0, M_Authoritative = False, M_RecursionAvailable = False,
      M_Question = [\<lparr>Q_Name = n, Q_Qtype = t\<rparr>], M_Answer = [], M_Ns = []\<rparr>"

section \<open>Properties\<close>

text \<open>
  C15 (functional).  \<open>SetRecords\<close> is all or nothing: if every record is of type A (or untyped),
  carries an IPv4 loopback address and lies in the zone, the server afterwards resolves
  exactly the names of the given records, the last record of a name counting, and the serial
  number is one higher modulo 2^32; otherwise the state is unchanged.
\<close>

theorem SetRecords_all_or_nothing:
  assumes "mdns_ok md"
  shows "case SetRecords md s recs of
      (s', None) \<Rightarrow> (\<forall>r\<in>set recs. rec_ok md s r) \<and> unat (Srv_serial s') = (unat (Srv_serial s) + 1) mod 2 ^ 32
        \<and> (\<forall>n. lookupA md s' n =
              map_option Rec_VIP (List.find (\<lambda>r. CanonicalName md (Rec_Name r) = CanonicalName md n) (rev recs)))
    | (s', Some e) \<Rightarrow> s' = s \<and> (\<exists>r\<in>set recs. \<not> rec_ok md s r)"
proof (cases "\<forall>r\<in>set recs. rec_ok md s r")
  case True
  then show ?thesis
    using lookupA_SetRecords [OF assms True] by (simp add: SetRecords_ok unat_word_ariths)
next
  case False
  then show ?thesis using SetRecords_fail [OF False] by auto
qed

theorem SetRecords_all_or_nothing_witness:
  "lookupA plain_mdns (fst (SetRecords plain_mdns example_server example_records)) ''WEB.shop.test.'' = Some (Addr4 0x7F4D0009)"
proof -
  have "snd (SetRecords plain_mdns example_server example_records) = None" by code_simp
  then obtain s' where s: "SetRecords plain_mdns example_server example_records = (s', None)"
    by (metis prod.collapse)
  have "map_option Rec_VIP (List.find (\<lambda>r. CanonicalName plain_mdns (Rec_Name r) = CanonicalName plain_mdns ''WEB.shop.test.'')
      (rev example_records)) = Some (Addr4 0x7F4D0009)" by code_simp
  with SetRecords_all_or_nothing [OF plain_mdns_ok, where s = example_server and recs = example_records] s show ?thesis by simp
qed

text \<open>
  C14 (safety).  Whatever sequence of calls a server has seen and whatever it is asked, every A
  record in its answer is an IPv4 loopback address, the static name server record included.
\<close>

theorem serveDNS_only_loopback:
  assumes "mdns_ok md" "srv_reach md s" "RR_A n ttl v \<in> set (M_Answer (serveDNS md s r))"
  shows "Is4 v \<and> IsLoopback v"
  using serveDNS_answer_loopback [OF assms(1) srv_reach_inv [OF assms(2)] assms(3)] by simp

theorem serveDNS_only_loopback_witness:
  "Is4 (Addr4 0x7F4D0009) \<and> IsLoopback (Addr4 0x7F4D0009)"
proof (rule serveDNS_only_loopback [OF plain_mdns_ok example_server_reach])
  show "RR_A ''shop.test.'' 5 (Addr4 0x7F4D0009) \<in>
      set (M_Answer (serveDNS plain_mdns (fst (SetRecords plain_mdns example_server example_records)) (example_query ''shop.test.'' TypeA)))"
    by code_simp
qed

lemma SetRecords_query_roundtrip_facts:
  assumes "mdns_ok md" "SetRecords md s recs = (s', None)"
    and "distinct (map (\<lambda>r. CanonicalName md (Rec_Name r)) recs)" "rec \<in> set recs"
    and "M_Question r = q # qs" "Q_Qtype q = TypeA" "CanonicalName md (Q_Name q) = CanonicalName md (Rec_Name rec)"
  shows "M_Rcode (serveDNS md s' r) = RcodeSuccess" and "M_Authoritative (serveDNS md s' r)"
    and "M_Answer (serveDNS md s' r) = [RR_A (Q_Name q) (if Rec_TTL rec = 0 then 5 else Rec_TTL rec) (Rec_VIP rec)]"
proof -
  have ok: "\<forall>r\<in>set recs. rec_ok md s r" using SetRecords_None_iff [of md s recs] assms(2) by simp
  have s': "s' = s\<lparr>Srv_records := foldl (put_rec md) [] recs, Srv_serial := Srv_serial s + 1\<rparr>"
    using SetRecords_ok [OF ok] assms(2) by simp
  have "List.find (\<lambda>r. canon_key md (Rec_Name r) = CanonicalName md (Q_Name q)) (rev recs) = Some rec"
    using assms(3,4,7) distinct_map_inj [OF assms(3)] by (intro find_unique) (auto simp: canon_key_eq [OF assms(1)])
  then have "map_of (Srv_records s') (CanonicalName md (Q_Name q)) = Some (norm_rec md rec)"
    by (simp add: s' map_of_put_recs)
  moreover have "inZone s' (CanonicalName md (Q_Name q))"
    using ok assms(4,7) by (auto simp: s' rec_ok_def inZone_def canon_key_eq [OF assms(1)])
  ultimately show "M_Rcode (serveDNS md s' r) = RcodeSuccess" "M_Authoritative (serveDNS md s' r)"
    "M_Answer (serveDNS md s' r) = [RR_A (Q_Name q) (if Rec_TTL rec = 0 then 5 else Rec_TTL rec) (Rec_VIP rec)]"
    using assms(1,5,6) by (simp_all add: serveDNS_def handleA_def Let_def dns_consts norm_rec_def mdns_ok_def)
qed

text \<open>
  C9 (roundtrip).  After a successful \<open>SetRecords\<close> of records with different canonical names,
  an A query for a record's name, in any case and with or without the final dot, is answered
  authoritatively with one A record: the question's name, the record's VIP and its TTL, where
  a TTL of 0 has become 5.
\<close>

theorem SetRecords_query_roundtrip:
  assumes "mdns_ok md" "SetRecords md s recs = (s', None)"
    and "distinct (map (\<lambda>r. CanonicalName md (Rec_Name r)) recs)" "rec \<in> set recs"
    and "M_Question r = q # qs" "Q_Qtype q = TypeA" "CanonicalName md (Q_Name q) = CanonicalName md (Rec_Name rec)"
  shows "M_Rcode (serveDNS md s' r) = RcodeSuccess \<and> M_Authoritative (serveDNS md s' r)
    \<and> M_Answer (serveDNS md s' r) = [RR_A (Q_Name q) (if Rec_TTL rec = 0 then 5 else Rec_TTL rec) (Rec_VIP rec)]"
  using SetRecords_query_roundtrip_facts [OF assms] by blast

theorem SetRecords_query_roundtrip_witness:
  "M_Answer (serveDNS plain_mdns (fst (SetRecords plain_mdns example_server example_records)) (example_query ''Shop.TEST'' TypeA))
     = [RR_A ''Shop.TEST'' 5 (Addr4 0x7F4D0009)]"
proof -
  have "snd (SetRecords plain_mdns example_server example_records) = None" by code_simp
  then have s: "SetRecords plain_mdns example_server example_records =
      (fst (SetRecords plain_mdns example_server example_records), None)"
    by (metis prod.collapse)
  have d: "distinct (map (\<lambda>r. CanonicalName plain_mdns (Rec_Name r)) example_records)"
    "CanonicalName plain_mdns ''Shop.TEST'' = CanonicalName plain_mdns ''shop.test''" by code_simp+
  from SetRecords_query_roundtrip [OF plain_mdns_ok s d(1), of "hd example_records"
      "example_query ''Shop.TEST'' TypeA" "\<lparr>Q_Name = ''Shop.TEST'', Q_Qtype = TypeA\<rparr>" "[]"] d(2)
  show ?thesis by (simp add: example_query_def example_records_def)
qed

lemma serveDNS_matrix_facts:
  assumes "mdns_ok md"
  shows "M_Question r = [] \<Longrightarrow> M_Rcode (serveDNS md s r) = RcodeFormatError"
    and "M_Question r = q # qs \<Longrightarrow> Q_Qtype q = TypePTR \<or> \<not> inZone s (CanonicalName md (Q_Name q)) \<Longrightarrow>
      M_Rcode (serveDNS md s r) = RcodeRefused \<and> \<not> M_Authoritative (serveDNS md s r) \<and> M_Answer (serveDNS md s r) = []"
    and "M_Question r = q # qs \<Longrightarrow> Q_Qtype q \<noteq> TypePTR \<Longrightarrow> inZone s (CanonicalName md (Q_Name q)) \<Longrightarrow>
      \<not> nameExists md s (CanonicalName md (Q_Name q)) (Srv_records s) \<Longrightarrow>
      M_Rcode (serveDNS md s r) = RcodeNameError \<and> M_Authoritative (serveDNS md s r)
      \<and> M_Answer (serveDNS md s r) = [] \<and> M_Ns (serveDNS md s r) = [soaRR s (Srv_baseDomain s)]"
    and "M_Question r = q # qs \<Longrightarrow> Q_Qtype q \<notin> {TypePTR, TypeA, TypeSOA, TypeNS} \<Longrightarrow>
      inZone s (CanonicalName md (Q_Name q)) \<Longrightarrow> nameExists md s (CanonicalName md (Q_Name q)) (Srv_records s) \<Longrightarrow>
      M_Rcode (serveDNS md s r) = RcodeSuccess \<and> M_Authoritative (serveDNS md s r) \<and> M_Answer (serveDNS md s r) = []"
  using assms by (auto simp: reply_simps Let_def mdns_ok_def dns_consts nameExists_def)

text \<open>
  C16 (functional).  The remaining rows of the query matrix: no question is a format error, PTR
  questions and names outside the zone are refused and not authoritative, an unknown name of
  the zone is NXDOMAIN with the zone's SOA record in the authority section for every type, and
  a known name has an empty successful answer for AAAA and for every type that is not A, SOA
  or NS.
\<close>

theorem serveDNS_matrix:
  assumes "mdns_ok md"
  shows "(M_Question r = [] \<longrightarrow> M_Rcode (serveDNS md s r) = RcodeFormatError)
    \<and> (\<forall>q qs. M_Question r = q # qs \<longrightarrow>
        (Q_Qtype q = TypePTR \<or> \<not> inZone s (CanonicalName md (Q_Name q)) \<longrightarrow>
           M_Rcode (serveDNS md s r) = RcodeRefused \<and> \<not> M_Authoritative (serveDNS md s r) \<and> M_Answer (serveDNS md s r) = [])
        \<and> (Q_Qtype q \<noteq> TypePTR \<and> inZone s (CanonicalName md (Q_Name q))
            \<and> \<not> nameExists md s (CanonicalName md (Q_Name q)) (Srv_records s) \<longrightarrow>
           M_Rcode (serveDNS md s r) = RcodeNameError \<and> M_Authoritative (serveDNS md s r)
           \<and> M_Answer (serveDNS md s r) = [] \<and> M_Ns (serveDNS md s r) = [soaRR s (Srv_baseDomain s)])
        \<and> (Q_Qtype q \<notin> {TypePTR, TypeA, TypeSOA, TypeNS} \<and> inZone s (CanonicalName md (Q_Name q))
            \<and> nameExists md s (CanonicalName md (Q_Name q)) (Srv_records s) \<longrightarrow>
           M_Rcode (serveDNS md s r) = RcodeSuccess \<and> M_Authoritative (serveDNS md s r) \<and> M_Answer (serveDNS md s r) = []))"
  using serveDNS_matrix_facts [OF assms] by blast

theorem serveDNS_matrix_witness:
  "M_Rcode (serveDNS plain_mdns example_server (example_query ''nobody.test'' TypeA)) = RcodeNameError
   \<and> M_Rcode (serveDNS plain_mdns example_server (example_query ''shop.example'' TypeA)) = RcodeRefused"
proof -
  have n: "inZone example_server (CanonicalName plain_mdns ''nobody.test'')"
    "\<not> nameExists plain_mdns example_server (CanonicalName plain_mdns ''nobody.test'') (Srv_records example_server)"
    "\<not> inZone example_server (CanonicalName plain_mdns ''shop.example'')"
    by code_simp+
  note m = serveDNS_matrix [OF plain_mdns_ok, where s = example_server]
  from m [of "example_query ''nobody.test'' TypeA"] n(1,2)
    m [of "example_query ''shop.example'' TypeA"] n(3)
  show ?thesis by (simp add: example_query_def dns_consts)
qed

text \<open>
  The zone's own name: an A query for the base domain without a record of
  that name is answered NXDOMAIN, although the same server answers AAAA, SOA and NS queries
  for it with success.
\<close>

theorem serveDNS_apex:
  assumes "mdns_ok md" "M_Question r = q # qs" "CanonicalName md (Q_Name q) = Srv_baseDomain s"
    and "map_of (Srv_records s) (Srv_baseDomain s) = None" "nsName md s \<noteq> Srv_baseDomain s"
  shows "M_Rcode (serveDNS md s r) =
    (if Q_Qtype q = TypePTR then RcodeRefused else if Q_Qtype q = TypeA then RcodeNameError else RcodeSuccess)"
  using assms by (auto simp: reply_simps Let_def mdns_ok_def dns_consts nameExists_def inZone_def)

theorem serveDNS_apex_witness:
  "M_Rcode (serveDNS plain_mdns example_server (example_query ''test'' TypeA)) = RcodeNameError
   \<and> M_Rcode (serveDNS plain_mdns example_server (example_query ''test'' TypeAAAA)) = RcodeSuccess"
proof -
  have n: "CanonicalName plain_mdns ''test'' = Srv_baseDomain example_server"
    "map_of (Srv_records example_server) (Srv_baseDomain example_server) = None"
    "nsName plain_mdns example_server \<noteq> Srv_baseDomain example_server"
    by code_simp+
  have "M_Rcode (serveDNS plain_mdns example_server (example_query ''test'' t)) =
      (if t = TypePTR then RcodeRefused else if t = TypeA then RcodeNameError else RcodeSuccess)" for t
    using serveDNS_apex [OF plain_mdns_ok, of "example_query ''test'' t" "\<lparr>Q_Name = ''test'', Q_Qtype = t\<rparr>" "[]" example_server] n
    by (simp add: example_query_def)
  then show ?thesis by (simp add: dns_consts)
qed

end
