(* ===== verification/Proxy.thy ===== *)
theory Proxy
  imports Domain
begin

text \<open>
  Package \<open>internal/proxy\<close>: the manager of the TCP listeners (\<open>manager.go\<close>) and the byte copy
  (\<open>tcp.go\<close>).  What the operating system answers is an argument: \<open>listen\<close> gives the local IP
  of a listener bound to an address or \<^const>\<open>None\<close>, a dial gives the remote IP or
  \<^const>\<open>None\<close>, reads and writes are sequences of results.  \<open>range\<close> over a map visits it in the
  order of the association list; only which of several listen errors is the first depends on
  that order.
\<close>

section \<open>Configuration\<close>

datatype proxy_error =
    ProxyShutDown
  | ErrInvalidVIP addr
  | PublicPortZero
  | UnsupportedProto string
  | ErrNonLoopbackBackend
  | ListenFailed string
  | ProxyCtxErr
  | ShutdownTimedOut

record Config =
  PC_DialTimeout :: duration
  PC_IdleTimeout :: duration
  PC_ShutdownTimeout :: duration
  PC_MaxConns :: int
  PC_VIPPool :: "netprefix option"  \<comment> \<open>\<^const>\<open>None\<close>: not valid\<close>
  PC_IsAllowedVIP :: "(addr \<Rightarrow> bool) option"

definition withDefaults :: "Config \<Rightarrow> Config" where
  "withDefaults c =
     c\<lparr>PC_DialTimeout := (if PC_DialTimeout c \<le> 0 then 3 * second else PC_DialTimeout c),
       PC_IdleTimeout := (if PC_IdleTimeout c < 0 then 300 * second else PC_IdleTimeout c),
       PC_ShutdownTimeout := (if PC_ShutdownTimeout c \<le> 0 then 5 * second else PC_ShutdownTimeout c),
       PC_MaxConns := (if PC_MaxConns c \<le> 0 then 1024 else PC_MaxConns c)\<rparr>"

record backendTarget =
  BT_host :: addr
  BT_port :: u16

text \<open>\<open>net.JoinHostPort\<close> puts a host with a colon in brackets.\<close>

definition JoinHostPort :: "string \<Rightarrow> string \<Rightarrow> string" where
  "JoinHostPort host port =
     (if CHR '':'' \<in> set host then ''['' @ host @ '']:'' @ port else host @ '':'' @ port)"

definition backend_addr :: "backendTarget \<Rightarrow> string" where
  "backend_addr b = JoinHostPort (Addr_String (BT_host b)) (dec (unat (BT_port b)))"

text \<open>A listener; its context is cancelled and its socket is closed or not.\<close>

record managedListener =
  ML_key :: string
  ML_vip :: addr
  ML_port :: u16
  ML_protocol :: Protocol
  ML_local :: addr
  ML_open :: bool
  ML_cancelled :: bool
  ML_backend :: backendTarget

record ManagerImpl =
  Mgr_cfg :: Config
  Mgr_listeners :: "(string, managedListener) gomap"
  Mgr_stopped :: "managedListener list"  \<comment> \<open>listeners that have left the map\<close>
  Mgr_shutting :: bool
  Mgr_rootCancelled :: bool

definition NewManager :: "Config \<Rightarrow> ManagerImpl" where
  "NewManager cfg =
     \<lparr>Mgr_cfg = withDefaults cfg, Mgr_listeners = [], Mgr_stopped = [], Mgr_shutting = False, Mgr_rootCancelled = False\<rparr>"

definition listenerKey :: "addr \<Rightarrow> u16 \<Rightarrow> Protocol \<Rightarrow> string" where
  "listenerKey vip port proto =
     Addr_String vip @ ''|'' @ dec (unat port) @ ''|'' @ (if proto = '''' then ProtocolTCP else proto)"

definition ListenerCount :: "ManagerImpl \<Rightarrow> nat" where
  "ListenerCount m = length (Mgr_listeners m)"

definition Manager_ListenAddr :: "ManagerImpl \<Rightarrow> string \<Rightarrow> (addr \<times> u16) option" where
  "Manager_ListenAddr m key = map_option (\<lambda>ml. (ML_local ml, ML_port ml)) (map_of (Mgr_listeners m) key)"

section \<open>Validation\<close>

definition validateLoopbackBackend :: "addr \<Rightarrow> u16 \<Rightarrow> proxy_error option" where
  "validateLoopbackBackend host port =
     (if port = 0 then Some ErrNonLoopbackBackend
      else if \<not> IsValid host \<or> \<not> Is4 host \<or> Addr_String host \<noteq> ''127.0.0.1'' then Some ErrNonLoopbackBackend
      else None)"

definition validateEndpoint :: "Endpoint \<Rightarrow> Config \<Rightarrow> proxy_error option" where
  "validateEndpoint ep cfg =
     (let vip = Ep_VIP ep in
      if \<not> IsValid vip \<or> \<not> Is4 vip then Some (ErrInvalidVIP vip)
      else if IsUnspecified vip then Some (ErrInvalidVIP vip)
      else if \<not> IsLoopback vip then Some (ErrInvalidVIP vip)
      else if (case PC_VIPPool cfg of None \<Rightarrow> False | Some pool \<Rightarrow> \<not> Prefix_Contains pool vip) then Some (ErrInvalidVIP vip)
      else if (case PC_IsAllowedVIP cfg of None \<Rightarrow> False | Some allowed \<Rightarrow> \<not> allowed vip) then Some (ErrInvalidVIP vip)
      else if Ep_PublicPort ep = 0 then Some PublicPortZero
      else if Ep_Protocol ep \<noteq> ProtocolTCP \<and> Ep_Protocol ep \<noteq> '''' then Some (UnsupportedProto (Ep_Protocol ep))
      else validateLoopbackBackend (Ep_TargetHost ep) (Ep_TargetBind ep))"

section \<open>Reconcile and Shutdown\<close>

definition first_error :: "proxy_error option \<Rightarrow> proxy_error \<Rightarrow> proxy_error option" where
  "first_error firstErr e = (case firstErr of None \<Rightarrow> Some e | Some _ \<Rightarrow> firstErr)"

fun collectDesired :: "Config \<Rightarrow> Endpoint list \<Rightarrow> (string, Endpoint) gomap \<times> proxy_error option \<Rightarrow> (string, Endpoint) gomap \<times> proxy_error option" where
  "collectDesired cfg [] (desired, firstErr) = (desired, firstErr)"
| "collectDesired cfg (ep # eps) (desired, firstErr) =
     (case validateEndpoint ep cfg of
        Some e \<Rightarrow> collectDesired cfg eps (desired, first_error firstErr e)
      | None \<Rightarrow>
          let proto = (if Ep_Protocol ep = '''' then ProtocolTCP else Ep_Protocol ep);
              ep' = ep\<lparr>Ep_Protocol := proto\<rparr>;
              key = listenerKey (Ep_VIP ep') (Ep_PublicPort ep') (Ep_Protocol ep')
          in collectDesired cfg eps (AList.update key ep' desired, firstErr))"

definition stopListenerLocked :: "managedListener \<Rightarrow> managedListener" where
  "stopListenerLocked ml = ml\<lparr>ML_cancelled := True, ML_open := False\<rparr>"

text \<open>The listener whose context descends from the root context, which may be cancelled.\<close>

definition startListenerLocked :: "(string \<Rightarrow> addr option) \<Rightarrow> bool \<Rightarrow> Endpoint \<Rightarrow> proxy_error + managedListener" where
  "startListenerLocked listen rootCancelled ep =
     (let listenAddr = JoinHostPort (Addr_String (Ep_VIP ep)) (dec (unat (Ep_PublicPort ep))) in
      case listen listenAddr of
        None \<Rightarrow> Inl (ListenFailed listenAddr)
      | Some ip \<Rightarrow>
          if IsUnspecified ip then Inl (ErrInvalidVIP (Ep_VIP ep))
          else Inr \<lparr>ML_key = listenerKey (Ep_VIP ep) (Ep_PublicPort ep) (Ep_Protocol ep),
                    ML_vip = Ep_VIP ep, ML_port = Ep_PublicPort ep, ML_protocol = Ep_Protocol ep,
                    ML_local = ip, ML_open = True, ML_cancelled = rootCancelled,
                    ML_backend = \<lparr>BT_host = Ep_TargetHost ep, BT_port = Ep_TargetBind ep\<rparr>\<rparr>)"

definition removeStale :: "(string, Endpoint) gomap \<Rightarrow> ManagerImpl \<Rightarrow> ManagerImpl" where
  "removeStale desired m =
     m\<lparr>Mgr_listeners := filter (\<lambda>(key, _). map_of desired key \<noteq> None) (Mgr_listeners m),
       Mgr_stopped := Mgr_stopped m @
         map (\<lambda>(_, ml). stopListenerLocked ml) (filter (\<lambda>(key, _). map_of desired key = None) (Mgr_listeners m))\<rparr>"

fun addOrUpdate :: "(string \<Rightarrow> addr option) \<Rightarrow> (string, Endpoint) gomap \<Rightarrow> ManagerImpl \<times> proxy_error option \<Rightarrow> ManagerImpl \<times> proxy_error option" where
  "addOrUpdate listen [] (m, firstErr) = (m, firstErr)"
| "addOrUpdate listen ((key, ep) # rest) (m, firstErr) =
     (case map_of (Mgr_listeners m) key of
        Some ml \<Rightarrow>
          addOrUpdate listen rest
            (m\<lparr>Mgr_listeners := AList.update key (ml\<lparr>ML_backend := \<lparr>BT_host = Ep_TargetHost ep, BT_port = Ep_TargetBind ep\<rparr>\<rparr>) (Mgr_listeners m)\<rparr>,
             firstErr)
      | None \<Rightarrow>
          (case startListenerLocked listen (Mgr_rootCancelled m) ep of
             Inl e \<Rightarrow> addOrUpdate listen rest (m, first_error firstErr e)
           | Inr ml \<Rightarrow> addOrUpdate listen rest (m\<lparr>Mgr_listeners := AList.update key ml (Mgr_listeners m)\<rparr>, firstErr)))"

text \<open>The part of \<open>Reconcile\<close> that runs under the lock, and the whole.\<close>

definition reconcileLocked :: "(string \<Rightarrow> addr option) \<Rightarrow> (string, Endpoint) gomap \<times> proxy_error option \<Rightarrow> ManagerImpl \<Rightarrow> ManagerImpl \<times> proxy_error option" where
  "reconcileLocked listen d m = addOrUpdate listen (fst d) (removeStale (fst d) m, snd d)"

definition Reconcile :: "(string \<Rightarrow> addr option) \<Rightarrow> Endpoint list \<Rightarrow> ManagerImpl \<Rightarrow> ManagerImpl \<times> proxy_error option" where
  "Reconcile listen eps m =
     (if Mgr_shutting m then (m, Some ProxyShutDown)
      else reconcileLocked listen (collectDesired (Mgr_cfg m) eps ([], None)) m)"

text \<open>
  \<open>Shutdown\<close> with what its waits see: all connections done, the caller's context done, or the
  timeout, after which the connections may still finish in time.
\<close>

datatype shutdown_wait = WaitDone | WaitCtx | WaitTimeout bool

definition shutdownLocked :: "ManagerImpl \<Rightarrow> ManagerImpl" where
  "shutdownLocked m =
     m\<lparr>Mgr_listeners := [], Mgr_stopped := Mgr_stopped m @ map (\<lambda>(_, ml). stopListenerLocked ml) (Mgr_listeners m)\<rparr>"

definition Manager_Shutdown :: "shutdown_wait \<Rightarrow> ManagerImpl \<Rightarrow> ManagerImpl \<times> proxy_error option" where
  "Manager_Shutdown w m =
     (if Mgr_shutting m then (m, None)
      else (shutdownLocked (m\<lparr>Mgr_shutting := True, Mgr_rootCancelled := True\<rparr>),
            case w of WaitDone \<Rightarrow> None | WaitCtx \<Rightarrow> Some ProxyCtxErr
                    | WaitTimeout late \<Rightarrow> if late then None else Some ShutdownTimedOut))"

section \<open>What validation accepts\<close>

definition vip_allowed :: "Config \<Rightarrow> addr \<Rightarrow> bool" where
  "vip_allowed cfg vip \<longleftrightarrow> Is4 vip \<and> IsLoopback vip
     \<and> (\<forall>pool. PC_VIPPool cfg = Some pool \<longrightarrow> Prefix_Contains pool vip)
     \<and> (\<forall>allowed. PC_IsAllowedVIP cfg = Some allowed \<longrightarrow> allowed vip)"

definition valid_ep :: "Config \<Rightarrow> Endpoint \<Rightarrow> bool" where
  "valid_ep cfg ep \<longleftrightarrow> vip_allowed cfg (Ep_VIP ep) \<and> Ep_PublicPort ep \<noteq> 0
     \<and> (Ep_Protocol ep = ProtocolTCP \<or> Ep_Protocol ep = '''')
     \<and> Ep_TargetHost ep = loopback4 \<and> Ep_TargetBind ep \<noteq> 0"

lemma string4_loopback: "string4 0x7F000001 = ''127.0.0.1''"
  by code_simp

lemma Addr_String_loopback_iff: "Is4 a \<and> Addr_String a = ''127.0.0.1'' \<longleftrightarrow> a = loopback4"
  by (cases a) (auto simp: loopback4_def string4_loopback [symmetric])

lemma loopback_not_unspecified: "IsLoopback (Addr4 ip) \<Longrightarrow> ip \<noteq> 0"
  by (auto simp: byte_at_def)

lemma validateLoopbackBackend_None_iff [simp]:
  "validateLoopbackBackend host port = None \<longleftrightarrow> port \<noteq> 0 \<and> host = loopback4"
  unfolding validateLoopbackBackend_def Addr_String_loopback_iff [symmetric] by (auto simp: Is4_valid)

lemma validateEndpoint_None_iff: "validateEndpoint ep cfg = None \<longleftrightarrow> valid_ep cfg ep"
proof (cases "Ep_VIP ep")
  case (Addr4 ip)
  then show ?thesis
    using loopback_not_unspecified [of ip]
    by (auto simp: validateEndpoint_def valid_ep_def vip_allowed_def Let_def split: option.splits)
qed (auto simp: validateEndpoint_def valid_ep_def vip_allowed_def Let_def)

section \<open>Reconcile as a map\<close>

definition norm_ep :: "Endpoint \<Rightarrow> Endpoint" where
  "norm_ep ep = ep\<lparr>Ep_Protocol := ProtocolTCP\<rparr>"

definition ep_key :: "Endpoint \<Rightarrow> string" where
  "ep_key ep = listenerKey (Ep_VIP ep) (Ep_PublicPort ep) ProtocolTCP"

definition put_ep :: "(string, Endpoint) gomap \<Rightarrow> Endpoint \<Rightarrow> (string, Endpoint) gomap" where
  "put_ep d ep = AList.update (ep_key ep) (norm_ep ep) d"

abbreviation desired_eps :: "Config \<Rightarrow> Endpoint list \<Rightarrow> (string, Endpoint) gomap" where
  "desired_eps cfg eps \<equiv> foldl put_ep [] (filter (valid_ep cfg) eps)"

lemma collectDesired_fst:
  "fst (collectDesired cfg eps (d, e)) = foldl put_ep d (filter (valid_ep cfg) eps)"
proof (induction eps arbitrary: d e)
  case (Cons ep eps)
  show ?case
  proof (cases "validateEndpoint ep cfg")
    case None
    then have v: "valid_ep cfg ep" by (simp add: validateEndpoint_None_iff)
    then have "(if Ep_Protocol ep = '''' then ProtocolTCP else Ep_Protocol ep) = ProtocolTCP"
      by (auto simp: valid_ep_def)
    then show ?thesis
      using None v Cons.IH by (simp add: put_ep_def norm_ep_def ep_key_def Let_def)
  next
    case (Some e')
    then have "\<not> valid_ep cfg ep" by (simp add: validateEndpoint_None_iff [symmetric])
    then show ?thesis using Some Cons.IH by simp
  qed
qed simp

lemma map_of_put_eps:
  "map_of (foldl put_ep d eps) k =
     (case List.find (\<lambda>ep. ep_key ep = k) (rev eps) of Some ep \<Rightarrow> Some (norm_ep ep) | None \<Rightarrow> map_of d k)"
  by (induction eps arbitrary: d rule: rev_induct) (auto simp: put_ep_def)

lemma distinct_put_eps: "distinct (gokeys d) \<Longrightarrow> distinct (gokeys (foldl put_ep d eps))"
  by (induction eps arbitrary: d) (auto simp: put_ep_def)

lemma desired_eps_ok:
  assumes "map_of (desired_eps cfg eps) k = Some ep"
  shows "valid_ep cfg ep \<and> Ep_Protocol ep = ProtocolTCP \<and> k = ep_key ep"
proof -
  from assms obtain e where "List.find (\<lambda>ep. ep_key ep = k) (rev (filter (valid_ep cfg) eps)) = Some e" "ep = norm_ep e"
    by (auto simp: map_of_put_eps split: option.splits)
  then show ?thesis
    using find_Some_in [of _ "rev (filter (valid_ep cfg) eps)" e] by (auto simp: valid_ep_def norm_ep_def ep_key_def)
qed

definition backend_of :: "Endpoint \<Rightarrow> backendTarget" where
  "backend_of ep = \<lparr>BT_host = Ep_TargetHost ep, BT_port = Ep_TargetBind ep\<rparr>"

text \<open>What one desired endpoint does to the listener of its key.\<close>

definition serve_ep :: "(string \<Rightarrow> addr option) \<Rightarrow> bool \<Rightarrow> Endpoint \<Rightarrow> managedListener option \<Rightarrow> managedListener option" where
  "serve_ep listen rc ep old =
     (case old of
        Some ml \<Rightarrow> Some (ml\<lparr>ML_backend := backend_of ep\<rparr>)
      | None \<Rightarrow> (case startListenerLocked listen rc ep of Inl _ \<Rightarrow> None | Inr ml \<Rightarrow> Some ml))"

lemma addOrUpdate_step:
  "\<exists>ls e'. addOrUpdate listen ((key, ep) # d) (m, e) = addOrUpdate listen d (m\<lparr>Mgr_listeners := ls\<rparr>, e')
     \<and> map_of ls = (map_of (Mgr_listeners m))(key := serve_ep listen (Mgr_rootCancelled m) ep (map_of (Mgr_listeners m) key))
     \<and> (distinct (gokeys (Mgr_listeners m)) \<longrightarrow> distinct (gokeys ls))"
proof (cases "map_of (Mgr_listeners m) key")
  case None
  show ?thesis
  proof (cases "startListenerLocked listen (Mgr_rootCancelled m) ep")
    case (Inl x)
    show ?thesis
      by (rule exI [of _ "Mgr_listeners m"], rule exI [of _ "first_error e x"])
        (use None Inl in \<open>simp add: serve_ep_def fun_upd_idem\<close>)
  next
    case (Inr ml)
    show ?thesis
      by (rule exI [of _ "AList.update key ml (Mgr_listeners m)"], rule exI [of _ e])
        (use None Inr in \<open>simp add: serve_ep_def distinct_gokeys_update\<close>)
  qed
next
  case (Some ml)
  show ?thesis
    by (rule exI [of _ "AList.update key (ml\<lparr>ML_backend := backend_of ep\<rparr>) (Mgr_listeners m)"], rule exI [of _ e])
      (use Some in \<open>simp add: serve_ep_def backend_of_def distinct_gokeys_update\<close>)
qed

lemma addOrUpdate_eq:
  assumes "distinct (gokeys d)"
  shows "\<exists>ls. fst (addOrUpdate listen d (m, e)) = m\<lparr>Mgr_listeners := ls\<rparr>
    \<and> (distinct (gokeys (Mgr_listeners m)) \<longrightarrow> distinct (gokeys ls))
    \<and> (\<forall>k. map_of ls k =
          (case map_of d k of None \<Rightarrow> map_of (Mgr_listeners m) k
           | Some ep \<Rightarrow> serve_ep listen (Mgr_rootCancelled m) ep (map_of (Mgr_listeners m) k)))"
  using assms
proof (induction d arbitrary: m e)
  case Nil
  show ?case by (rule exI [of _ "Mgr_listeners m"]) simp
next
  case (Cons p d)
  obtain key ep where p: "p = (key, ep)" by (cases p)
  have notin: "map_of d key = None" and dist: "distinct (gokeys d)"
    using Cons.prems by (auto simp: p map_of_None_iff)
  obtain ls e' where step: "addOrUpdate listen (p # d) (m, e) = addOrUpdate listen d (m\<lparr>Mgr_listeners := ls\<rparr>, e')"
    and ls: "map_of ls = (map_of (Mgr_listeners m))(key := serve_ep listen (Mgr_rootCancelled m) ep (map_of (Mgr_listeners m) key))"
      "distinct (gokeys (Mgr_listeners m)) \<longrightarrow> distinct (gokeys ls)"
    using addOrUpdate_step p by metis
  from Cons.IH [OF dist, of "m\<lparr>Mgr_listeners := ls\<rparr>" e'] obtain ls' where ls':
    "fst (addOrUpdate listen d (m\<lparr>Mgr_listeners := ls\<rparr>, e')) = m\<lparr>Mgr_listeners := ls'\<rparr>"
    "distinct (gokeys ls) \<longrightarrow> distinct (gokeys ls')"
    "\<forall>k. map_of ls' k = (case map_of d k of None \<Rightarrow> map_of ls k | Some ep \<Rightarrow> serve_ep listen (Mgr_rootCancelled m) ep (map_of ls k))"
    by (auto cong: option.case_cong)
  show ?case
  proof (intro exI [of _ ls'] conjI)
    show "fst (addOrUpdate listen (p # d) (m, e)) = m\<lparr>Mgr_listeners := ls'\<rparr>" by (simp add: step ls'(1))
    show "distinct (gokeys (Mgr_listeners m)) \<longrightarrow> distinct (gokeys ls')" using ls(2) ls'(2) by blast
    show "\<forall>k. map_of ls' k = (case map_of (p # d) k of None \<Rightarrow> map_of (Mgr_listeners m) k
        | Some ep \<Rightarrow> serve_ep listen (Mgr_rootCancelled m) ep (map_of (Mgr_listeners m) k))"
      using notin by (simp add: ls'(3) ls(1) p split: option.splits)
  qed
qed

lemma map_of_filter_keys:
  "map_of (filter (\<lambda>(k, _). P k) xs) k = (if P k then map_of xs k else None)"
  by (induction xs) auto

lemma distinct_filter_keys: "distinct (gokeys xs) \<Longrightarrow> distinct (gokeys (filter P xs))"
  by (rule map_filter_subseq_distinct)

text \<open>The locked part: what becomes of every listener.\<close>

definition stale :: "(string, Endpoint) gomap \<Rightarrow> ManagerImpl \<Rightarrow> managedListener list" where
  "stale d m = map snd (filter (\<lambda>(k, _). map_of d k = None) (Mgr_listeners m))"

lemma reconcileLocked_eq:
  assumes "distinct (gokeys d)" "distinct (gokeys (Mgr_listeners m))"
  shows "\<exists>ls. fst (reconcileLocked listen (d, e) m) =
      m\<lparr>Mgr_listeners := ls, Mgr_stopped := Mgr_stopped m @ map stopListenerLocked (stale d m)\<rparr>
    \<and> distinct (gokeys ls)
    \<and> (\<forall>k. map_of ls k = Option.bind (map_of d k) (\<lambda>ep. serve_ep listen (Mgr_rootCancelled m) ep (map_of (Mgr_listeners m) k)))"
proof -
  let ?m = "removeStale d m"
  have m: "map_of (Mgr_listeners ?m) k = (if map_of d k \<noteq> None then map_of (Mgr_listeners m) k else None)" for k
    unfolding removeStale_def by (simp add: map_of_filter_keys)
  have "distinct (gokeys (Mgr_listeners ?m))"
    using assms(2) by (simp add: removeStale_def distinct_filter_keys)
  then obtain ls where ls: "fst (addOrUpdate listen d (?m, e)) = ?m\<lparr>Mgr_listeners := ls\<rparr>" "distinct (gokeys ls)"
    "\<forall>k. map_of ls k = (case map_of d k of None \<Rightarrow> map_of (Mgr_listeners ?m) k
           | Some ep \<Rightarrow> serve_ep listen (Mgr_rootCancelled ?m) ep (map_of (Mgr_listeners ?m) k))"
    using addOrUpdate_eq [OF assms(1), of listen ?m e] by blast
  show ?thesis
  proof (intro exI [of _ ls] conjI allI)
    show "fst (reconcileLocked listen (d, e) m) =
        m\<lparr>Mgr_listeners := ls, Mgr_stopped := Mgr_stopped m @ map stopListenerLocked (stale d m)\<rparr>"
      by (simp add: reconcileLocked_def ls(1)) (simp add: removeStale_def stale_def case_prod_unfold)
    show "map_of ls k = Option.bind (map_of d k) (\<lambda>ep. serve_ep listen (Mgr_rootCancelled m) ep (map_of (Mgr_listeners m) k))" for k
      by (cases "map_of d k") (simp_all add: ls(3) m, simp add: removeStale_def)
  qed (rule ls(2))
qed

section \<open>The invariant\<close>

definition listener_ok :: "Config \<Rightarrow> string \<Rightarrow> managedListener \<Rightarrow> bool" where
  "listener_ok cfg k ml \<longleftrightarrow> vip_allowed cfg (ML_vip ml) \<and> ML_port ml \<noteq> 0 \<and> ML_protocol ml = ProtocolTCP
     \<and> ML_key ml = k \<and> k = listenerKey (ML_vip ml) (ML_port ml) ProtocolTCP
     \<and> ML_open ml \<and> \<not> IsUnspecified (ML_local ml)
     \<and> BT_host (ML_backend ml) = loopback4 \<and> BT_port (ML_backend ml) \<noteq> 0"

definition mgr_inv :: "ManagerImpl \<Rightarrow> bool" where
  "mgr_inv m \<longleftrightarrow> distinct (gokeys (Mgr_listeners m)) \<and> 0 < PC_MaxConns (Mgr_cfg m)
     \<and> (\<forall>k ml. map_of (Mgr_listeners m) k = Some ml \<longrightarrow> listener_ok (Mgr_cfg m) k ml)
     \<and> (\<forall>ml\<in>set (Mgr_stopped m). \<not> ML_open ml \<and> ML_cancelled ml)"

lemma startListenerLocked_Inr:
  assumes "startListenerLocked listen rc ep = Inr ml"
  obtains ip where "\<not> IsUnspecified ip"
    and "ml = \<lparr>ML_key = listenerKey (Ep_VIP ep) (Ep_PublicPort ep) (Ep_Protocol ep),
                ML_vip = Ep_VIP ep, ML_port = Ep_PublicPort ep, ML_protocol = Ep_Protocol ep,
                ML_local = ip, ML_open = True, ML_cancelled = rc, ML_backend = backend_of ep\<rparr>"
proof -
  let ?a = "JoinHostPort (Addr_String (Ep_VIP ep)) (dec (unat (Ep_PublicPort ep)))"
  show ?thesis
  proof (cases "listen ?a")
    case (Some ip)
    with assms that [of ip] show ?thesis
      by (simp add: startListenerLocked_def Let_def backend_of_def split: if_splits)
  qed (use assms in \<open>simp add: startListenerLocked_def Let_def\<close>)
qed

lemma startListenerLocked_ok:
  assumes "startListenerLocked listen rc ep = Inr ml" "valid_ep cfg ep" "Ep_Protocol ep = ProtocolTCP"
  shows "listener_ok cfg (ep_key ep) ml" "ML_backend ml = backend_of ep"
  using assms(2,3)
  by (auto intro: startListenerLocked_Inr [OF assms(1)] simp: listener_ok_def valid_ep_def ep_key_def backend_of_def)

lemma serve_ep_ok:
  assumes "serve_ep listen rc ep old = Some ml" "valid_ep cfg ep" "Ep_Protocol ep = ProtocolTCP" "k = ep_key ep"
    and "\<And>o'. old = Some o' \<Longrightarrow> listener_ok cfg k o'"
  shows "listener_ok cfg k ml" "ML_backend ml = backend_of ep"
proof -
  have "listener_ok cfg k ml \<and> ML_backend ml = backend_of ep"
  proof (cases old)
    case None
    with assms(1) have "startListenerLocked listen rc ep = Inr ml" by (simp add: serve_ep_def split: sum.splits)
    from startListenerLocked_ok [OF this assms(2,3)] assms(4) show ?thesis by simp
  next
    case (Some o')
    with assms(1) have "ml = o'\<lparr>ML_backend := backend_of ep\<rparr>" by (simp add: serve_ep_def)
    with assms(2) assms(5) [OF Some] show ?thesis by (simp add: listener_ok_def backend_of_def valid_ep_def)
  qed
  then show "listener_ok cfg k ml" "ML_backend ml = backend_of ep" by simp_all
qed

lemma reconcileLocked_inv:
  assumes "mgr_inv m"
  shows "mgr_inv (fst (reconcileLocked listen (desired_eps (Mgr_cfg m) eps, e) m))"
proof -
  let ?d = "desired_eps (Mgr_cfg m) eps"
  have d: "distinct (gokeys ?d)" by (rule distinct_put_eps) simp
  have "distinct (gokeys (Mgr_listeners m))" using assms by (simp add: mgr_inv_def)
  from reconcileLocked_eq [OF d this, of listen e] obtain ls where ls:
    "fst (reconcileLocked listen (?d, e) m) =
      m\<lparr>Mgr_listeners := ls, Mgr_stopped := Mgr_stopped m @ map stopListenerLocked (stale ?d m)\<rparr>"
    "distinct (gokeys ls)"
    "\<forall>k. map_of ls k = Option.bind (map_of ?d k) (\<lambda>ep. serve_ep listen (Mgr_rootCancelled m) ep (map_of (Mgr_listeners m) k))"
    by blast
  have "listener_ok (Mgr_cfg m) k ml" if ml: "map_of ls k = Some ml" for k ml
  proof -
    from ml ls(3) obtain ep where ep: "map_of ?d k = Some ep"
      "serve_ep listen (Mgr_rootCancelled m) ep (map_of (Mgr_listeners m) k) = Some ml"
      by (auto simp: bind_eq_Some_conv)
    have "listener_ok (Mgr_cfg m) k o'" if "map_of (Mgr_listeners m) k = Some o'" for o'
      using assms that by (simp add: mgr_inv_def)
    then show ?thesis using serve_ep_ok(1) [OF ep(2)] desired_eps_ok [OF ep(1)] by blast
  qed
  then show ?thesis
    using assms ls(2) by (auto simp: ls(1) mgr_inv_def stopListenerLocked_def)
qed

lemma Reconcile_locked:
  "\<not> Mgr_shutting m \<Longrightarrow> \<exists>e. Reconcile listen eps m = reconcileLocked listen (desired_eps (Mgr_cfg m) eps, e) m"
  using collectDesired_fst [of "Mgr_cfg m" eps "[]" None] by (auto simp: Reconcile_def) (metis prod.collapse)

lemma Reconcile_inv [inv_intros]: "mgr_inv m \<Longrightarrow> mgr_inv (fst (Reconcile listen eps m))"
  using Reconcile_locked [of m listen eps] reconcileLocked_inv [of m listen eps]
  by (cases "Mgr_shutting m") (auto simp: Reconcile_def)

lemma Manager_Shutdown_inv [inv_intros]: "mgr_inv m \<Longrightarrow> mgr_inv (fst (Manager_Shutdown w m))"
  by (auto simp: Manager_Shutdown_def shutdownLocked_def mgr_inv_def stopListenerLocked_def)

lemma NewManager_inv [inv_intros]: "mgr_inv (NewManager cfg)"
  by (simp add: NewManager_def mgr_inv_def withDefaults_def)

section \<open>Keys and what a manager serves\<close>

lemma listenerKey_inject:
  assumes "Is4 v" "Is4 v'"
  shows "listenerKey v p ProtocolTCP = listenerKey v' p' ProtocolTCP \<longleftrightarrow> v = v' \<and> p = p'"
proof -
  have "listenerKey w q ProtocolTCP = EndpointMapKey (Addr_String w) q ProtocolTCP" for w q
    by (simp add: listenerKey_def EndpointMapKey_def ProtocolTCP_def)
  with assms show ?thesis by (cases v; cases v') (auto simp: EndpointMapKey_inject)
qed

definition serves :: "ManagerImpl \<Rightarrow> addr \<Rightarrow> u16 \<Rightarrow> backendTarget option" where
  "serves m v p = map_option ML_backend (map_of (Mgr_listeners m) (listenerKey v p ProtocolTCP))"

lemma Reconcile_cfg [simp]: "Mgr_cfg (fst (Reconcile listen eps m)) = Mgr_cfg m"
  "Mgr_shutting (fst (Reconcile listen eps m)) = Mgr_shutting m"
  "Mgr_rootCancelled (fst (Reconcile listen eps m)) = Mgr_rootCancelled m"
proof -
  have d: "distinct (gokeys (desired_eps (Mgr_cfg m) eps))" by (rule distinct_put_eps) simp
  have "Mgr_cfg m' = Mgr_cfg m \<and> Mgr_shutting m' = Mgr_shutting m \<and> Mgr_rootCancelled m' = Mgr_rootCancelled m"
    if "m' = fst (reconcileLocked listen (desired_eps (Mgr_cfg m) eps, e) m)" for m' e
    using addOrUpdate_eq [OF d, of listen "removeStale (desired_eps (Mgr_cfg m) eps) m" e] that
    by (auto simp: reconcileLocked_def removeStale_def)
  note locked = this
  have "Mgr_cfg (fst (Reconcile listen eps m)) = Mgr_cfg m \<and> Mgr_shutting (fst (Reconcile listen eps m)) = Mgr_shutting m
    \<and> Mgr_rootCancelled (fst (Reconcile listen eps m)) = Mgr_rootCancelled m"
  proof (cases "Mgr_shutting m")
    case False
    then obtain e where "Reconcile listen eps m = reconcileLocked listen (desired_eps (Mgr_cfg m) eps, e) m"
      using Reconcile_locked by blast
    with locked [OF refl, of e] show ?thesis by simp
  qed (simp add: Reconcile_def)
  then show "Mgr_cfg (fst (Reconcile listen eps m)) = Mgr_cfg m"
    "Mgr_shutting (fst (Reconcile listen eps m)) = Mgr_shutting m"
    "Mgr_rootCancelled (fst (Reconcile listen eps m)) = Mgr_rootCancelled m"
    by blast+
qed

text \<open>The listener of a key after \<open>Reconcile\<close>.\<close>

lemma Reconcile_listener:
  assumes "mgr_inv m" "\<not> Mgr_shutting m"
  shows "map_of (Mgr_listeners (fst (Reconcile listen eps m))) k =
      Option.bind (map_of (desired_eps (Mgr_cfg m) eps) k)
        (\<lambda>ep. serve_ep listen (Mgr_rootCancelled m) ep (map_of (Mgr_listeners m) k))"
    and "Mgr_stopped (fst (Reconcile listen eps m)) =
      Mgr_stopped m @ map stopListenerLocked (stale (desired_eps (Mgr_cfg m) eps) m)"
proof -
  let ?d = "desired_eps (Mgr_cfg m) eps"
  have d: "distinct (gokeys ?d)" by (rule distinct_put_eps) simp
  have "distinct (gokeys (Mgr_listeners m))" using assms(1) by (simp add: mgr_inv_def)
  note eq = reconcileLocked_eq [OF d this, of listen]
  obtain e where "Reconcile listen eps m = reconcileLocked listen (?d, e) m"
    using Reconcile_locked [OF assms(2)] by blast
  then show "map_of (Mgr_listeners (fst (Reconcile listen eps m))) k =
      Option.bind (map_of ?d k) (\<lambda>ep. serve_ep listen (Mgr_rootCancelled m) ep (map_of (Mgr_listeners m) k))"
    and "Mgr_stopped (fst (Reconcile listen eps m)) = Mgr_stopped m @ map stopListenerLocked (stale ?d m)"
    using eq [of e] by auto
qed

lemma Reconcile_backend:
  assumes "mgr_inv m" "\<not> Mgr_shutting m"
    and "map_of (Mgr_listeners (fst (Reconcile listen eps m))) k = Some ml"
  shows "\<exists>ep. map_of (desired_eps (Mgr_cfg m) eps) k = Some ep \<and> ML_backend ml = backend_of ep"
proof -
  from assms(3) obtain ep where ep: "map_of (desired_eps (Mgr_cfg m) eps) k = Some ep"
    "serve_ep listen (Mgr_rootCancelled m) ep (map_of (Mgr_listeners m) k) = Some ml"
    by (auto simp: Reconcile_listener [OF assms(1,2)] bind_eq_Some_conv)
  have "listener_ok (Mgr_cfg m) k o'" if "map_of (Mgr_listeners m) k = Some o'" for o'
    using assms(1) that by (simp add: mgr_inv_def)
  then show ?thesis using serve_ep_ok(2) [OF ep(2)] desired_eps_ok [OF ep(1)] ep(1) by blast
qed

text \<open>A manager that already serves the endpoints as they are is left as it is.\<close>

definition settled :: "(string \<Rightarrow> addr option) \<Rightarrow> (string, Endpoint) gomap \<Rightarrow> ManagerImpl \<Rightarrow> bool" where
  "settled listen d m \<longleftrightarrow> (\<forall>(k, ep) \<in> set d.
     (case map_of (Mgr_listeners m) k of
        Some ml \<Rightarrow> ML_backend ml = backend_of ep
      | None \<Rightarrow> \<exists>e. startListenerLocked listen (Mgr_rootCancelled m) ep = Inl e))"

lemma addOrUpdate_settled: "settled listen d m \<Longrightarrow> fst (addOrUpdate listen d (m, e)) = m"
proof (induction d arbitrary: e)
  case (Cons p d)
  obtain k ep where p: "p = (k, ep)" by (cases p)
  have IH: "fst (addOrUpdate listen d (m, e)) = m" for e using Cons by (simp add: settled_def)
  show ?case
  proof (cases "map_of (Mgr_listeners m) k")
    case None
    then show ?thesis using Cons.prems IH by (auto simp: p settled_def)
  next
    case (Some ml)
    then have "ml\<lparr>ML_backend := backend_of ep\<rparr> = ml" using Cons.prems by (simp add: p settled_def)
    then show ?thesis using Some IH by (simp add: p backend_of_def update_same)
  qed
qed simp

lemma Reconcile_idem:
  assumes "mgr_inv m"
  shows "fst (Reconcile listen eps (fst (Reconcile listen eps m))) = fst (Reconcile listen eps m)"
proof (cases "Mgr_shutting m")
  case False
  let ?d = "desired_eps (Mgr_cfg m) eps" and ?m = "fst (Reconcile listen eps m)"
  have d: "distinct (gokeys ?d)" by (rule distinct_put_eps) simp
  note l = Reconcile_listener(1) [OF assms False, of listen eps]
  have "settled listen ?d ?m"
    unfolding settled_def
  proof clarify
    fix k ep
    assume "(k, ep) \<in> set ?d"
    then have ep: "map_of ?d k = Some ep" using d by simp
    show "case map_of (Mgr_listeners ?m) k of Some ml \<Rightarrow> ML_backend ml = backend_of ep
        | None \<Rightarrow> \<exists>e. startListenerLocked listen (Mgr_rootCancelled ?m) ep = Inl e"
      using Reconcile_backend [OF assms False, of listen eps k] ep l [of k]
      by (auto simp: serve_ep_def split: option.splits sum.splits)
  qed
  moreover have "removeStale ?d ?m = ?m"
  proof -
    have "map_of ?d k \<noteq> None" if "(k, ml) \<in> set (Mgr_listeners ?m)" for k ml
    proof -
      have "map_of (Mgr_listeners ?m) k \<noteq> None" using weak_map_of_SomeI [OF that] by auto
      then show ?thesis by (cases "map_of ?d k") (simp_all add: l)
    qed
    then have "filter (\<lambda>(k, _). map_of ?d k \<noteq> None) (Mgr_listeners ?m) = Mgr_listeners ?m"
      "filter (\<lambda>(k, _). map_of ?d k = None) (Mgr_listeners ?m) = []"
      unfolding filter_id_conv filter_empty_conv by fast+
    then show ?thesis unfolding removeStale_def by simp
  qed
  ultimately show ?thesis
    using Reconcile_locked [of ?m listen eps] False by (auto simp: reconcileLocked_def addOrUpdate_settled)
qed (simp add: Reconcile_def)

section \<open>The interface\<close>

lemma startListenerLocked_works:
  assumes "listen (JoinHostPort (Addr_String (Ep_VIP ep)) (dec (unat (Ep_PublicPort ep)))) = Some ip" "\<not> IsUnspecified ip"
  shows "\<exists>ml. startListenerLocked listen rc ep = Inr ml \<and> ML_open ml"
  using assms by (auto simp: startListenerLocked_def)

lemma find_filter: "List.find P (filter Q xs) = List.find (\<lambda>x. Q x \<and> P x) xs"
  by (induction xs) auto

text \<open>
  The \<open>Manager\<close> as the reconciler sees it.  \<open>serves m v p\<close> is the backend of the listener on
  \<open>v:p\<close>; \<open>accepts\<close> tells which endpoints a manager takes.
\<close>

locale proxy_manager =
  fixes wf :: "'m \<Rightarrow> bool"
    and reconcile :: "(string \<Rightarrow> addr option) \<Rightarrow> Endpoint list \<Rightarrow> 'm \<Rightarrow> 'm \<times> proxy_error option"
    and served :: "'m \<Rightarrow> addr \<Rightarrow> u16 \<Rightarrow> backendTarget option"
    and accepts :: "'m \<Rightarrow> Endpoint \<Rightarrow> bool"
    and down :: "'m \<Rightarrow> bool"
  assumes reconcile_wf: "wf m \<Longrightarrow> wf (fst (reconcile listen eps m))"
    and reconcile_accepts: "accepts (fst (reconcile listen eps m)) = accepts m"
    and reconcile_down: "down m \<Longrightarrow> fst (reconcile listen eps m) = m"
    and reconcile_stays: "down (fst (reconcile listen eps m)) = down m"
    and reconcile_last: "wf m \<Longrightarrow> \<not> down m \<Longrightarrow> Is4 v \<Longrightarrow> served (fst (reconcile listen eps m)) v p = Some b \<Longrightarrow>
      \<exists>ep. List.find (\<lambda>ep. accepts m ep \<and> Ep_VIP ep = v \<and> Ep_PublicPort ep = p) (rev eps) = Some ep \<and> b = backend_of ep"
    and reconcile_starts: "wf m \<Longrightarrow> \<not> down m \<Longrightarrow> ep \<in> set eps \<Longrightarrow> accepts m ep \<Longrightarrow>
      listen (JoinHostPort (Addr_String (Ep_VIP ep)) (dec (unat (Ep_PublicPort ep)))) = Some ip \<Longrightarrow> \<not> IsUnspecified ip \<Longrightarrow>
      served (fst (reconcile listen eps m)) (Ep_VIP ep) (Ep_PublicPort ep) \<noteq> None"
    and reconcile_keeps: "wf m \<Longrightarrow> \<not> down m \<Longrightarrow> served m v p \<noteq> None \<Longrightarrow>
      \<exists>ep\<in>set eps. accepts m ep \<and> Ep_VIP ep = v \<and> Ep_PublicPort ep = p \<Longrightarrow>
      served (fst (reconcile listen eps m)) v p \<noteq> None"
    and accepts_loopback: "accepts m ep \<Longrightarrow> Is4 (Ep_VIP ep) \<and> IsLoopback (Ep_VIP ep) \<and> Ep_TargetHost ep = loopback4 \<and> Ep_TargetBind ep \<noteq> 0"
begin

lemma reconcile_sound:
  assumes "wf m" "\<not> down m" "Is4 v" "served (fst (reconcile listen eps m)) v p = Some b"
  shows "\<exists>ep\<in>set eps. accepts m ep \<and> Ep_VIP ep = v \<and> Ep_PublicPort ep = p \<and> b = backend_of ep"
  using reconcile_last [OF assms] find_Some_in [of _ "rev eps"] by fastforce

text \<open>Traffic goes to 127.0.0.1 only.\<close>

lemma served_loopback:
  assumes "wf m" "\<not> down m" "Is4 v" "served (fst (reconcile listen eps m)) v p = Some b"
  shows "IsLoopback v \<and> BT_host b = loopback4 \<and> BT_port b \<noteq> 0"
  using reconcile_sound [OF assms] accepts_loopback by (fastforce simp: backend_of_def)

lemma not_served:
  assumes "wf m" "\<not> down m" "Is4 v" "\<And>ep. ep \<in> set eps \<Longrightarrow> Ep_VIP ep = v \<Longrightarrow> Ep_PublicPort ep \<noteq> p"
  shows "served (fst (reconcile listen eps m)) v p = None"
  using reconcile_sound [OF assms(1-3)] assms(4) by (metis not_None_eq)

end

interpretation tcp_manager: proxy_manager mgr_inv Reconcile serves "\<lambda>m. valid_ep (Mgr_cfg m)" Mgr_shutting
proof
  fix m :: ManagerImpl and listen eps v p b ep
  show "mgr_inv m \<Longrightarrow> mgr_inv (fst (Reconcile listen eps m))" by (rule Reconcile_inv)
  show "valid_ep (Mgr_cfg (fst (Reconcile listen eps m))) = valid_ep (Mgr_cfg m)" by simp
  show "Mgr_shutting m \<Longrightarrow> fst (Reconcile listen eps m) = m" by (simp add: Reconcile_def)
  show "Mgr_shutting (fst (Reconcile listen eps m)) = Mgr_shutting m" by simp
  show "valid_ep (Mgr_cfg m) ep \<Longrightarrow> Is4 (Ep_VIP ep) \<and> IsLoopback (Ep_VIP ep) \<and> Ep_TargetHost ep = loopback4 \<and> Ep_TargetBind ep \<noteq> 0"
    by (simp add: valid_ep_def vip_allowed_def)
  assume inv: "mgr_inv m" "\<not> Mgr_shutting m"
  show "\<exists>ep. List.find (\<lambda>ep. valid_ep (Mgr_cfg m) ep \<and> Ep_VIP ep = v \<and> Ep_PublicPort ep = p) (rev eps) = Some ep \<and> b = backend_of ep"
    if v: "Is4 v" and s: "serves (fst (Reconcile listen eps m)) v p = Some b"
  proof -
    from s obtain ml where ml: "map_of (Mgr_listeners (fst (Reconcile listen eps m))) (listenerKey v p ProtocolTCP) = Some ml"
      "b = ML_backend ml" by (auto simp: serves_def)
    from Reconcile_backend [OF inv ml(1)] obtain ep where
      "map_of (desired_eps (Mgr_cfg m) eps) (listenerKey v p ProtocolTCP) = Some ep" "ML_backend ml = backend_of ep" by blast
    then obtain e where e: "List.find (\<lambda>ep. ep_key ep = listenerKey v p ProtocolTCP) (rev (filter (valid_ep (Mgr_cfg m)) eps)) = Some e"
      "b = backend_of e"
      using ml(2) by (auto simp: map_of_put_eps norm_ep_def backend_of_def split: option.splits)
    have "valid_ep (Mgr_cfg m) ep \<and> ep_key ep = listenerKey v p ProtocolTCP \<longleftrightarrow>
        valid_ep (Mgr_cfg m) ep \<and> Ep_VIP ep = v \<and> Ep_PublicPort ep = p" for ep
      using v listenerKey_inject [of "Ep_VIP ep" v] by (auto simp: ep_key_def valid_ep_def vip_allowed_def)
    with e show ?thesis by (simp add: rev_filter find_filter)
  qed
  show "serves (fst (Reconcile listen eps m)) (Ep_VIP ep) (Ep_PublicPort ep) \<noteq> None"
    if ep: "ep \<in> set eps" "valid_ep (Mgr_cfg m) ep"
      and l: "listen (JoinHostPort (Addr_String (Ep_VIP ep)) (dec (unat (Ep_PublicPort ep)))) = Some ip" "\<not> IsUnspecified ip" for ip
  proof -
    from ep have "List.find (\<lambda>e. ep_key e = ep_key ep) (rev (filter (valid_ep (Mgr_cfg m)) eps)) \<noteq> None"
      by (auto simp: find_None_iff)
    then obtain e where e: "List.find (\<lambda>e. ep_key e = ep_key ep) (rev (filter (valid_ep (Mgr_cfg m)) eps)) = Some e" by blast
    then have "valid_ep (Mgr_cfg m) e" "ep_key e = ep_key ep" using find_Some_in [OF e] by auto
    then have same: "Ep_VIP e = Ep_VIP ep" "Ep_PublicPort e = Ep_PublicPort ep"
      using ep(2) listenerKey_inject [of "Ep_VIP e" "Ep_VIP ep"] by (auto simp: ep_key_def valid_ep_def vip_allowed_def)
    have "serve_ep listen (Mgr_rootCancelled m) (norm_ep e) old \<noteq> None" for old
      using startListenerLocked_works [of listen "norm_ep e" ip "Mgr_rootCancelled m"] l same
      by (auto simp: serve_ep_def norm_ep_def split: option.splits)
    then show ?thesis
      using e by (auto simp: serves_def Reconcile_listener [OF inv] map_of_put_eps ep_key_def)
  qed
  show "serves (fst (Reconcile listen eps m)) v p \<noteq> None"
    if s: "serves m v p \<noteq> None" and ex: "\<exists>ep\<in>set eps. valid_ep (Mgr_cfg m) ep \<and> Ep_VIP ep = v \<and> Ep_PublicPort ep = p"
  proof -
    from ex have "List.find (\<lambda>ep. ep_key ep = listenerKey v p ProtocolTCP) (rev (filter (valid_ep (Mgr_cfg m)) eps)) \<noteq> None"
      by (auto simp: find_None_iff ep_key_def)
    then obtain ep where "map_of (desired_eps (Mgr_cfg m) eps) (listenerKey v p ProtocolTCP) = Some ep"
      by (auto simp: map_of_put_eps)
    with s show ?thesis by (auto simp: serves_def Reconcile_listener [OF inv] serve_ep_def)
  qed
qed

section \<open>Connections\<close>

text \<open>
  The accept loops of all listeners run at the same time and share the counter \<open>conns\<close>.  A
  loop that has added one to it holds the value it saw (\<open>checking\<close>, with its listener's key);
  an admitted connection is served by its own goroutine (\<open>running\<close>).  Any number of loops may
  be between the addition and the test, two of one key included: the loop of a stopped listener,
  which \<open>stopListenerLocked\<close> does not wait for without end, beside the loop of its successor.
  \<open>nobackend\<close> is the branch of a listener that has no backend stored.
\<close>

record conn_state =
  cs_conns :: int
  cs_checking :: "(string \<times> int) list"
  cs_running :: "string list"

inductive conn_step :: "int \<Rightarrow> conn_state \<Rightarrow> conn_state \<Rightarrow> bool" for maxConns where
  accept: "conn_step maxConns s (s\<lparr>cs_conns := cs_conns s + 1, cs_checking := (key, cs_conns s + 1) # cs_checking s\<rparr>)"
| reject: "cs_checking s = xs @ (key, cur) # ys \<Longrightarrow> maxConns < cur \<Longrightarrow>
    conn_step maxConns s (s\<lparr>cs_conns := cs_conns s - 1, cs_checking := xs @ ys\<rparr>)"
| nobackend: "cs_checking s = xs @ (key, cur) # ys \<Longrightarrow> \<not> maxConns < cur \<Longrightarrow>
    conn_step maxConns s (s\<lparr>cs_conns := cs_conns s - 1, cs_checking := xs @ ys\<rparr>)"
| start: "cs_checking s = xs @ (key, cur) # ys \<Longrightarrow> \<not> maxConns < cur \<Longrightarrow>
    conn_step maxConns s (s\<lparr>cs_checking := xs @ ys, cs_running := key # cs_running s\<rparr>)"
| finish: "cs_running s = xs @ key # ys \<Longrightarrow>
    conn_step maxConns s (s\<lparr>cs_conns := cs_conns s - 1, cs_running := xs @ ys\<rparr>)"

inductive conn_reach :: "int \<Rightarrow> conn_state \<Rightarrow> bool" for maxConns where
  init: "conn_reach maxConns \<lparr>cs_conns = 0, cs_checking = [], cs_running = []\<rparr>"
| step: "conn_reach maxConns s \<Longrightarrow> conn_step maxConns s s' \<Longrightarrow> conn_reach maxConns s'"

inductive_cases conn_stepE: "conn_step maxConns s s'"

definition admitted :: "int \<Rightarrow> conn_state \<Rightarrow> nat" where
  "admitted maxConns s = length (filter (\<lambda>(_, cur). cur \<le> maxConns) (cs_checking s))"

definition conn_inv :: "int \<Rightarrow> conn_state \<Rightarrow> bool" where
  "conn_inv maxConns s \<longleftrightarrow>
     cs_conns s = int (length (cs_running s)) + int (length (cs_checking s))
     \<and> int (length (cs_running s)) + int (admitted maxConns s) \<le> max 0 maxConns"

lemma conn_step_inv: "conn_step maxConns s s' \<Longrightarrow> conn_inv maxConns s \<Longrightarrow> conn_inv maxConns s'"
proof (erule conn_stepE)
  fix key
  assume s': "s' = s\<lparr>cs_conns := cs_conns s + 1, cs_checking := (key, cs_conns s + 1) # cs_checking s\<rparr>"
    and inv: "conn_inv maxConns s"
  have "admitted maxConns s' = (if cs_conns s + 1 \<le> maxConns then 1 else 0) + admitted maxConns s"
    by (simp add: s' admitted_def)
  moreover have "admitted maxConns s \<le> length (cs_checking s)" by (simp add: admitted_def)
  ultimately show "conn_inv maxConns s'" using inv by (auto simp: s' conn_inv_def)
qed (auto simp: conn_inv_def admitted_def)

lemma conn_reach_inv: "conn_reach maxConns s \<Longrightarrow> conn_inv maxConns s"
proof (induction rule: conn_reach.induct)
  case init
  show ?case by (simp add: conn_inv_def admitted_def)
qed (rule conn_step_inv)

text \<open>
  \<open>handleConn\<close> with the result of its dial: the dialled socket's remote address is not a TCP
  address (\<^const>\<open>None\<close>), or has an IP that may be malformed.
\<close>

datatype dial_result = DialErr | Dialed "addr option option"

datatype conn_outcome = NotDialed | DialFailed string | BadRemote string | Proxied string

fun Unmap :: "addr \<Rightarrow> addr" where
  "Unmap (Addr6 w z) = (if is4in6 w then Addr4 (ucast w) else Addr6 w z)"
| "Unmap a = a"

definition handleConn :: "(string \<Rightarrow> dial_result) \<Rightarrow> backendTarget \<Rightarrow> conn_outcome" where
  "handleConn dial backend =
     (case validateLoopbackBackend (BT_host backend) (BT_port backend) of
        Some _ \<Rightarrow> NotDialed
      | None \<Rightarrow>
          let a = backend_addr backend in
          (case dial a of
             DialErr \<Rightarrow> DialFailed a
           | Dialed None \<Rightarrow> Proxied a
           | Dialed (Some None) \<Rightarrow> BadRemote a
           | Dialed (Some (Some ip)) \<Rightarrow> if Addr_String (Unmap ip) \<noteq> ''127.0.0.1'' then BadRemote a else Proxied a))"

section \<open>Copying\<close>

datatype io_err = EOF | ErrShortWrite | IOErr nat

text \<open>
  \<open>copyStream\<close> on the results of its reads and writes: the bytes it has written, and its
  result once it has one (\<^const>\<open>None\<close> inside is success).  It waits where a sequence ends.
\<close>

fun copyStream :: "(string \<times> io_err option) list \<Rightarrow> (nat \<times> io_err option) list \<Rightarrow> string \<times> io_err option option" where
  "copyStream [] ws = ([], None)"
| "copyStream ((d, er) # rs) ws =
     (if d \<noteq> [] then
        (case ws of
           [] \<Rightarrow> ([], None)
         | (nw, ew) # ws' \<Rightarrow>
             if ew \<noteq> None then (take nw d, Some ew)
             else if nw \<noteq> length d then (take nw d, Some (Some ErrShortWrite))
             else (case er of
                     Some e \<Rightarrow> (d, Some (if e = EOF then None else Some e))
                   | None \<Rightarrow> (case copyStream rs ws' of (out, res) \<Rightarrow> (d @ out, res))))
      else
        (case er of
           Some e \<Rightarrow> ([], Some (if e = EOF then None else Some e))
         | None \<Rightarrow> copyStream rs ws))"

text \<open>\<open>pipe\<close>: the bytes, the result, and whether the write side of a TCP destination is closed.\<close>

definition pipe :: "bool \<Rightarrow> (string \<times> io_err option) list \<Rightarrow> (nat \<times> io_err option) list \<Rightarrow> string \<times> io_err option option \<times> bool" where
  "pipe dstIsTCP rs ws = (case copyStream rs ws of (out, res) \<Rightarrow> (out, res, dstIsTCP \<and> res \<noteq> None))"

text \<open>
  The wait of \<open>handleProxy\<close>: a direction finishes or the context is cancelled.  When it
  returns, the deferred cancellation closes both connections.
\<close>

datatype proxy_event = DirectionDone | CtxCancelled

fun proxyWait :: "nat \<Rightarrow> proxy_event list \<Rightarrow> bool" where
  "proxyWait 0 es = True"
| "proxyWait (Suc n) [] = False"
| "proxyWait (Suc n) (DirectionDone # es) = proxyWait n es"
| "proxyWait (Suc n) (CtxCancelled # es) = True"

record conn_pair =
  cp_clientClosed :: bool
  cp_serverClosed :: bool

definition handleProxy :: "proxy_event list \<Rightarrow> conn_pair" where
  "handleProxy es = (let returned = proxyWait 2 es; cancelled = CtxCancelled \<in> set es in
     \<lparr>cp_clientClosed = (returned \<or> cancelled), cp_serverClosed = (returned \<or> cancelled)\<rparr>)"

lemma copyStream_prefix: "prefix (fst (copyStream rs ws)) (concat (map fst rs))"
proof (induction rs ws rule: copyStream.induct)
  case (2 d er rs ws)
  then show ?case
    by (auto simp: take_is_prefix prefix_prefix case_prod_unfold split: list.splits option.splits)
qed simp

lemma copyStream_success:
  assumes "copyStream rs ws = (out, Some None)"
  shows "\<exists>xs d ys. rs = xs @ (d, Some EOF) # ys \<and> out = concat (map fst xs) @ d \<and> (\<forall>x\<in>set xs. snd x = None)"
  using assms
proof (induction rs ws arbitrary: out rule: copyStream.induct)
  case (2 d er rs ws)
  show ?case
  proof (cases er)
    case (Some e)
    with 2(3) have "e = EOF" "out = d" by (auto split: if_splits list.splits prod.splits)
    with Some show ?thesis by (intro exI [of _ "[]"] exI [of _ d] exI [of _ rs]) simp
  next
    case None
    from 2(3) None obtain ws' out' where r: "copyStream rs ws' = (out', Some None)" "out = d @ out'"
      "d \<noteq> [] \<longrightarrow> (\<exists>nw. ws = (nw, None) # ws' \<and> nw = length d)" "d = [] \<longrightarrow> ws' = ws"
      by (auto split: if_splits list.splits prod.splits option.splits)
    have "\<exists>xs c ys. rs = xs @ (c, Some EOF) # ys \<and> out' = concat (map fst xs) @ c \<and> (\<forall>x\<in>set xs. snd x = None)"
    proof (cases "d = []")
      case True
      then show ?thesis using 2(2) [OF _ None] r by auto
    next
      case False
      with r(3) obtain nw where "ws = (nw, None) # ws'" "nw = length d" by blast
      then show ?thesis using 2(1) [of "(nw, None)" ws' nw None] False None r(1) by auto
    qed
    then obtain xs c ys where "rs = xs @ (c, Some EOF) # ys" "out' = concat (map fst xs) @ c" "\<forall>x\<in>set xs. snd x = None"
      by blast
    with None r(2) show ?thesis by (intro exI [of _ "(d, None) # xs"] exI [of _ c] exI [of _ ys]) auto
  qed
qed simp

section \<open>Reconcile and Shutdown at the same time\<close>

text \<open>
  \<open>Reconcile\<close> reads \<open>shutting\<close> before it takes the lock, and \<open>Shutdown\<close> sets it before it takes
  the lock.  A state of the two: the manager, what a \<open>Reconcile\<close> that has passed its check is
  about to do, and how far \<open>Shutdown\<close> has come.
\<close>

datatype shut_pc = ShutIdle | ShutSwapped | ShutDone

record par_state =
  ps_m :: ManagerImpl
  ps_rec :: "((string, Endpoint) gomap \<times> proxy_error option) option"
  ps_shut :: shut_pc

inductive mgr_par :: "(string \<Rightarrow> addr option) \<Rightarrow> par_state \<Rightarrow> par_state \<Rightarrow> bool" for listen where
  rec_check: "ps_rec s = None \<Longrightarrow> \<not> Mgr_shutting (ps_m s) \<Longrightarrow>
    mgr_par listen s (s\<lparr>ps_rec := Some (collectDesired (Mgr_cfg (ps_m s)) eps ([], None))\<rparr>)"
| rec_locked: "ps_rec s = Some d \<Longrightarrow>
    mgr_par listen s (s\<lparr>ps_m := fst (reconcileLocked listen d (ps_m s)), ps_rec := None\<rparr>)"
| shut_swap: "ps_shut s = ShutIdle \<Longrightarrow>
    mgr_par listen s (s\<lparr>ps_m := (ps_m s)\<lparr>Mgr_shutting := True, Mgr_rootCancelled := True\<rparr>, ps_shut := ShutSwapped\<rparr>)"
| shut_locked: "ps_shut s = ShutSwapped \<Longrightarrow>
    mgr_par listen s (s\<lparr>ps_m := shutdownLocked (ps_m s), ps_shut := ShutDone\<rparr>)"

inductive_cases mgr_parE: "mgr_par listen s s'"

definition par_init :: "Config \<Rightarrow> par_state" where
  "par_init cfg = \<lparr>ps_m = NewManager cfg, ps_rec = None, ps_shut = ShutIdle\<rparr>"

text \<open>A single \<open>Shutdown\<close> without a \<open>Reconcile\<close> in flight leaves nothing behind.\<close>

lemma Manager_Shutdown_closes:
  assumes "\<not> Mgr_shutting m"
  shows "Mgr_listeners (fst (Manager_Shutdown w m)) = []"
    and "Mgr_stopped (fst (Manager_Shutdown w m)) = Mgr_stopped m @ map stopListenerLocked (govals (Mgr_listeners m))"
    and "Mgr_shutting (fst (Manager_Shutdown w m))"
  using assms by (simp_all add: Manager_Shutdown_def shutdownLocked_def case_prod_unfold)

text \<open>When both have returned after a shutdown, nothing can happen any more.\<close>

lemma par_final:
  assumes "ps_rec s = None" "ps_shut s = ShutDone" "Mgr_shutting (ps_m s)"
  shows "\<not> mgr_par listen s s'" and "Reconcile listen eps (ps_m s) = (ps_m s, Some ProxyShutDown)"
    and "Manager_Shutdown w (ps_m s) = (ps_m s, None)"
  using assms by (auto simp: Reconcile_def Manager_Shutdown_def elim: mgr_parE)

section \<open>Properties\<close>

text \<open>The managers that calls of \<open>Reconcile\<close> and \<open>Shutdown\<close>, one after the other, can lead to.\<close>

inductive mgr_reach :: "ManagerImpl \<Rightarrow> bool" where
  new: "mgr_reach (NewManager cfg)"
| rec: "mgr_reach m \<Longrightarrow> Reconcile listen eps m = (m', e) \<Longrightarrow> mgr_reach m'"
| shut: "mgr_reach m \<Longrightarrow> Manager_Shutdown w m = (m', e) \<Longrightarrow> mgr_reach m'"

lemma mgr_reach_inv: "mgr_reach m \<Longrightarrow> mgr_inv m"
proof (induction rule: mgr_reach.induct)
  case (rec m listen eps m' e)
  then show ?case using Reconcile_inv [of m listen eps] by simp
next
  case (shut m w m' e)
  then show ?case using Manager_Shutdown_inv [of m w] by simp
qed (rule NewManager_inv)

definition example_proxy_cfg :: Config where
  "example_proxy_cfg = \<lparr>PC_DialTimeout = 0, PC_IdleTimeout = 0, PC_ShutdownTimeout = 0, PC_MaxConns = 0,
     PC_VIPPool = None, PC_IsAllowedVIP = None\<rparr>"

definition example_ep :: Endpoint where
  "example_ep = \<lparr>Ep_StackKey = ''shop'', Ep_Name = ''web'', Ep_FQDN = ''web.shop.test'', Ep_Protocol = '''',
     Ep_VIP = Addr4 0x7F4D0009, Ep_PublicPort = 80, Ep_TargetPort = 80, Ep_TargetHost = loopback4,
     Ep_TargetBind = 4001, Ep_ContainerID = ''a1'', Ep_ServiceName = ''s''\<rparr>"

definition example_listen :: "string \<Rightarrow> addr option" where
  "example_listen a = Some (Addr4 0x7F4D0009)"

definition example_mgr :: ManagerImpl where
  "example_mgr = fst (Reconcile example_listen [example_ep] (NewManager example_proxy_cfg))"

lemma example_mgr_reach: "mgr_reach example_mgr"
  unfolding example_mgr_def by (rule mgr_reach.rec [OF mgr_reach.new prod.collapse [symmetric]])

lemma example_mgr_listeners:
  "map_of (Mgr_listeners example_mgr) ''127.77.0.9|80|tcp'' =
     Some \<lparr>ML_key = ''127.77.0.9|80|tcp'', ML_vip = Addr4 0x7F4D0009, ML_port = 80, ML_protocol = ''tcp'',
           ML_local = Addr4 0x7F4D0009, ML_open = True, ML_cancelled = False,
           ML_backend = \<lparr>BT_host = Addr4 0x7F000001, BT_port = 4001\<rparr>\<rparr>"
  by code_simp

lemma valid_example_ep: "valid_ep example_proxy_cfg example_ep"
  by (simp add: valid_ep_def vip_allowed_def example_ep_def example_proxy_cfg_def byte_at_def)

text \<open>
  C8 (safety).  In every manager that calls of \<open>Reconcile\<close> and \<open>Shutdown\<close> lead to, a listener is
  bound to an IPv4 loopback VIP inside the configured pool and allowed by the policy, on a
  port other than 0 and not to the wildcard address, and forwards to a port of 127.0.0.1;
  listeners that have left the manager are closed.
\<close>

theorem proxy_listeners_safe:
  assumes "mgr_reach m"
  shows "(\<forall>k ml. map_of (Mgr_listeners m) k = Some ml \<longrightarrow>
      vip_allowed (Mgr_cfg m) (ML_vip ml) \<and> ML_port ml \<noteq> 0 \<and> \<not> IsUnspecified (ML_local ml)
      \<and> BT_host (ML_backend ml) = loopback4 \<and> BT_port (ML_backend ml) \<noteq> 0)
    \<and> (\<forall>ml. ml \<in> set (Mgr_stopped m) \<longrightarrow> \<not> ML_open ml)"
  using mgr_reach_inv [OF assms] by (auto simp: mgr_inv_def listener_ok_def)

theorem proxy_listeners_safe_witness:
  "vip_allowed (Mgr_cfg example_mgr) (Addr4 0x7F4D0009)"
  using proxy_listeners_safe [OF example_mgr_reach] example_mgr_listeners by fastforce

lemma Reconcile_effect_facts:
  assumes "mgr_reach m" "\<not> Mgr_shutting m" "Reconcile listen eps m = (m', e)"
  shows "map_of (Mgr_listeners m') k =
      (case List.find (\<lambda>ep. listenerKey (Ep_VIP ep) (Ep_PublicPort ep) ProtocolTCP = k) (rev (filter (valid_ep (Mgr_cfg m)) eps)) of
         None \<Rightarrow> None
       | Some ep \<Rightarrow>
           (case map_of (Mgr_listeners m) k of
              Some ml \<Rightarrow> Some (ml\<lparr>ML_backend := \<lparr>BT_host = Ep_TargetHost ep, BT_port = Ep_TargetBind ep\<rparr>\<rparr>)
            | None \<Rightarrow> (case startListenerLocked listen (Mgr_rootCancelled m) (ep\<lparr>Ep_Protocol := ProtocolTCP\<rparr>) of
                         Inl _ \<Rightarrow> None | Inr ml \<Rightarrow> Some ml)))"
    and "map_of (Mgr_listeners m) k = Some ml \<Longrightarrow> map_of (Mgr_listeners m') k = None \<Longrightarrow>
      ml\<lparr>ML_cancelled := True, ML_open := False\<rparr> \<in> set (Mgr_stopped m')"
proof -
  note inv = mgr_reach_inv [OF assms(1)]
  note l = Reconcile_listener [OF inv assms(2), of listen eps]
  show eff: "map_of (Mgr_listeners m') k =
      (case List.find (\<lambda>ep. listenerKey (Ep_VIP ep) (Ep_PublicPort ep) ProtocolTCP = k) (rev (filter (valid_ep (Mgr_cfg m)) eps)) of
         None \<Rightarrow> None
       | Some ep \<Rightarrow>
           (case map_of (Mgr_listeners m) k of
              Some ml \<Rightarrow> Some (ml\<lparr>ML_backend := \<lparr>BT_host = Ep_TargetHost ep, BT_port = Ep_TargetBind ep\<rparr>\<rparr>)
            | None \<Rightarrow> (case startListenerLocked listen (Mgr_rootCancelled m) (ep\<lparr>Ep_Protocol := ProtocolTCP\<rparr>) of
                         Inl _ \<Rightarrow> None | Inr ml \<Rightarrow> Some ml)))"
    using l(1) [of k] assms(3)
    by (simp add: map_of_put_eps serve_ep_def norm_ep_def ep_key_def backend_of_def split: option.splits)
  show "ml\<lparr>ML_cancelled := True, ML_open := False\<rparr> \<in> set (Mgr_stopped m')"
    if "map_of (Mgr_listeners m) k = Some ml" "map_of (Mgr_listeners m') k = None"
  proof -
    have "map_of (desired_eps (Mgr_cfg m) eps) k = None"
      using l(1) [of k] that assms(3) by (cases "map_of (desired_eps (Mgr_cfg m) eps) k") (simp_all add: serve_ep_def)
    then have "ml \<in> set (stale (desired_eps (Mgr_cfg m) eps) m)"
      using map_of_SomeD [OF that(1)] by (force simp: stale_def)
    then show ?thesis using l(2) assms(3) by (simp add: stopListenerLocked_def)
  qed
qed

text \<open>
  C17 (functional).  \<open>Reconcile\<close> on a live manager: the listener of a key exists afterwards only
  if a valid endpoint has that key, the last such endpoint counting; a listener that was there
  is kept with its socket and gets the new backend, a missing one is started unless the listen
  fails, and the listeners of all other keys are stopped.
\<close>

theorem Reconcile_effect:
  assumes "mgr_reach m" "\<not> Mgr_shutting m" "Reconcile listen eps m = (m', e)"
  shows "map_of (Mgr_listeners m') k =
      (case List.find (\<lambda>ep. listenerKey (Ep_VIP ep) (Ep_PublicPort ep) ProtocolTCP = k) (rev (filter (valid_ep (Mgr_cfg m)) eps)) of
         None \<Rightarrow> None
       | Some ep \<Rightarrow>
           (case map_of (Mgr_listeners m) k of
              Some ml \<Rightarrow> Some (ml\<lparr>ML_backend := \<lparr>BT_host = Ep_TargetHost ep, BT_port = Ep_TargetBind ep\<rparr>\<rparr>)
            | None \<Rightarrow> (case startListenerLocked listen (Mgr_rootCancelled m) (ep\<lparr>Ep_Protocol := ProtocolTCP\<rparr>) of
                         Inl _ \<Rightarrow> None | Inr ml \<Rightarrow> Some ml)))
    \<and> (\<forall>ml. map_of (Mgr_listeners m) k = Some ml \<and> map_of (Mgr_listeners m') k = None \<longrightarrow>
         ml\<lparr>ML_cancelled := True, ML_open := False\<rparr> \<in> set (Mgr_stopped m'))"
  using Reconcile_effect_facts [OF assms] by blast

theorem Reconcile_effect_witness:
  "map_of (Mgr_listeners (fst (Reconcile example_listen [] example_mgr))) ''127.77.0.9|80|tcp'' = None
   \<and> (\<exists>ml\<in>set (Mgr_stopped (fst (Reconcile example_listen [] example_mgr))). ML_vip ml = Addr4 0x7F4D0009 \<and> \<not> ML_open ml)"
proof -
  have n: "\<not> Mgr_shutting example_mgr" by code_simp
  note eff = Reconcile_effect [OF example_mgr_reach n prod.collapse [symmetric], where k = "''127.77.0.9|80|tcp''" and eps = "[]"]
  then have e1: "map_of (Mgr_listeners (fst (Reconcile example_listen [] example_mgr))) ''127.77.0.9|80|tcp'' = None" by simp
  have stopped: "\<exists>ml\<in>S. ML_vip ml = v \<and> \<not> ML_open ml" if "x \<in> S" "ML_vip x = v" "\<not> ML_open x" for x :: managedListener and S v
    using that by blast
  show ?thesis
    using e1 by (intro conjI stopped [OF conjunct2 [OF eff, rule_format, OF conjI, OF example_mgr_listeners e1]]) simp_all
qed

text \<open>
  \<open>Reconcile\<close> is idempotent: repeating it with the same endpoints, while the
  system answers listens in the same way, changes nothing, so that the periodic reconcile
  never restarts a listener.
\<close>

theorem Reconcile_idempotent:
  assumes "mgr_reach m"
  shows "fst (Reconcile listen eps (fst (Reconcile listen eps m))) = fst (Reconcile listen eps m)"
  using mgr_reach_inv [OF assms] by (rule Reconcile_idem)

theorem Reconcile_idempotent_witness:
  "fst (Reconcile example_listen [example_ep] example_mgr) = example_mgr"
  using Reconcile_idempotent [OF mgr_reach.new] unfolding example_mgr_def .

text \<open>
  C19 (safety).  A listener that is started while a \<open>Shutdown\<close> runs can survive it: for every
  valid endpoint whose listen succeeds there is an interleaving of one \<open>Reconcile\<close> and one
  \<open>Shutdown\<close> after which both have returned, the manager is shut down, the endpoint's listener
  is open, and no further call can close it.
\<close>

theorem Reconcile_Shutdown_leak:
  assumes "valid_ep (withDefaults cfg) ep"
    and "listen (JoinHostPort (Addr_String (Ep_VIP ep)) (dec (unat (Ep_PublicPort ep)))) = Some ip" "\<not> IsUnspecified ip"
  shows "\<exists>s ml. (mgr_par listen)\<^sup>*\<^sup>* (par_init cfg) s \<and> ps_rec s = None \<and> ps_shut s = ShutDone
    \<and> Mgr_shutting (ps_m s) \<and> map_of (Mgr_listeners (ps_m s)) (ep_key ep) = Some ml \<and> ML_open ml
    \<and> (\<forall>s'. \<not> mgr_par listen s s')
    \<and> (\<forall>eps. Reconcile listen eps (ps_m s) = (ps_m s, Some ProxyShutDown)) \<and> (\<forall>w. Manager_Shutdown w (ps_m s) = (ps_m s, None))"
proof -
  let ?d = "collectDesired (withDefaults cfg) [ep] ([], None)" and ?i = "par_init cfg"
  let ?s1 = "?i\<lparr>ps_rec := Some ?d\<rparr>"
  let ?s2 = "?s1\<lparr>ps_m := (ps_m ?s1)\<lparr>Mgr_shutting := True, Mgr_rootCancelled := True\<rparr>, ps_shut := ShutSwapped\<rparr>"
  let ?s3 = "?s2\<lparr>ps_m := shutdownLocked (ps_m ?s2), ps_shut := ShutDone\<rparr>"
  let ?s4 = "?s3\<lparr>ps_m := fst (reconcileLocked listen ?d (ps_m ?s3)), ps_rec := None\<rparr>"
  have cfg: "Mgr_cfg (ps_m ?i) = withDefaults cfg" by (simp add: par_init_def NewManager_def)
  have "ps_rec ?i = None" "\<not> Mgr_shutting (ps_m ?i)" by (simp_all add: par_init_def NewManager_def)
  from mgr_par.rec_check [OF this, of listen "[ep]"] have "mgr_par listen ?i ?s1" unfolding cfg .
  moreover have "mgr_par listen ?s1 ?s2" by (rule mgr_par.shut_swap) (simp add: par_init_def)
  moreover have "mgr_par listen ?s2 ?s3" by (rule mgr_par.shut_locked) simp
  moreover have "mgr_par listen ?s3 ?s4" by (rule mgr_par.rec_locked) simp
  ultimately have reach: "(mgr_par listen)\<^sup>*\<^sup>* ?i ?s4" by (meson rtranclp.rtrancl_into_rtrancl rtranclp.rtrancl_refl)
  have "fst ?d = [(ep_key ep, norm_ep ep)]"
    unfolding collectDesired_fst using assms(1) by (simp add: put_ep_def)
  then have d: "?d = ([(ep_key ep, norm_ep ep)], snd ?d)" by (metis prod.collapse)
  have "listen (JoinHostPort (Addr_String (Ep_VIP (norm_ep ep))) (dec (unat (Ep_PublicPort (norm_ep ep))))) = Some ip"
    using assms(2) by (simp add: norm_ep_def)
  from startListenerLocked_works [of listen "norm_ep ep", OF this assms(3)] obtain ml where
    ml: "startListenerLocked listen True (norm_ep ep) = Inr ml" "ML_open ml" by blast
  have m4: "ps_m ?s4 = (ps_m ?s3)\<lparr>Mgr_listeners := [(ep_key ep, ml)]\<rparr>"
    by (subst d) (simp add: reconcileLocked_def removeStale_def shutdownLocked_def par_init_def NewManager_def ml(1))
  have sh: "Mgr_shutting (ps_m ?s4)" using m4 by (simp add: shutdownLocked_def)
  have "map_of (Mgr_listeners (ps_m ?s4)) (ep_key ep) = Some ml" using m4 by simp
  moreover have "ps_rec ?s4 = None" "ps_shut ?s4 = ShutDone" by simp_all
  ultimately show ?thesis using reach ml(2) sh par_final by metis
qed

theorem Reconcile_Shutdown_leak_witness:
  "\<exists>s ml. (mgr_par example_listen)\<^sup>*\<^sup>* (par_init example_proxy_cfg) s \<and> ps_shut s = ShutDone
    \<and> map_of (Mgr_listeners (ps_m s)) (ep_key example_ep) = Some ml \<and> ML_open ml"
proof -
  have "valid_ep (withDefaults example_proxy_cfg) example_ep"
    using valid_example_ep by (simp add: valid_ep_def vip_allowed_def withDefaults_def example_proxy_cfg_def)
  from Reconcile_Shutdown_leak [OF this, of example_listen "Addr4 0x7F4D0009"]
  show ?thesis by (auto simp: example_listen_def)
qed

lemma conns_bounded_facts:
  assumes "conn_reach (PC_MaxConns (withDefaults cfg)) s"
  shows "int (length (cs_running s)) \<le> PC_MaxConns (withDefaults cfg)"
    and "cs_conns s = int (length (cs_running s)) + int (length (cs_checking s))"
proof -
  have "0 < PC_MaxConns (withDefaults cfg)" by (simp add: withDefaults_def)
  then show "int (length (cs_running s)) \<le> PC_MaxConns (withDefaults cfg)"
    "cs_conns s = int (length (cs_running s)) + int (length (cs_checking s))"
    using conn_reach_inv [OF assms] by (simp_all add: conn_inv_def)
qed

text \<open>
  C18 (bounds).  However the accept loops of the listeners interleave, never more than
  \<open>MaxConns\<close> connections are proxied at the same time, and the shared counter is the number
  of those connections and of the loops between their increment and their decision.
\<close>

theorem conns_bounded:
  assumes "conn_reach (PC_MaxConns (withDefaults cfg)) s"
  shows "int (length (cs_running s)) \<le> PC_MaxConns (withDefaults cfg)
    \<and> cs_conns s = int (length (cs_running s)) + int (length (cs_checking s))"
  using conns_bounded_facts [OF assms] by blast

theorem conns_bounded_witness:
  "\<exists>s. conn_reach 1024 s \<and> cs_running s = [''127.77.0.9|80|tcp''] \<and> int (length (cs_running s)) \<le> 1024"
proof -
  let ?i = "\<lparr>cs_conns = 0, cs_checking = [], cs_running = []\<rparr>"
  let ?a = "\<lparr>cs_conns = 1, cs_checking = [(''127.77.0.9|80|tcp'', 1)], cs_running = []\<rparr>"
  let ?r = "\<lparr>cs_conns = 1, cs_checking = [], cs_running = [''127.77.0.9|80|tcp'']\<rparr>"
  have m: "PC_MaxConns (withDefaults example_proxy_cfg) = 1024" by (simp add: withDefaults_def example_proxy_cfg_def)
  have "conn_step 1024 ?i ?a" using conn_step.accept [of 1024 ?i "''127.77.0.9|80|tcp''"] by simp
  moreover have "conn_step 1024 ?a ?r" using conn_step.start [of ?a "[]" "''127.77.0.9|80|tcp''" 1 "[]" 1024] by simp
  ultimately have r: "conn_reach 1024 ?r" by (meson conn_reach.intros)
  then show ?thesis using conns_bounded [of example_proxy_cfg ?r] m by (intro exI [of _ ?r]) simp
qed

lemma handleConn_loopback_only_facts:
  "handleConn dial backend \<noteq> NotDialed \<longleftrightarrow> BT_host backend = loopback4 \<and> BT_port backend \<noteq> 0"
  "handleConn dial backend = Proxied a \<Longrightarrow>
     a = ''127.0.0.1:'' @ dec (unat (BT_port backend))
     \<and> (\<forall>remote. dial a = Dialed (Some remote) \<longrightarrow> (\<exists>ip. remote = Some ip \<and> Addr_String (Unmap ip) = ''127.0.0.1''))"
proof -
  have a: "backend_addr backend = ''127.0.0.1:'' @ dec (unat (BT_port backend))" if "BT_host backend = loopback4"
    using that by (simp add: backend_addr_def JoinHostPort_def loopback4_def string4_loopback)
  show "handleConn dial backend \<noteq> NotDialed \<longleftrightarrow> BT_host backend = loopback4 \<and> BT_port backend \<noteq> 0"
  proof (cases "validateLoopbackBackend (BT_host backend) (BT_port backend)")
    case None
    then have "BT_host backend = loopback4 \<and> BT_port backend \<noteq> 0" by simp
    then show ?thesis
      using None by (simp add: handleConn_def Let_def split: option.splits dial_result.splits)
  next
    case (Some x)
    then have "\<not> (BT_host backend = loopback4 \<and> BT_port backend \<noteq> 0)"
      using validateLoopbackBackend_None_iff [of "BT_host backend" "BT_port backend"] by auto
    then show ?thesis using Some by (simp add: handleConn_def)
  qed
  show "a = ''127.0.0.1:'' @ dec (unat (BT_port backend))
     \<and> (\<forall>remote. dial a = Dialed (Some remote) \<longrightarrow> (\<exists>ip. remote = Some ip \<and> Addr_String (Unmap ip) = ''127.0.0.1''))"
    if h: "handleConn dial backend = Proxied a"
  proof -
    have v: "validateLoopbackBackend (BT_host backend) (BT_port backend) = None"
      using h by (auto simp: handleConn_def simp del: validateLoopbackBackend_None_iff split: option.splits)
    then have "BT_host backend = loopback4" by simp
    note eq = a [OF this]
    show ?thesis
      using h v by (auto simp: handleConn_def eq Let_def simp del: validateLoopbackBackend_None_iff
          split: option.splits dial_result.splits if_splits)
  qed
qed

text \<open>
  A connection is dialled and proxied only to 127.0.0.1: \<open>handleConn\<close> dials at
  most the address \<open>127.0.0.1:port\<close> of its backend with a port other than 0, and proxies only
  if the socket's remote IP, when it is a TCP address, is 127.0.0.1.
\<close>

theorem handleConn_loopback_only:
  "(handleConn dial backend \<noteq> NotDialed \<longleftrightarrow> BT_host backend = loopback4 \<and> BT_port backend \<noteq> 0)
    \<and> (\<forall>a. handleConn dial backend = Proxied a \<longrightarrow>
        a = ''127.0.0.1:'' @ dec (unat (BT_port backend))
        \<and> (\<forall>remote. dial a = Dialed (Some remote) \<longrightarrow> (\<exists>ip. remote = Some ip \<and> Addr_String (Unmap ip) = ''127.0.0.1'')))"
  using handleConn_loopback_only_facts by blast

theorem handleConn_loopback_only_witness:
  "handleConn (\<lambda>_. Dialed (Some (Some (Addr4 0x7F000001)))) \<lparr>BT_host = loopback4, BT_port = 4001\<rparr> \<noteq> NotDialed"
  using handleConn_loopback_only [of "\<lambda>_. Dialed (Some (Some (Addr4 0x7F000001)))" "\<lparr>BT_host = loopback4, BT_port = 4001\<rparr>"]
  by simp

text \<open>
  The copy delivers a prefix of what was read, in order, and when it reports
  success it has delivered every byte that was read up to the end of the stream.
\<close>

theorem copyStream_faithful:
  "prefix (fst (copyStream rs ws)) (concat (map fst rs))
    \<and> (\<forall>out. copyStream rs ws = (out, Some None) \<longrightarrow>
        (\<exists>xs d ys. rs = xs @ (d, Some EOF) # ys \<and> out = concat (map fst xs) @ d \<and> (\<forall>x. x \<in> set xs \<longrightarrow> snd x = None)))"
  using copyStream_prefix copyStream_success by blast

theorem copyStream_faithful_witness:
  "\<exists>xs d ys. [(''ab'', None), ('''', None), (''c'', Some EOF)] = xs @ (d, Some EOF) # ys \<and> ''abc'' = concat (map fst xs) @ d
     \<and> (\<forall>x. x \<in> set xs \<longrightarrow> snd x = None)"
  using copyStream_faithful [of "[(''ab'', None), ('''', None), (''c'', Some EOF)]" "[(2, None), (1, None)]"] by simp

end
