(* ===== verification/Timefmt.thy ===== *)
theory Timefmt
  imports Golib "HOL-Library.Monad_Syntax"
begin

text \<open>
  What the program uses of Go's package \<open>time\<close>: the proleptic Gregorian calendar, the layouts
  \<open>RFC3339\<close> and \<open>RFC3339Nano\<close> in both directions, and \<open>ParseDuration\<close>.  A \<open>time.Time\<close> is the number
  of nanoseconds since the start of year 1, in UTC.
\<close>

section \<open>The calendar\<close>

definition isLeap :: "int \<Rightarrow> bool" where
  "isLeap y \<longleftrightarrow> y mod 4 = 0 \<and> (y mod 100 \<noteq> 0 \<or> y mod 400 = 0)"

definition monthLengths :: "int \<Rightarrow> int list" where
  "monthLengths y = [31, if isLeap y then 29 else 28, 31, 30, 31, 30, 31, 31, 30, 31, 30, 31]"

definition daysIn :: "nat \<Rightarrow> int \<Rightarrow> int" where
  "daysIn m y = monthLengths y ! (m - 1)"

text \<open>Days before the first of January of a year, counted from year 1.\<close>

definition daysBeforeYear :: "int \<Rightarrow> int" where
  "daysBeforeYear y = 365 * (y - 1) + (y - 1) div 4 - (y - 1) div 100 + (y - 1) div 400"

text \<open>\<open>time.Date\<close> in UTC, for fields within their ranges.\<close>

definition Date :: "int \<Rightarrow> nat \<Rightarrow> nat \<Rightarrow> nat \<Rightarrow> nat \<Rightarrow> nat \<Rightarrow> nat \<Rightarrow> gotime" where
  "Date y m d hour mi sec nsec =
     (let days = daysBeforeYear y + sum_list (take (m - 1) (monthLengths y)) + int d - 1
      in (days * 86400 + int hour * 3600 + int mi * 60 + int sec) * second + int nsec)"

text \<open>The year and the day of the year of a day; the month and the day of the month.\<close>

definition yearDay :: "int \<Rightarrow> int \<times> int" where
  "yearDay days =
     (let a = days div 146097; r = days mod 146097;
          c = min 3 (r div 36524); r2 = r - 36524 * c;
          q = r2 div 1461; r3 = r2 mod 1461;
          z = min 3 (r3 div 365)
      in (400 * a + 100 * c + 4 * q + z + 1, r3 - 365 * z))"

fun monthDay :: "int list \<Rightarrow> int \<Rightarrow> nat \<times> int" where
  "monthDay [] d = (0, d)"
| "monthDay (l # ls) d = (if d < l then (0, d) else case monthDay ls (d - l) of (m, d') \<Rightarrow> (Suc m, d'))"

section \<open>Formatting\<close>

definition pad :: "nat \<Rightarrow> nat \<Rightarrow> string" where
  "pad w n = replicate (w - length (dec n)) (CHR ''0'') @ dec n"

definition appendInt :: "int \<Rightarrow> nat \<Rightarrow> string" where
  "appendInt x w = (if x < 0 then CHR ''-'' # pad w (nat (- x)) else pad w (nat x))"

definition FormatRFC3339 :: "gotime \<Rightarrow> string" where
  "FormatRFC3339 t =
     (let secs = t div second; days = secs div 86400; s = nat (secs mod 86400);
          (y, yd) = yearDay days; (m, d) = monthDay (monthLengths y) yd
      in appendInt y 4 @ ''-'' @ pad 2 (Suc m) @ ''-'' @ pad 2 (nat d + 1) @ ''T''
         @ pad 2 (s div 3600) @ '':'' @ pad 2 (s mod 3600 div 60) @ '':'' @ pad 2 (s mod 60) @ ''Z'')"

section \<open>Parsing\<close>

text \<open>\<open>getnum\<close>: two digits, or one where the layout's field is not fixed.\<close>

fun getnum :: "bool \<Rightarrow> string \<Rightarrow> (nat \<times> string) option" where
  "getnum fixed [] = None"
| "getnum fixed [a] = (if is_digit a \<and> \<not> fixed then Some (digit_val a, []) else None)"
| "getnum fixed (a # b # s) =
     (if \<not> is_digit a then None
      else if is_digit b then Some (10 * digit_val a + digit_val b, s)
      else if fixed then None else Some (digit_val a, b # s))"

definition getyear :: "string \<Rightarrow> (nat \<times> string) option" where
  "getyear s = (if length s < 4 \<or> \<not> list_all is_digit (take 4 s) then None else Some (undec (take 4 s), drop 4 s))"

fun skipByte :: "char \<Rightarrow> string \<Rightarrow> string option" where
  "skipByte c [] = None"
| "skipByte c (x # s) = (if x = c then Some s else None)"

definition inRange :: "nat \<Rightarrow> nat \<Rightarrow> nat \<times> string \<Rightarrow> (nat \<times> string) option" where
  "inRange lo hi r = (if lo \<le> fst r \<and> fst r \<le> hi then Some r else None)"

text \<open>
  A fraction of a second may follow the seconds in both layouts, after a period or a comma; digits
  after the ninth are dropped.
\<close>

definition parseNanoseconds :: "string \<Rightarrow> nat" where
  "parseNanoseconds ds = undec (take 9 ds) * 10 ^ (9 - length (take 9 ds))"

definition getfrac :: "string \<Rightarrow> nat \<times> string" where
  "getfrac s =
     (if length s \<ge> 2 \<and> (hd s = CHR ''.'' \<or> hd s = CHR '','') \<and> is_digit (s ! 1)
      then (parseNanoseconds (takeWhile is_digit (tl s)), dropWhile is_digit (tl s))
      else (0, s))"

text \<open>The zone: \<open>Z\<close>, or a sign, hours up to 24 and minutes up to 60, as seconds east of UTC.\<close>

definition getzone :: "string \<Rightarrow> (int \<times> string) option" where
  "getzone s =
     (if s \<noteq> [] \<and> hd s = CHR ''Z'' then Some (0, tl s)
      else if length s < 6 \<or> s ! 3 \<noteq> CHR '':'' then None
      else do {
        (hr, _) \<leftarrow> getnum True (take 2 (drop 1 s)) \<bind> inRange 0 24;
        (mm, _) \<leftarrow> getnum True (take 2 (drop 4 s)) \<bind> inRange 0 60;
        let off = (int hr * 60 + int mm) * 60;
        if hd s = CHR ''+'' then Some (off, drop 6 s)
        else if hd s = CHR ''-'' then Some (- off, drop 6 s)
        else None })"

text \<open>
  \<open>time.Parse\<close> with either layout: the two accept the same texts, since a fraction is read after
  the seconds in any case.  Text after the zone is an error.
\<close>

definition ParseRFC3339 :: "string \<Rightarrow> gotime option" where
  "ParseRFC3339 s = do {
     (y, s) \<leftarrow> getyear s;
     s \<leftarrow> skipByte (CHR ''-'') s;
     (mo, s) \<leftarrow> getnum True s \<bind> inRange 1 12;
     s \<leftarrow> skipByte (CHR ''-'') s;
     (d, s) \<leftarrow> getnum True s;
     s \<leftarrow> skipByte (CHR ''T'') s;
     (hour, s) \<leftarrow> getnum False s \<bind> inRange 0 23;
     s \<leftarrow> skipByte (CHR '':'') s;
     (mi, s) \<leftarrow> getnum True s \<bind> inRange 0 59;
     s \<leftarrow> skipByte (CHR '':'') s;
     (sec, s) \<leftarrow> getnum True s \<bind> inRange 0 59;
     let (nsec, s) = getfrac s;
     (off, s) \<leftarrow> getzone s;
     if s \<noteq> [] \<or> d < 1 \<or> daysIn mo (int y) < int d then None
     else Some (Date (int y) mo d hour mi sec nsec - off * second) }"

definition ParseRFC3339Nano :: "string \<Rightarrow> gotime option" where
  "ParseRFC3339Nano s = ParseRFC3339 s"

section \<open>Durations\<close>

text \<open>
  \<open>time.ParseDuration\<close>: an optional sign and a sequence of decimal numbers, each with an optional
  fraction and a unit; \<open>0\<close> alone needs no unit.  The sum is kept in 64 bits with the checks of
  the library against overflow; a fraction is scaled in floating point and truncated to whole nanoseconds.
\<close>

definition unitMap :: "(string, nat) gomap" where
  "unitMap =
     [(''ns'', 1), (''us'', 1000), ([CHR 0xC2, CHR 0xB5, CHR ''s''], 1000), ([CHR 0xCE, CHR 0xBC, CHR ''s''], 1000),
      (''ms'', 1000000), (''s'', 1000000000), (''m'', 60 * 1000000000), (''h'', 3600 * 1000000000)]"

definition is_unit_char :: "char \<Rightarrow> bool" where
  "is_unit_char c \<longleftrightarrow> c \<noteq> CHR ''.'' \<and> \<not> is_digit c"

text \<open>
  \<open>float64\<close> arithmetic on positive rationals, as pairs of numerator and denominator: the result is rounded
  to 53 bits, ties to even.  Exponents are not bounded: the values below that leave the range of
  \<open>float64\<close> are scales so large that the fraction contributes no nanosecond in either case.
\<close>

fun bitLen :: "nat \<Rightarrow> nat" where
  "bitLen n = (if n = 0 then 0 else Suc (bitLen (n div 2)))"

declare bitLen.simps [simp del]

definition roundEven :: "nat \<Rightarrow> nat \<Rightarrow> nat" where
  "roundEven p q =
     (let m = p div q; r = p mod q in if 2 * r > q \<or> (2 * r = q \<and> odd m) then m + 1 else m)"

definition float64 :: "nat \<times> nat \<Rightarrow> nat \<times> nat" where
  "float64 x =
     (let (p, q) = x; k = 53 + int (bitLen q) - int (bitLen p);
          e = (if p * 2 ^ nat k div (q * 2 ^ nat (- k)) \<ge> 2 ^ 53 then k - 1 else k);
          m = roundEven (p * 2 ^ nat e) (q * 2 ^ nat (- e))
      in if p = 0 then (0, 1) else (m * 2 ^ nat (- e), 2 ^ nat e))"

definition mulFloat :: "nat \<times> nat \<Rightarrow> nat \<times> nat \<Rightarrow> nat \<times> nat" where
  "mulFloat x y = float64 (fst x * fst y, snd x * snd y)"

definition divFloat :: "nat \<times> nat \<Rightarrow> nat \<times> nat \<Rightarrow> nat \<times> nat" where
  "divFloat x y = float64 (fst x * snd y, snd x * fst y)"

text \<open>
  \<open>leadingFraction\<close> stops accumulating digits when the value no longer fits: the digits it takes are
  those before the overflow.
\<close>

fun leadingFraction :: "nat \<Rightarrow> nat \<times> nat \<Rightarrow> bool \<Rightarrow> string \<Rightarrow> nat \<times> (nat \<times> nat)" where
  "leadingFraction x scale over [] = (x, scale)"
| "leadingFraction x scale over (c # cs) =
     (if over then leadingFraction x scale over cs
      else if x > (2 ^ 63 - 1) div 10 then leadingFraction x scale True cs
      else let y = x * 10 + digit_val c in
        if y > 2 ^ 63 then leadingFraction x scale True cs
        else leadingFraction y (mulFloat scale (10, 1)) False cs)"

definition fractionNanos :: "string \<Rightarrow> nat \<Rightarrow> nat" where
  "fractionNanos ds unit =
     (let (f, scale) = leadingFraction 0 (1, 1) False ds;
          (p, q) = mulFloat (float64 (f, 1)) (divFloat (unit, 1) scale)
      in if f > 0 then p div q else 0)"

function durationUnits :: "nat \<Rightarrow> string \<Rightarrow> nat option" where
  "durationUnits d s =
     (if s = [] then Some d
      else
        let ds = takeWhile is_digit s; s1 = dropWhile is_digit s;
            frac = (if s1 \<noteq> [] \<and> hd s1 = CHR ''.'' then takeWhile is_digit (tl s1) else []);
            s2 = (if s1 \<noteq> [] \<and> hd s1 = CHR ''.'' then dropWhile is_digit (tl s1) else s1);
            u = takeWhile is_unit_char s2; s3 = dropWhile is_unit_char s2
        in if undec ds > 2 ^ 63 \<or> (ds = [] \<and> frac = []) \<or> u = [] then None
           else case map_of unitMap u of
             None \<Rightarrow> None
           | Some unit \<Rightarrow>
               if undec ds > 2 ^ 63 div unit then None
               else let v = undec ds * unit + fractionNanos frac unit; d' = (d + v) mod 2 ^ 64
                 in if v > 2 ^ 63 \<or> d' > 2 ^ 63 then None
                    else durationUnits d' s3)"
  by pat_completeness auto
termination
proof (relation "measure (\<lambda>(d, s). length s)", goal_cases)
  case 1
  show ?case by simp
next
  case (2 d s ds s1 frac s2 u s3 unit v d')
  have u: "u \<noteq> []" using 2 by auto
  have "length s2 \<le> length s1"
    using 2(5) by (auto intro: order_trans [OF length_dropWhile_le])
  moreover have "length s1 \<le> length s" using 2(3) by (simp add: length_dropWhile_le)
  moreover have "s2 = u @ s3" using 2(6,7) by simp
  ultimately have "length s3 < length s" using u by (cases u) auto
  then show ?case by simp
qed

definition ParseDuration :: "string \<Rightarrow> duration option" where
  "ParseDuration s =
     (let neg = (s \<noteq> [] \<and> hd s = CHR ''-'');
          r = (if s \<noteq> [] \<and> (hd s = CHR ''-'' \<or> hd s = CHR ''+'') then tl s else s)
      in if r = ''0'' then Some 0
         else if r = [] then None
         else case durationUnits 0 r of
           None \<Rightarrow> None
         | Some d \<Rightarrow> if neg then Some (- int d) else if d > 2 ^ 63 - 1 then None else Some (int d))"


declare durationUnits.simps [simp del]


section \<open>The calendar is inverted\<close>

lemma yearDay_sound:
  assumes "yearDay days = (y, yd)"
  shows "daysBeforeYear y + yd = days" and "0 \<le> yd" and "yd < (if isLeap y then 366 else 365)"
    and "0 \<le> days \<Longrightarrow> 1 \<le> y" and "days < 3652059 \<Longrightarrow> y \<le> 9999"
proof -
  define a r where ar: "a = days div 146097" "r = days mod 146097"
  define c r2 where c: "c = min 3 (r div 36524)" "r2 = r - 36524 * c"
  define q r3 where q: "q = r2 div 1461" "r3 = r2 mod 1461"
  define z where z: "z = min 3 (r3 div 365)"
  have y: "y = 400 * a + 100 * c + 4 * q + z + 1" and yd: "yd = r3 - 365 * z"
    using assms by (simp_all add: yearDay_def Let_def ar c q z)
  have "days = 146097 * a + r" "r2 = 1461 * q + r3" by (simp_all add: ar q)
  then have days: "days = 146097 * a + 36524 * c + 1461 * q + r3" using c(2) by linarith
  have r: "0 \<le> r" "r < 146097" using ar by simp_all
  have cb: "0 \<le> c" "c \<le> 3" "0 \<le> r2" "c < 3 \<Longrightarrow> r2 < 36524" "r2 \<le> 36524" using r c by (auto simp: min_def split: if_splits)
  have qb: "0 \<le> q" "q \<le> 24" "0 \<le> r3" "r3 < 1461" "r2 = 1461 * q + r3" using cb(3,5) q by auto
  have zb: "0 \<le> z" "z \<le> 3" "0 \<le> yd" "z < 3 \<Longrightarrow> yd < 365" "yd \<le> 365" "r3 = 365 * z + yd"
    using qb(3,4) z yd by (auto simp: min_def split: if_splits)
  have shape: "y - 1 = z + (100 * a + 25 * c + q) * 4" "y - 1 = (4 * q + z) + (4 * a + c) * 100"
    "y - 1 = (100 * c + 4 * q + z) + a * 400" using y by simp_all
  have d4: "(y - 1) div 4 = 100 * a + 25 * c + q" unfolding shape(1) using zb(1,2) by simp
  have d100: "(y - 1) div 100 = 4 * a + c" unfolding shape(2) using zb(1,2) qb(1,2) by simp
  have d400: "(y - 1) div 400 = a" unfolding shape(3) using zb(1,2) qb(1,2) cb(1,2) by simp
  show "daysBeforeYear y + yd = days" using d4 d100 d400 y yd days by (simp add: daysBeforeYear_def)
  show "0 \<le> yd" by (rule zb(3))
  show "yd < (if isLeap y then 366 else 365)"
  proof (cases "z < 3 \<or> yd < 365")
    case True
    then show ?thesis using zb(4) by auto
  next
    case False
    then have z3: "z = 3" "yd = 365" using zb by auto
    then have c3: "q = 24 \<Longrightarrow> c = 3" using cb(2,4) qb(5) zb(6) by fastforce
    have "y = (100 * a + 25 * c + q + 1) * 4" using y z3(1) by simp
    then have y4: "y mod 4 = 0" by simp
    have "isLeap y"
    proof (cases "q = 24")
      case True
      with c3 have "y = (a + 1) * 400" using y z3(1) by simp
      then have "y mod 400 = 0" by simp
      with y4 show ?thesis by (simp add: isLeap_def)
    next
      case False
      have "y = (4 * q + 4) + (4 * a + c) * 100" using y z3(1) by simp
      then have "y mod 100 = (4 * q + 4) mod 100" by (metis mod_mult_self1)
      also have "\<dots> = 4 * q + 4" using False qb(1,2) by (intro mod_pos_pos_trivial) auto
      finally show ?thesis using y4 qb(1) by (simp add: isLeap_def)
    qed
    then show ?thesis using z3 by simp
  qed
  show "1 \<le> y" if "0 \<le> days" using that y ar cb qb zb by (simp add: pos_imp_zdiv_nonneg_iff)
  show "y \<le> 9999" if "days < 3652059" using that y days cb(1,2) qb(1,2) zb(1,2,3,6) by linarith
qed

lemma monthDay_sound:
  assumes "monthDay ls d = (m, d')" "0 \<le> d" "d < sum_list ls" "\<forall>l\<in>set ls. 0 < l"
  shows "m < length ls \<and> 0 \<le> d' \<and> d' < ls ! m \<and> sum_list (take m ls) + d' = d"
  using assms
  by (induction ls arbitrary: d m) (fastforce split: if_splits prod.splits)+

section \<open>The layout is inverted\<close>

lemma length_dec: "n < 10 ^ Suc k \<Longrightarrow> length (dec n) \<le> Suc k"
proof (induction k arbitrary: n)
  case 0
  then show ?case by (simp add: dec.simps)
next
  case (Suc k)
  show ?case
  proof (cases "n < 10")
    case False
    then show ?thesis using Suc.IH [of "n div 10"] Suc.prems by (simp add: dec.simps [of n] div_less_iff_less_mult)
  qed (simp add: dec.simps)
qed

lemma length_pad: "n < 10 ^ Suc k \<Longrightarrow> length (pad (Suc k) n) = Suc k"
  using length_dec [of n k] by (simp add: pad_def)

lemma undec_zeros: "undec (replicate k (CHR ''0'') @ s) = undec s"
  by (induction k) (simp_all add: undec_def digit_val_def)

lemma undec_pad [simp]: "undec (pad w n) = n"
  by (simp add: pad_def undec_zeros)

lemma pad_digits: "list_all is_digit (pad w n)"
  using dec_digits by (auto simp: pad_def list_all_iff) (simp add: is_digit_def)

lemma pad2:
  assumes "n < 100"
  shows "pad 2 n = [digit_char (n div 10), digit_char (n mod 10)]"
proof (cases "n < 10")
  case True
  then show ?thesis using digit_char_0_iff [of 0] by (simp add: pad_def dec.simps)
next
  case False
  then show ?thesis using assms by (simp add: pad_def dec.simps [of n] dec.simps [of "n div 10"])
qed

lemma getnum_pad: "n < 100 \<Longrightarrow> getnum fixed (pad 2 n @ s) = Some (n, s)"
  by (simp add: pad2)

lemma getyear_pad:
  assumes "n < 10000"
  shows "getyear (pad 4 n @ s) = Some (n, s)"
proof -
  have "length (pad 4 n) = 4" using length_pad [of n 3] assms by simp
  then show ?thesis using pad_digits [of 4 n] by (simp add: getyear_def)
qed

text \<open>Times that RFC 3339 can express: from year 1 to the end of year 9999.\<close>

definition rfc_time :: "gotime \<Rightarrow> bool" where
  "rfc_time t \<longleftrightarrow> 0 \<le> t \<and> t < 315537897600 * second"

definition truncate_second :: "gotime \<Rightarrow> gotime" where
  "truncate_second t = t - t mod second"

lemma monthLengths_props:
  "length (monthLengths y) = 12" "sum_list (monthLengths y) = (if isLeap y then 366 else 365)"
  "\<forall>l\<in>set (monthLengths y). 0 < l \<and> l \<le> 31"
  by (simp_all add: monthLengths_def)

lemma ParseRFC3339_fields:
  assumes "0 < y" "y < 10000" "1 \<le> mo" "mo \<le> 12" "1 \<le> d" "int d \<le> daysIn mo (int y)" "h < 24" "mi < 60" "se < 60"
  shows "ParseRFC3339 (pad 4 y @ ''-'' @ pad 2 mo @ ''-'' @ pad 2 d @ ''T'' @ pad 2 h @ '':'' @ pad 2 mi @ '':'' @ pad 2 se @ ''Z'')
    = Some (Date (int y) mo d h mi se 0)"
proof -
  have "daysIn mo (int y) \<le> 31"
    using monthLengths_props(3) [of "int y"] nth_mem [of "mo - 1" "monthLengths (int y)"] assms(3,4)
    by (auto simp: daysIn_def monthLengths_props(1))
  then have "d < 100" using assms(6) by linarith
  with assms show ?thesis
    by (simp add: ParseRFC3339_def getyear_pad getnum_pad inRange_def getfrac_def getzone_def)
qed

lemma Parse_Format:
  assumes "rfc_time t"
  shows "ParseRFC3339 (FormatRFC3339 t) = Some (truncate_second t)"
proof -
  define days where "days = t div second div 86400"
  define s where "s = nat (t div second mod 86400)"
  obtain y yd where y: "yearDay days = (y, yd)" by force
  obtain m d where m: "monthDay (monthLengths y) yd = (m, d)" by force
  have t: "0 \<le> days" "days < 3652059" using assms by (auto simp: rfc_time_def days_def)
  have secs: "t div second = days * 86400 + int s" "s < 86400"
    by (simp_all add: days_def s_def nat_less_iff)
  note yb = yearDay_sound [OF y]
  have mb: "m < 12" "0 \<le> d" "d < monthLengths y ! m" "sum_list (take m (monthLengths y)) + d = yd"
    using monthDay_sound [OF m] yb(2,3) monthLengths_props [of y] by auto
  have fmt: "FormatRFC3339 t = pad 4 (nat y) @ ''-'' @ pad 2 (Suc m) @ ''-'' @ pad 2 (nat d + 1) @ ''T''
      @ pad 2 (s div 3600) @ '':'' @ pad 2 (s mod 3600 div 60) @ '':'' @ pad 2 (s mod 60) @ ''Z''"
    using y m yb(4) [OF t(1)] by (simp add: FormatRFC3339_def Let_def days_def [symmetric] s_def appendInt_def)
  have "ParseRFC3339 (FormatRFC3339 t) = Some (Date (int (nat y)) (Suc m) (nat d + 1) (s div 3600) (s mod 3600 div 60) (s mod 60) 0)"
    unfolding fmt
  proof (rule ParseRFC3339_fields)
    show "0 < nat y" "nat y < 10000" using yb(4) [OF t(1)] yb(5) [OF t(2)] by simp_all
    show "int (nat d + 1) \<le> daysIn (Suc m) (int (nat y))" using mb(2,3) yb(4) [OF t(1)] by (simp add: daysIn_def)
    show "s div 3600 < 24" using secs(2) by (simp add: div_less_iff_less_mult)
    show "s mod 3600 div 60 < 60" by (simp add: div_less_iff_less_mult)
  qed (use mb(1) in simp_all)
  moreover have "Date (int (nat y)) (Suc m) (nat d + 1) (s div 3600) (s mod 3600 div 60) (s mod 60) 0 = t div second * second"
  proof -
    have "s mod 60 = s mod 3600 mod 60" by (simp add: mod_mod_cancel)
    then have "s div 3600 * 3600 + s mod 3600 div 60 * 60 + s mod 60 = s"
      by (metis add.assoc div_mult_mod_eq)
    from arg_cong [OF this, of int] have sod: "int (s div 3600) * 3600 + int (s mod 3600 div 60) * 60 + int (s mod 60) = int s"
      by (simp only: of_nat_add of_nat_mult of_nat_numeral)
    have "int (nat y) = y" "int (nat d) = d" using mb(2) yb(4) t by simp_all
    then have "Date (int (nat y)) (Suc m) (nat d + 1) (s div 3600) (s mod 3600 div 60) (s mod 60) 0
        = ((daysBeforeYear y + (sum_list (take m (monthLengths y)) + d)) * 86400
           + (int (s div 3600) * 3600 + int (s mod 3600 div 60) * 60 + int (s mod 60))) * second"
      by (simp only: Date_def Let_def) simp
    then show ?thesis unfolding sod mb(4) yb(1) secs(1) .
  qed
  ultimately show ?thesis by (simp add: truncate_second_def minus_mod_eq_div_mult)
qed

lemma Format_not_empty: "FormatRFC3339 t \<noteq> []"
  by (simp add: FormatRFC3339_def Let_def split: prod.split)

end
