(* ===== verification/Json.thy ===== *)
theory Json
  imports Golib
begin

text \<open>
  What the program uses of Go's package \<open>encoding/json\<close>: encoding of strings with HTML escaping,
  \<open>Marshal\<close> with and without indentation, the grammar that \<open>Unmarshal\<close> accepts, and the decoding of a
  value into a structure.  Strings are bytes; bytes that are not UTF-8 are replaced by U+FFFD in both
  directions.
\<close>

section \<open>UTF-8\<close>

abbreviation byte :: "char \<Rightarrow> nat" where
  "byte c \<equiv> of_char c"

definition cont :: "nat \<Rightarrow> nat \<Rightarrow> char \<Rightarrow> bool" where
  "cont lo hi c \<longleftrightarrow> lo \<le> byte c \<and> byte c \<le> hi"

text \<open>
  The length of the encoding of the first rune, 0 if the string does not start with one:
  \<open>utf8.DecodeRune\<close>, which refuses overlong forms, surrogates and values beyond U+10FFFF.
\<close>

definition second_lo :: "nat \<Rightarrow> nat" where
  "second_lo b = (if b = 0xE0 then 0xA0 else if b = 0xF0 then 0x90 else 0x80)"

definition second_hi :: "nat \<Rightarrow> nat" where
  "second_hi b = (if b = 0xED then 0x9F else if b = 0xF4 then 0x8F else 0xBF)"

fun runeLen :: "string \<Rightarrow> nat" where
  "runeLen [] = 0"
| "runeLen (c # s) =
     (let b = byte c in
      if b < 0x80 then 1
      else if b < 0xC2 \<or> b > 0xF4 then 0
      else if b < 0xE0 then
        (case s of c1 # _ \<Rightarrow> if cont 0x80 0xBF c1 then 2 else 0 | _ \<Rightarrow> 0)
      else if b < 0xF0 then
        (case s of c1 # c2 # _ \<Rightarrow> if cont (second_lo b) (second_hi b) c1 \<and> cont 0x80 0xBF c2 then 3 else 0 | _ \<Rightarrow> 0)
      else
        (case s of c1 # c2 # c3 # _ \<Rightarrow>
           if cont (second_lo b) (second_hi b) c1 \<and> cont 0x80 0xBF c2 \<and> cont 0x80 0xBF c3 then 4 else 0 | _ \<Rightarrow> 0))"

declare runeLen.simps [simp del]

definition replacement :: string where
  "replacement = [CHR 0xEF, CHR 0xBF, CHR 0xBD]"

function toValidUTF8 :: "string \<Rightarrow> string" where
  "toValidUTF8 s =
     (if s = [] then []
      else if runeLen s = 0 then replacement @ toValidUTF8 (tl s)
      else take (runeLen s) s @ toValidUTF8 (drop (runeLen s) s))"
  by pat_completeness auto
termination by (relation "measure length") auto

declare toValidUTF8.simps [simp del]

text \<open>\<open>utf8.EncodeRune\<close>, for runes that are not surrogates.\<close>

definition encodeRune :: "nat \<Rightarrow> string" where
  "encodeRune r = map char_of
     (if r < 0x80 then [r]
      else if r < 0x800 then [0xC0 + r div 64, 0x80 + r mod 64]
      else if r < 0x10000 then [0xE0 + r div 4096, 0x80 + r div 64 mod 64, 0x80 + r mod 64]
      else [0xF0 + r div 262144, 0x80 + r div 4096 mod 64, 0x80 + r div 64 mod 64, 0x80 + r mod 64])"

section \<open>Strings\<close>

definition hex_lower :: "nat \<Rightarrow> char" where
  "hex_lower n = (if n < 10 then char_of (48 + n) else char_of (87 + n))"

definition is_hexd :: "char \<Rightarrow> bool" where
  "is_hexd c \<longleftrightarrow> is_digit c \<or> (CHR ''a'' \<le> c \<and> c \<le> CHR ''f'') \<or> (CHR ''A'' \<le> c \<and> c \<le> CHR ''F'')"

definition hexd_val :: "char \<Rightarrow> nat" where
  "hexd_val c = (if is_digit c then byte c - 48 else if CHR ''a'' \<le> c then byte c - 87 else byte c - 55)"

text \<open>The escapes with a letter; the bytes that are escaped as \<open>\u00XX\<close>.\<close>

definition escapes :: "(char \<times> char) list" where
  "escapes = [(CHR 0x22, CHR 0x22), (CHR 0x5C, CHR 0x5C), (CHR 0x08, CHR ''b''), (CHR 0x0C, CHR ''f''),
     (CHR 0x0A, CHR ''n''), (CHR 0x0D, CHR ''r''), (CHR 0x09, CHR ''t'')]"

definition escapeU :: "nat \<Rightarrow> string" where
  "escapeU r = [CHR 0x5C, CHR ''u'', hex_lower (r div 4096), hex_lower (r div 256 mod 16), hex_lower (r div 16 mod 16), hex_lower (r mod 16)]"

definition escapeByte :: "char \<Rightarrow> string" where
  "escapeByte c =
     (case map_of escapes c of
        Some e \<Rightarrow> [CHR 0x5C, e]
      | None \<Rightarrow> if byte c < 0x20 \<or> c \<in> set ''<>&'' then escapeU (byte c) else [c])"

function appendString :: "string \<Rightarrow> string" where
  "appendString s =
     (if s = [] then []
      else if byte (hd s) < 0x80 then escapeByte (hd s) @ appendString (tl s)
      else if runeLen s = 0 then escapeU 0xFFFD @ appendString (tl s)
      else if take 3 s = encodeRune 0x2028 then escapeU 0x2028 @ appendString (drop 3 s)
      else if take 3 s = encodeRune 0x2029 then escapeU 0x2029 @ appendString (drop 3 s)
      else take (runeLen s) s @ appendString (drop (runeLen s) s))"
  by pat_completeness auto
termination by (relation "measure length") auto

declare appendString.simps [simp del]

definition quoteJSON :: "string \<Rightarrow> string" where
  "quoteJSON s = [CHR 0x22] @ appendString s @ [CHR 0x22]"

text \<open>Four hexadecimal digits after \<open>\u\<close>, if they are there.\<close>

fun getu4 :: "string \<Rightarrow> (nat \<times> string) option" where
  "getu4 (a # b # c # d # s) =
     (if is_hexd a \<and> is_hexd b \<and> is_hexd c \<and> is_hexd d
      then Some (hexd_val a * 4096 + hexd_val b * 256 + hexd_val c * 16 + hexd_val d, s) else None)"
| "getu4 _ = None"

text \<open>An escaped rune: two surrogates make one rune, a lone one is replaced.\<close>

definition isSurrogate :: "nat \<Rightarrow> bool" where
  "isSurrogate r \<longleftrightarrow> 0xD800 \<le> r \<and> r < 0xE000"

definition escapedRune :: "nat \<Rightarrow> string \<Rightarrow> string \<times> string" where
  "escapedRune r s =
     (if \<not> isSurrogate r then (encodeRune r, s)
      else case s of
        CHR 0x5C # CHR ''u'' # s' \<Rightarrow>
          (case getu4 s' of
             Some (r', s'') \<Rightarrow>
               if r < 0xDC00 \<and> 0xDC00 \<le> r' \<and> r' < 0xE000
               then (encodeRune ((r - 0xD800) * 1024 + (r' - 0xDC00) + 0x10000), s'') else (replacement, s)
           | None \<Rightarrow> (replacement, s))
      | _ \<Rightarrow> (replacement, s))"

definition unescapes :: "(char \<times> char) list" where
  "unescapes = [(CHR 0x22, CHR 0x22), (CHR 0x5C, CHR 0x5C), (CHR ''/'', CHR ''/''), (CHR ''b'', CHR 0x08), (CHR ''f'', CHR 0x0C),
     (CHR ''n'', CHR 0x0A), (CHR ''r'', CHR 0x0D), (CHR ''t'', CHR 0x09)]"

lemma getu4_length [termination_simp]: "getu4 s = Some (r, s') \<Longrightarrow> length s' < length s"
  by (cases s rule: getu4.cases) (auto split: if_splits)

lemma escapedRune_length [termination_simp]: "length (snd (escapedRune r s)) \<le> length s"
proof (cases "isSurrogate r \<and> prefix [CHR 0x5C, CHR ''u''] s")
  case True
  then obtain s' where "s = CHR 0x5C # CHR ''u'' # s'" by (auto simp: prefix_def)
  then show ?thesis using getu4_length [of s'] by (auto simp: escapedRune_def split: option.split)
next
  case False
  then have "snd (escapedRune r s) = s" by (auto simp: escapedRune_def split: list.split char.split bool.split)
  then show ?thesis by simp
qed

text \<open>The rest of a string literal after its opening quote: its value and what follows the closing quote.\<close>

function unquote :: "string \<Rightarrow> (string \<times> string) option" where
  "unquote s =
     (case s of
        [] \<Rightarrow> None
      | c # t \<Rightarrow>
          if c = CHR 0x22 then Some ([], t)
          else if c = CHR 0x5C then
            (case t of
               [] \<Rightarrow> None
             | e # t' \<Rightarrow>
                 if e = CHR ''u'' then
                   (case getu4 t' of
                      None \<Rightarrow> None
                    | Some (r, t'') \<Rightarrow>
                        map_option (apfst ((@) (fst (escapedRune r t'')))) (unquote (snd (escapedRune r t''))))
                 else (case map_of unescapes e of
                    None \<Rightarrow> None
                  | Some x \<Rightarrow> map_option (apfst ((#) x)) (unquote t')))
          else if byte c < 0x20 then None
          else if runeLen s = 0 then map_option (apfst ((@) replacement)) (unquote t)
          else map_option (apfst ((@) (take (runeLen s) s))) (unquote (drop (runeLen s) s)))"
  by pat_completeness auto
termination
proof (relation "measure length", goal_cases)
  case (2 s c t e t' p r t'')
  then show ?case using getu4_length [of t' r t''] escapedRune_length [of r t''] by simp
qed auto

declare unquote.simps [simp del]

section \<open>Tokens\<close>

datatype tok =
    TLBrace | TRBrace | TLBrack | TRBrack | TColon | TComma
  | TStr string | TNum string | TTrue | TFalse | TNull

definition is_ws :: "char \<Rightarrow> bool" where
  "is_ws c \<longleftrightarrow> c = CHR '' '' \<or> c = CHR 0x09 \<or> c = CHR 0x0A \<or> c = CHR 0x0D"

text \<open>A numeral: no leading zeros, and digits after a period and in an exponent.\<close>

definition numInt :: "string \<Rightarrow> (string \<times> string) option" where
  "numInt s =
     (if s = [] \<or> \<not> is_digit (hd s) then None
      else if hd s = CHR ''0'' then Some (''0'', tl s)
      else Some (takeWhile is_digit s, dropWhile is_digit s))"

definition numDigits :: "string \<Rightarrow> string \<Rightarrow> (string \<times> string) option" where
  "numDigits pre s =
     (if takeWhile is_digit s = [] then None else Some (pre @ takeWhile is_digit s, dropWhile is_digit s))"

definition numFrac :: "string \<Rightarrow> (string \<times> string) option" where
  "numFrac s = (if s \<noteq> [] \<and> hd s = CHR ''.'' then numDigits [hd s] (tl s) else Some ([], s))"

definition numExp :: "string \<Rightarrow> (string \<times> string) option" where
  "numExp s =
     (if s \<noteq> [] \<and> hd s \<in> set ''eE'' then
        (if tl s \<noteq> [] \<and> hd (tl s) \<in> set ''+-'' then numDigits [hd s, hd (tl s)] (tl (tl s)) else numDigits [hd s] (tl s))
      else Some ([], s))"

definition readNum :: "string \<Rightarrow> (string \<times> string) option" where
  "readNum s =
     (let neg = (s \<noteq> [] \<and> hd s = CHR ''-''); sg = (if neg then ''-'' else []); s0 = (if neg then tl s else s) in
      case numInt s0 of None \<Rightarrow> None | Some (i, s1) \<Rightarrow>
      (case numFrac s1 of None \<Rightarrow> None | Some (f, s2) \<Rightarrow>
      (case numExp s2 of None \<Rightarrow> None | Some (e, s3) \<Rightarrow> Some (sg @ i @ f @ e, s3))))"

definition punct :: "(char \<times> tok) list" where
  "punct = [(CHR ''{'', TLBrace), (CHR ''}'', TRBrace), (CHR ''['', TLBrack), (CHR '']'', TRBrack),
     (CHR '':'', TColon), (CHR '','', TComma)]"

text \<open>The next token and the text after it.\<close>

definition readTok :: "string \<Rightarrow> (tok \<times> string) option" where
  "readTok s =
     (case map_of punct (hd s) of
        Some t \<Rightarrow> Some (t, tl s)
      | None \<Rightarrow>
          if hd s = CHR 0x22 then map_option (apfst TStr) (unquote (tl s))
          else if hd s = CHR ''-'' \<or> is_digit (hd s) then map_option (apfst TNum) (readNum s)
          else if prefix ''true'' s then Some (TTrue, drop 4 s)
          else if prefix ''false'' s then Some (TFalse, drop 5 s)
          else if prefix ''null'' s then Some (TNull, drop 4 s)
          else None)"

lemma unquote_Nil [simp]: "unquote [] = None"
  by (simp add: unquote.simps)

lemmas unquote_Cons = unquote.simps [of "c # t" for c t, unfolded list.case]

lemma unquote_length: "unquote s = Some (v, r) \<Longrightarrow> length r < length s"
proof (induction s arbitrary: v r rule: unquote.induct)
  case (1 s)
  show ?case
  proof (cases s)
    case Nil
    with "1.prems" show ?thesis by (simp add: unquote_Nil)
  next
    case (Cons c t)
    note IH = "1.IH" [OF Cons]
    consider "c = CHR 0x22" | "c = CHR 0x5C" | "c \<noteq> CHR 0x22" "c \<noteq> CHR 0x5C" "\<not> byte c < 0x20" "runeLen s = 0"
      | "c \<noteq> CHR 0x22" "c \<noteq> CHR 0x5C" "\<not> byte c < 0x20" "runeLen s \<noteq> 0"
      using "1.prems" Cons by (auto simp: unquote_Cons split: if_splits)
    then show ?thesis
    proof cases
      case 1
      with "1.prems" Cons show ?thesis by (simp add: unquote_Cons)
    next
      case 2
      with "1.prems" Cons obtain e t' where t: "t = e # t'" by (cases t) (auto simp: unquote_Cons)
      show ?thesis
      proof (cases "e = CHR ''u''")
        case True
        with "1.prems" Cons 2 t obtain q t'' where g: "getu4 t' = Some (q, t'')"
          and u: "map_option (apfst ((@) (fst (escapedRune q t'')))) (unquote (snd (escapedRune q t''))) = Some (v, r)"
          by (auto simp: unquote_Cons split: option.splits)
        from u obtain v' where "unquote (snd (escapedRune q t'')) = Some (v', r)" by auto
        from IH(1) [OF _ 2 t True g refl this] 2 have "length r < length (snd (escapedRune q t''))" by simp
        with escapedRune_length [of q t''] getu4_length [OF g] show ?thesis using Cons t by simp
      next
        case False
        with "1.prems" Cons 2 t obtain x v' where "map_of unescapes e = Some x" "unquote t' = Some (v', r)"
          by (auto simp: unquote_Cons split: option.splits)
        from IH(2) [OF _ 2 t False this] 2 show ?thesis using Cons t by simp
      qed
    next
      case 3
      with "1.prems" Cons obtain v' where "unquote t = Some (v', r)" by (auto simp: unquote_Cons)
      from IH(3) [OF 3 this] show ?thesis using Cons by simp
    next
      case 4
      with "1.prems" Cons obtain v' where "unquote (drop (runeLen s) s) = Some (v', r)" by (auto simp: unquote_Cons)
      from IH(4) [OF 4 this] show ?thesis using Cons by simp
    qed
  qed
qed

lemma readNum_length: "readNum s = Some (v, r) \<Longrightarrow> length r < length s"
proof -
  assume a: "readNum s = Some (v, r)"
  have d: "length (dropWhile is_digit u) \<le> length u" for u by (rule length_dropWhile_le)
  have "numDigits p u = Some (x, y) \<Longrightarrow> length y \<le> length u" for p u x y
    using d by (auto simp: numDigits_def split: if_splits)
  then have e: "numExp u = Some (x, y) \<Longrightarrow> length y \<le> length u" and f: "numFrac u = Some (x, y) \<Longrightarrow> length y \<le> length u" for u x y
    by (fastforce simp: numExp_def numFrac_def neq_Nil_conv split: if_splits)+
  have i: "numInt u = Some (x, y) \<Longrightarrow> length y < length u" for u x y
    using d by (cases u) (auto simp: numInt_def split: if_splits intro: le_imp_less_Suc)
  define s0 where "s0 = (if s \<noteq> [] \<and> hd s = CHR ''-'' then tl s else s)"
  have "length s0 \<le> length s" by (simp add: s0_def)
  moreover from a obtain x s1 y s2 z where "numInt s0 = Some (x, s1)" "numFrac s1 = Some (y, s2)" "numExp s2 = Some (z, r)"
    unfolding readNum_def Let_def s0_def [symmetric] by (auto split: option.splits)
  then have "length s1 < length s0" "length s2 \<le> length s1" "length r \<le> length s2" using i f e by blast+
  ultimately show ?thesis by linarith
qed

lemma readTok_length: "readTok s = Some (t, r) \<Longrightarrow> s \<noteq> [] \<Longrightarrow> length r < length s"
  using unquote_length [of "tl s"] readNum_length [of s]
  by (cases s) (fastforce simp: readTok_def less_Suc_eq split: option.splits if_splits)+

function lexer :: "string \<Rightarrow> tok list option" where
  "lexer s =
     (if s = [] then Some []
      else if is_ws (hd s) then lexer (tl s)
      else case readTok s of
        None \<Rightarrow> None
      | Some (t, r) \<Rightarrow> map_option ((#) t) (lexer r))"
  by pat_completeness auto
termination by (relation "measure length") (auto simp: readTok_length)

declare lexer.simps [simp del]

section \<open>Values\<close>

datatype json =
    JNull
  | JBool bool
  | JNum string
  | JStr string
  | JArr "json list"
  | JObj "(string \<times> json) list"

text \<open>
  The grammar, with an explicit stack of the arrays and objects that are open, as in the library's
  scanner: \<open>FObj\<close> also holds the key whose value is being read.  More than 10000 open ones are an error.
\<close>

datatype frame = FArr "json list" | FObj "(string \<times> json) list" string

datatype pmode =
    PValue
  | PValueOrEnd
  | PKey "(string \<times> json) list"
  | PKeyOrEnd
  | PColon "(string \<times> json) list" string
  | PAfter json

definition maxNestingDepth :: nat where "maxNestingDepth = 10000"

fun scalar :: "tok \<Rightarrow> json option" where
  "scalar (TStr s) = Some (JStr s)"
| "scalar (TNum s) = Some (JNum s)"
| "scalar TTrue = Some (JBool True)"
| "scalar TFalse = Some (JBool False)"
| "scalar TNull = Some JNull"
| "scalar _ = None"

text \<open>What follows a token where a value is expected, and after a complete value.\<close>

definition startValue :: "frame list \<Rightarrow> tok \<Rightarrow> (pmode \<times> frame list) option" where
  "startValue st t =
     (case scalar t of
        Some v \<Rightarrow> Some (PAfter v, st)
      | None \<Rightarrow>
          if length st \<ge> maxNestingDepth then None
          else if t = TLBrack then Some (PValueOrEnd, FArr [] # st)
          else if t = TLBrace then Some (PKeyOrEnd, st)
          else None)"

fun endValue :: "json \<Rightarrow> frame list \<Rightarrow> tok \<Rightarrow> (pmode \<times> frame list) option" where
  "endValue v (FArr vs # st) TComma = Some (PValue, FArr (vs @ [v]) # st)"
| "endValue v (FArr vs # st) TRBrack = Some (PAfter (JArr (vs @ [v])), st)"
| "endValue v (FObj kvs k # st) TComma = Some (PKey (kvs @ [(k, v)]), st)"
| "endValue v (FObj kvs k # st) TRBrace = Some (PAfter (JObj (kvs @ [(k, v)])), st)"
| "endValue _ _ _ = None"

fun parseStep :: "pmode \<Rightarrow> frame list \<Rightarrow> tok \<Rightarrow> (pmode \<times> frame list) option" where
  "parseStep PValue st t = startValue st t"
| "parseStep PValueOrEnd st t = (if t = TRBrack then Some (PAfter (JArr []), tl st) else startValue st t)"
| "parseStep (PKey kvs) st t = (case t of TStr k \<Rightarrow> Some (PColon kvs k, st) | _ \<Rightarrow> None)"
| "parseStep PKeyOrEnd st t =
     (case t of TStr k \<Rightarrow> Some (PColon [] k, st) | TRBrace \<Rightarrow> Some (PAfter (JObj []), st) | _ \<Rightarrow> None)"
| "parseStep (PColon kvs k) st t = (if t = TColon then Some (PValue, FObj kvs k # st) else None)"
| "parseStep (PAfter v) st t = endValue v st t"

fun parseToks :: "pmode \<Rightarrow> frame list \<Rightarrow> tok list \<Rightarrow> json option" where
  "parseToks m st [] = (case (m, st) of (PAfter v, []) \<Rightarrow> Some v | _ \<Rightarrow> None)"
| "parseToks m st (t # ts) =
     (case parseStep m st t of None \<Rightarrow> None | Some (m', st') \<Rightarrow> parseToks m' st' ts)"

definition parseJSON :: "string \<Rightarrow> json option" where
  "parseJSON s = Option.bind (lexer s) (parseToks PValue [])"

section \<open>Printing\<close>

text \<open>
  \<open>Marshal\<close> and \<open>Indent\<close>: \<open>nl d\<close> is what separates the elements at depth \<open>d\<close>, \<open>colon\<close> what stands after
  a key; \<open>Marshal\<close> uses none and a colon, \<open>MarshalIndent\<close> with two spaces a line for each element.
\<close>

fun joinWith :: "'a list \<Rightarrow> 'a list list \<Rightarrow> 'a list" where
  "joinWith sep [] = []"
| "joinWith sep [x] = x"
| "joinWith sep (x # y # ys) = x @ sep @ joinWith sep (y # ys)"

fun printJSON :: "(nat \<Rightarrow> string) \<Rightarrow> string \<Rightarrow> nat \<Rightarrow> json \<Rightarrow> string" where
  "printJSON nl colon d JNull = ''null''"
| "printJSON nl colon d (JBool b) = (if b then ''true'' else ''false'')"
| "printJSON nl colon d (JNum n) = n"
| "printJSON nl colon d (JStr s) = quoteJSON s"
| "printJSON nl colon d (JArr vs) =
     (if vs = [] then ''[]''
      else ''['' @ nl (Suc d) @ joinWith ('','' @ nl (Suc d)) (map (printJSON nl colon (Suc d)) vs) @ nl d @ '']'')"
| "printJSON nl colon d (JObj kvs) =
     (if kvs = [] then ''{}''
      else ''{'' @ nl (Suc d)
        @ joinWith ('','' @ nl (Suc d)) (map (\<lambda>(k, v). quoteJSON k @ colon @ printJSON nl colon (Suc d) v) kvs) @ nl d @ ''}'')"

definition marshalJSON :: "json \<Rightarrow> string" where
  "marshalJSON = printJSON (\<lambda>_. []) '':'' 0"

definition newline_indent :: "nat \<Rightarrow> string" where
  "newline_indent d = CHR 0x0A # replicate (2 * d) (CHR '' '')"

definition marshalIndentJSON :: "json \<Rightarrow> string" where
  "marshalIndentJSON = printJSON newline_indent '': '' 0"

section \<open>Strings are read back\<close>

lemma runeLen_le: "runeLen s \<le> length s"
  by (cases s rule: runeLen.cases) (auto simp: runeLen.simps Let_def split: list.split)

lemma runeLen_take: "runeLen s = n \<Longrightarrow> n \<noteq> 0 \<Longrightarrow> runeLen (take n s @ t) = n"
  by (cases s rule: runeLen.cases) (auto simp: runeLen.simps Let_def split: list.splits if_splits)

lemma runeLen_ascii: "byte c < 0x80 \<Longrightarrow> runeLen (c # t) = 1"
  by (simp add: runeLen.simps)

lemma hexd_hex_lower: "n < 16 \<Longrightarrow> is_hexd (hex_lower n) \<and> hexd_val (hex_lower n) = n"
proof -
  assume "n < 16"
  then have "n \<in> set [0..<16]" by simp
  then show ?thesis by (simp add: upt_rec) (elim disjE; simp add: hex_lower_def is_hexd_def hexd_val_def is_digit_def less_eq_char_def)
qed

lemma getu4_escapeU: "r < 65536 \<Longrightarrow> getu4 (drop 2 (escapeU r) @ t) = Some (r, t)"
proof -
  assume r: "r < 65536"
  have "r div 4096 < 16" "r div 256 mod 16 < 16" "r div 16 mod 16 < 16" "r mod 16 < 16" using r by simp_all
  note h = this [THEN hexd_hex_lower]
  have "r div 4096 * 4096 + r div 256 mod 16 * 256 + r div 16 mod 16 * 16 + r mod 16 = r"
  proof -
    have "r div 256 = r div 16 div 16" "r div 4096 = r div 256 div 16" by (simp_all add: div_mult2_eq [symmetric])
    then have "r div 16 = r div 256 * 16 + r div 16 mod 16" "r div 256 = r div 4096 * 16 + r div 256 mod 16" by simp_all
    moreover have "r = r div 16 * 16 + r mod 16" by simp
    ultimately show ?thesis by linarith
  qed
  then show ?thesis using h by (simp add: escapeU_def)
qed

lemma encodeRune_replacement: "encodeRune 0xFFFD = replacement"
  by code_simp

lemma unquote_escapeU:
  assumes "r < 65536" "\<not> isSurrogate r"
  shows "unquote (escapeU r @ t) = map_option (apfst ((@) (encodeRune r))) (unquote t)"
  using getu4_escapeU [OF assms(1), of t] assms(2)
  by (simp add: escapeU_def unquote_Cons escapedRune_def)

lemma unquote_escapeByte:
  assumes "byte c < 0x80"
  shows "unquote (escapeByte c @ t) = map_option (apfst ((#) c)) (unquote t)"
proof (cases "map_of escapes c")
  case None
  show ?thesis
  proof (cases "byte c < 0x20 \<or> c \<in> set ''<>&''")
    case True
    have "encodeRune (byte c) = [c]" "(@) [c] = (#) c" using assms by (auto simp: encodeRune_def)
    then show ?thesis using True None assms unquote_escapeU [of "byte c" t]
      by (simp add: escapeByte_def isSurrogate_def)
  next
    case False
    with None have "c \<noteq> CHR 0x22" "c \<noteq> CHR 0x5C" by (auto simp: escapes_def split: if_splits)
    moreover have "(@) [c] = (#) c" by auto
    ultimately show ?thesis using None False assms by (simp add: escapeByte_def unquote_Cons runeLen_ascii)
  qed
next
  case (Some e)
  then have "map_of unescapes e = Some c \<and> e \<noteq> CHR ''u''"
    by (auto simp: escapes_def unescapes_def split: if_splits)
  with Some show ?thesis by (simp add: escapeByte_def unquote_Cons)
qed

lemma unquote_rune:
  assumes "runeLen s \<noteq> 0" "0x80 \<le> byte (hd s)"
  shows "unquote (take (runeLen s) s @ t) = map_option (apfst ((@) (take (runeLen s) s))) (unquote t)"
proof -
  obtain c u where s: "take (runeLen s) s = c # u" "hd s = c"
    using assms(1) runeLen_le [of s] by (metis hd_append2 append_take_drop_id hd_Cons_tl take_eq_Nil2 le_zero_eq list.size(3))
  then have len: "length (c # u) = runeLen s" using runeLen_le [of s] by (metis length_take min.absorb2)
  have c: "c \<noteq> CHR 0x22" "c \<noteq> CHR 0x5C" "\<not> byte c < 0x20" using assms(2) s(2) by auto
  have rl: "runeLen (c # u @ t) = runeLen s" using runeLen_take [of s "runeLen s" t] assms(1) s(1) by simp
  have "unquote (c # u @ t) = map_option (apfst ((@) (c # u))) (unquote t)"
    using c rl assms(1) len by (simp add: unquote_Cons) (simp add: take_Cons' drop_Cons' split: if_splits)
  then show ?thesis using s(1) by simp
qed

lemma runeLen_separator:
  assumes "take 3 s = encodeRune r" "r = 0x2028 \<or> r = 0x2029"
  shows "runeLen s = 3"
proof -
  have "s = encodeRune r @ drop 3 s" using assms(1) by (metis append_take_drop_id)
  then have "runeLen s = runeLen (encodeRune r @ drop 3 s)" by simp
  also have "\<dots> = 3" using assms(2) by (auto simp: encodeRune_def runeLen.simps cont_def second_lo_def second_hi_def)
  finally show ?thesis .
qed

lemma unquote_appendString: "unquote (appendString s @ CHR 0x22 # r) = Some (toValidUTF8 s, r)"
proof (induction s rule: appendString.induct)
  case (1 s)
  show ?case
  proof (cases s)
    case Nil
    then show ?thesis by (simp add: appendString.simps toValidUTF8.simps unquote_Cons)
  next
    case (Cons c t)
    note as = appendString.simps [of s] and tv = toValidUTF8.simps [of s]
    consider "byte c < 0x80" | "\<not> byte c < 0x80" "runeLen s = 0" | "\<not> byte c < 0x80" "runeLen s \<noteq> 0" "take 3 s = encodeRune 0x2028"
      | "\<not> byte c < 0x80" "runeLen s \<noteq> 0" "take 3 s \<noteq> encodeRune 0x2028" "take 3 s = encodeRune 0x2029"
      | "\<not> byte c < 0x80" "runeLen s \<noteq> 0" "take 3 s \<noteq> encodeRune 0x2028" "take 3 s \<noteq> encodeRune 0x2029"
      by blast
    then show ?thesis
    proof cases
      case 1
      then show ?thesis using "1.IH"(1) Cons as tv by (simp add: unquote_escapeByte runeLen_ascii)
    next
      case 2
      then show ?thesis using "1.IH"(2) Cons as tv unquote_escapeU [of "0xFFFD"]
        by (simp add: isSurrogate_def encodeRune_replacement)
    next
      case 3
      then show ?thesis using "1.IH"(3) Cons as tv unquote_escapeU [of "0x2028"] runeLen_separator [of s "0x2028"]
        by (simp add: isSurrogate_def)
    next
      case 4
      then show ?thesis using "1.IH"(4) Cons as tv unquote_escapeU [of "0x2029"] runeLen_separator [of s "0x2029"]
        by (simp add: isSurrogate_def)
    next
      case 5
      then show ?thesis using "1.IH"(5) Cons as tv unquote_rune [of s] by simp
    qed
  qed
qed

lemma toValidUTF8_ascii: "(\<And>c. c \<in> set s \<Longrightarrow> byte c < 0x80) \<Longrightarrow> toValidUTF8 s = s"
proof (induction s)
  case Nil
  show ?case by (simp add: toValidUTF8.simps)
next
  case (Cons c s)
  then show ?case by (simp add: toValidUTF8.simps [of "c # s"] runeLen_ascii)
qed

section \<open>Values are read back\<close>

text \<open>What a value reads back as: bytes that are not UTF-8 are replaced in its strings.\<close>

fun validJSON :: "json \<Rightarrow> json" where
  "validJSON (JStr s) = JStr (toValidUTF8 s)"
| "validJSON (JArr vs) = JArr (map validJSON vs)"
| "validJSON (JObj kvs) = JObj (map (\<lambda>(k, v). (toValidUTF8 k, validJSON v)) kvs)"
| "validJSON v = v"

text \<open>Values that the encoder prints: numerals are integers, and the nesting is bounded.\<close>

definition intNumeral :: "string \<Rightarrow> bool" where
  "intNumeral n \<longleftrightarrow> (\<exists>k. n = dec k \<or> n = CHR ''-'' # dec k)"

fun printable :: "nat \<Rightarrow> json \<Rightarrow> bool" where
  "printable n (JNum s) = intNumeral s"
| "printable n (JArr vs) = (0 < n \<and> list_all (printable (n - 1)) vs)"
| "printable n (JObj kvs) = (0 < n \<and> list_all (\<lambda>(k, v). printable (n - 1) v) kvs)"
| "printable n v = True"

fun toks :: "json \<Rightarrow> tok list" where
  "toks JNull = [TNull]"
| "toks (JBool b) = [if b then TTrue else TFalse]"
| "toks (JNum n) = [TNum n]"
| "toks (JStr s) = [TStr (toValidUTF8 s)]"
| "toks (JArr vs) = TLBrack # joinWith [TComma] (map toks vs) @ [TRBrack]"
| "toks (JObj kvs) = TLBrace # joinWith [TComma] (map (\<lambda>(k, v). TStr (toValidUTF8 k) # TColon # toks v) kvs) @ [TRBrace]"

definition delim :: "string \<Rightarrow> bool" where
  "delim r \<longleftrightarrow> r = [] \<or> (\<not> is_digit (hd r) \<and> hd r \<notin> set ''.eE'')"

lemma lexer_ws: "list_all is_ws w \<Longrightarrow> lexer (w @ s) = lexer s"
  by (induction w) (simp_all add: lexer.simps [of "_ # _"])

lemma lexer_tok:
  "readTok (c # s) = Some (t, r) \<Longrightarrow> \<not> is_ws c \<Longrightarrow> lexer (c # s) = map_option ((#) t) (lexer r)"
  by (simp add: lexer.simps [of "c # s"])

lemma punct_lexer: "map_of punct c = Some t \<Longrightarrow> lexer (c # s) = map_option ((#) t) (lexer s)"
  by (rule lexer_tok) (auto simp: readTok_def punct_def is_ws_def split: if_splits)

lemma lexer_quoteJSON: "lexer (quoteJSON s @ r) = map_option ((#) (TStr (toValidUTF8 s))) (lexer r)"
proof -
  have "readTok (CHR 0x22 # appendString s @ CHR 0x22 # r) = Some (TStr (toValidUTF8 s), r)"
    by (simp add: readTok_def punct_def unquote_appendString)
  from lexer_tok [OF this] show ?thesis by (simp add: quoteJSON_def is_ws_def)
qed

lemma dec_zero: "hd (dec n) = CHR ''0'' \<Longrightarrow> dec n = ''0''"
  using dec_hd_zero [of n] by (simp add: dec.simps digit_char_def)

lemma numInt_dec:
  assumes "delim r"
  shows "numInt (dec n @ r) = Some (dec n, r)"
proof -
  have d: "is_digit (hd (dec n))" by (rule dec_digits [OF hd_in_set]) simp
  show ?thesis
  proof (cases "hd (dec n) = CHR ''0''")
    case True
    from dec_zero [OF this] show ?thesis by (simp add: numInt_def is_digit_def)
  next
    case False
    have "takeWhile is_digit r = []" "dropWhile is_digit r = r"
      using assms by (cases r; auto simp: delim_def)+
    then show ?thesis using d False dec_digits [of _ n] by (simp add: numInt_def takeWhile_append2 dropWhile_append2)
  qed
qed

lemma lexer_number:
  assumes "intNumeral n" "delim r"
  shows "lexer (n @ r) = map_option ((#) (TNum n)) (lexer r)"
proof -
  have tail: "numFrac r = Some ([], r)" "numExp r = Some ([], r)"
    using assms(2) by (auto simp: numFrac_def numExp_def delim_def)
  have d: "is_digit (hd (dec k))" "hd (dec k) \<noteq> CHR ''-''" "dec k \<noteq> []" for k
    using dec_digits [OF hd_in_set, of k] not_digit_sign(2) by (simp, metis dec_ne_Nil, simp)
  from assms(1) obtain k where "n = dec k \<or> n = CHR ''-'' # dec k" by (auto simp: intNumeral_def)
  then have rd: "readNum (n @ r) = Some (n, r)"
    using d [of k] by (auto simp: readNum_def numInt_dec [OF assms(2)] tail)
  have h: "n \<noteq> []" "hd n = CHR ''-'' \<or> is_digit (hd n)"
    using \<open>n = dec k \<or> n = CHR ''-'' # dec k\<close> d [of k] by (metis list.discI, metis list.sel(1))
  then obtain c m where n: "n = c # m" by (cases n) auto
  have c: "map_of punct c = None" "c \<noteq> CHR 0x22" "\<not> is_ws c"
    using h n by (auto simp: punct_def is_digit_def is_ws_def less_eq_char_def)
  have "readTok (c # m @ r) = Some (TNum n, r)" using rd h n c by (simp add: readTok_def)
  from lexer_tok [OF this c(3)] n show ?thesis by simp
qed

lemma lexer_join:
  assumes "\<And>x r. x \<in> set xs \<Longrightarrow> delim r \<Longrightarrow> lexer (p x @ r) = map_option ((@) (tk x)) (lexer r)"
    and "list_all is_ws w" "delim r"
  shows "lexer (joinWith ('','' @ w) (map p xs) @ r) = map_option ((@) (joinWith [TComma] (map tk xs))) (lexer r)"
  using assms(1)
proof (induction xs rule: induct_list012)
  case 1
  show ?case by (simp add: option.map_ident)
next
  case (2 x)
  then show ?case using assms(3) by simp
next
  case (3 x y zs)
  have "delim (CHR '','' # u)" for u by (simp add: delim_def is_digit_def)
  moreover have "lexer (CHR '','' # u) = map_option ((#) TComma) (lexer u)" for u
    by (rule punct_lexer) (simp add: punct_def)
  ultimately show ?case
    using 3 assms(2) by (simp add: lexer_ws option.map_comp comp_def)
qed

lemma lexer_print:
  assumes "\<And>d. list_all is_ws (nl d)" "colon = CHR '':'' # w" "list_all is_ws w"
  shows "printable n v \<Longrightarrow> delim r \<Longrightarrow> lexer (printJSON nl colon d v @ r) = map_option ((@) (toks v)) (lexer r)"
proof (induction v arbitrary: n d r)
  case JNull
  have "readTok (''null'' @ r) = Some (TNull, r)" by (simp add: readTok_def punct_def is_digit_def)
  from lexer_tok [OF this [simplified]] show ?case by (simp add: is_ws_def)
next
  case (JBool b)
  have "readTok (''true'' @ r) = Some (TTrue, r)" "readTok (''false'' @ r) = Some (TFalse, r)"
    by (simp_all add: readTok_def punct_def is_digit_def)
  from this [simplified, THEN lexer_tok] show ?case by (simp add: is_ws_def)
next
  case (JNum s)
  then show ?case by (simp add: lexer_number)
next
  case (JStr s)
  then show ?case by (simp add: lexer_quoteJSON)
next
  case (JArr vs)
  have p: "lexer (CHR ''['' # u) = map_option ((#) TLBrack) (lexer u)" "lexer (CHR '']'' # u) = map_option ((#) TRBrack) (lexer u)" for u
    by (rule punct_lexer, simp add: punct_def)+
  have "delim (nl d @ CHR '']'' # r)"
    using assms(1) [of d] by (cases "nl d") (auto simp: delim_def is_digit_def is_ws_def)
  moreover have "lexer (printJSON nl colon (Suc d) x @ u) = map_option ((@) (toks x)) (lexer u)" if "x \<in> set vs" "delim u" for x u
    using JArr.IH [of x "n - 1" u "Suc d"] that JArr.prems(1) by (auto simp: list_all_iff)
  ultimately have "lexer (joinWith ('','' @ nl (Suc d)) (map (printJSON nl colon (Suc d)) vs) @ nl d @ CHR '']'' # r)
      = map_option ((@) (joinWith [TComma] (map toks vs))) (lexer (nl d @ CHR '']'' # r))"
    using lexer_join [of vs "printJSON nl colon (Suc d)" toks "nl (Suc d)"] assms(1) by blast
  then show ?case using assms(1) by (simp add: p lexer_ws option.map_comp comp_def)
next
  case (JObj kvs)
  have p: "lexer (CHR ''{'' # u) = map_option ((#) TLBrace) (lexer u)" "lexer (CHR ''}'' # u) = map_option ((#) TRBrace) (lexer u)"
    "lexer (CHR '':'' # u) = map_option ((#) TColon) (lexer u)" for u
    by (rule punct_lexer, simp add: punct_def)+
  let ?p = "\<lambda>(k, v). quoteJSON k @ colon @ printJSON nl colon (Suc d) v" and ?t = "\<lambda>(k, v). TStr (toValidUTF8 k) # TColon # toks v"
  have "lexer (?p x @ u) = map_option ((@) (?t x)) (lexer u)" if "x \<in> set kvs" "delim u" for x u
  proof (cases x)
    case (Pair k v)
    have "lexer (printJSON nl colon (Suc d) v @ u) = map_option ((@) (toks v)) (lexer u)"
      using JObj.IH [of x v "n - 1" u "Suc d"] that JObj.prems(1) Pair by (auto simp: list_all_iff)
    then show ?thesis using Pair assms(2,3) by (cases "lexer u") (simp_all add: lexer_quoteJSON p lexer_ws)
  qed
  moreover have "delim (nl d @ CHR ''}'' # r)"
    using assms(1) [of d] by (cases "nl d") (auto simp: delim_def is_digit_def is_ws_def)
  ultimately have "lexer (joinWith ('','' @ nl (Suc d)) (map ?p kvs) @ nl d @ CHR ''}'' # r)
      = map_option ((@) (joinWith [TComma] (map ?t kvs))) (lexer (nl d @ CHR ''}'' # r))"
    using lexer_join [of kvs ?p ?t "nl (Suc d)"] assms(1) by blast
  then show ?case using assms(1) by (simp add: p lexer_ws option.map_comp comp_def)
qed

section \<open>The grammar is inverted\<close>

lemma parse_array:
  assumes "\<And>v st ts. v \<in> set (v0 # vs) \<Longrightarrow> length st = k \<Longrightarrow> parseToks PValue st (toks v @ ts) = parseToks (PAfter (validJSON v)) st ts"
    and "length st = k - 1" "0 < k"
  shows "parseToks PValue (FArr acc # st) (joinWith [TComma] (map toks (v0 # vs)) @ TRBrack # ts)
    = parseToks (PAfter (JArr (acc @ map validJSON (v0 # vs)))) st ts"
  using assms
proof (induction vs arbitrary: v0 acc)
  case Nil
  then show ?case by simp
next
  case (Cons v1 vs)
  have "parseToks PValue (FArr (acc @ [validJSON v0]) # st) (joinWith [TComma] (map toks (v1 # vs)) @ TRBrack # ts)
      = parseToks (PAfter (JArr ((acc @ [validJSON v0]) @ map validJSON (v1 # vs)))) st ts"
    by (rule Cons.IH) (use Cons.prems in auto)
  then show ?case using Cons.prems by simp
qed

lemma parse_object:
  assumes "\<And>q v st ts. (q, v) \<in> set (p0 # kvs) \<Longrightarrow> length st = k \<Longrightarrow> parseToks PValue st (toks v @ ts) = parseToks (PAfter (validJSON v)) st ts"
    and "length st = k - 1" "0 < k"
  shows "parseToks (PKey acc) st (joinWith [TComma] (map (\<lambda>(k, v). TStr (toValidUTF8 k) # TColon # toks v) (p0 # kvs)) @ TRBrace # ts)
    = parseToks (PAfter (JObj (acc @ map (\<lambda>(k, v). (toValidUTF8 k, validJSON v)) (p0 # kvs)))) st ts"
  using assms
proof (induction kvs arbitrary: p0 acc)
  case Nil
  then show ?case using Nil(1) [of "fst p0" "snd p0" "FObj acc (toValidUTF8 (fst p0)) # st"] by (cases p0) simp
next
  case (Cons p1 kvs)
  let ?t = "\<lambda>(k, v). TStr (toValidUTF8 k) # TColon # toks v" and ?v = "\<lambda>(k, v). (toValidUTF8 k, validJSON v)"
  have "parseToks (PKey (acc @ [?v p0])) st (joinWith [TComma] (map ?t (p1 # kvs)) @ TRBrace # ts)
      = parseToks (PAfter (JObj ((acc @ [?v p0]) @ map ?v (p1 # kvs)))) st ts"
    by (rule Cons.IH) (use Cons.prems in auto)
  then show ?case
    using Cons.prems(1) [of "fst p0" "snd p0" "FObj acc (toValidUTF8 (fst p0)) # st"] Cons.prems(2,3) by (cases p0) simp
qed

lemma toks_first: "\<exists>t ts. toks v = t # ts \<and> t \<noteq> TRBrack"
  by (cases v) auto

lemma parse_toks:
  "printable n v \<Longrightarrow> n + length st \<le> maxNestingDepth \<Longrightarrow> parseToks PValue st (toks v @ ts) = parseToks (PAfter (validJSON v)) st ts"
proof (induction v arbitrary: n st ts)
  case (JArr vs)
  then have st: "length st < maxNestingDepth" by auto
  have IH: "parseToks PValue st' (toks v @ ts') = parseToks (PAfter (validJSON v)) st' ts'"
    if "v \<in> set vs" "length st' = Suc (length st)" for v st' ts'
    using JArr.IH [of v "n - 1" st' ts'] JArr.prems that by (auto simp: list_all_iff)
  show ?case
  proof (cases vs)
    case Nil
    then show ?thesis using st by (simp add: startValue_def)
  next
    case (Cons v0 vs')
    have "parseToks PValueOrEnd st' (toks v @ u) = parseToks PValue st' (toks v @ u)" for st' v u
      using toks_first [of v] by auto
    moreover have "\<exists>u. joinWith [TComma] (map toks (v0 # vs')) @ TRBrack # ts = toks v0 @ u" by (cases vs') auto
    ultimately show ?thesis
      using parse_array [of v0 vs' "Suc (length st)" st "[]" ts] IH st Cons
      by (auto simp: startValue_def)
  qed
next
  case (JObj kvs)
  then have st: "length st < maxNestingDepth" by auto
  have IH: "parseToks PValue st' (toks v @ ts') = parseToks (PAfter (validJSON v)) st' ts'"
    if "(q, v) \<in> set kvs" "length st' = Suc (length st)" for q v st' ts'
    using JObj.IH [of "(q, v)" v "n - 1" st' ts'] JObj.prems that by (auto simp: list_all_iff)
  show ?case
  proof (cases kvs)
    case Nil
    then show ?thesis using st by (simp add: startValue_def)
  next
    case (Cons p0 kvs')
    have "parseToks PKeyOrEnd st (TStr x # u) = parseToks (PKey []) st (TStr x # u)" for x u by simp
    moreover have "\<exists>x u. joinWith [TComma] (map (\<lambda>(k, v). TStr (toValidUTF8 k) # TColon # toks v) (p0 # kvs')) @ TRBrace # ts = TStr x # u"
      by (cases kvs'; cases p0) auto
    ultimately have "parseToks PKeyOrEnd st (joinWith [TComma] (map (\<lambda>(k, v). TStr (toValidUTF8 k) # TColon # toks v) (p0 # kvs')) @ TRBrace # ts)
        = parseToks (PKey []) st (joinWith [TComma] (map (\<lambda>(k, v). TStr (toValidUTF8 k) # TColon # toks v) (p0 # kvs')) @ TRBrace # ts)"
      by metis
    then show ?thesis
      using parse_object [of p0 kvs' "Suc (length st)" st "[]" ts] IH st Cons
      by (simp add: startValue_def)
  qed
qed (simp_all add: startValue_def)

theorem parse_print:
  assumes "printable maxNestingDepth v" "list_all is_ws w"
  shows "parseJSON (marshalJSON v @ w) = Some (validJSON v)" and "parseJSON (marshalIndentJSON v @ w) = Some (validJSON v)"
proof -
  have w: "delim w" using assms(2) by (cases w) (auto simp: delim_def is_ws_def is_digit_def)
  have "lexer w = Some []" using lexer_ws [OF assms(2), of "[]"] by (simp add: lexer.simps)
  then have "lexer (printJSON nl (CHR '':'' # c) 0 v @ w) = Some (toks v)" if "\<And>d. list_all is_ws (nl d)" "list_all is_ws c" for nl c
    using lexer_print [OF that(1) refl that(2) assms(1) w] by simp
  moreover have "parseToks PValue [] (toks v) = Some (validJSON v)" using parse_toks [OF assms(1), of "[]" "[]"] by simp
  ultimately have r: "parseJSON (printJSON nl (CHR '':'' # c) 0 v @ w) = Some (validJSON v)"
    if "\<And>d. list_all is_ws (nl d)" "list_all is_ws c" for nl c
    using that by (simp add: parseJSON_def)
  show "parseJSON (marshalJSON v @ w) = Some (validJSON v)" unfolding marshalJSON_def by (rule r) simp_all
  have "list_all is_ws (newline_indent d)" for d by (simp add: newline_indent_def is_ws_def list_all_iff)
  then show "parseJSON (marshalIndentJSON v @ w) = Some (validJSON v)"
    unfolding marshalIndentJSON_def using r [of newline_indent "'' ''"] by (simp add: is_ws_def)
qed

section \<open>Decoding into structures\<close>

text \<open>
  \<open>Unmarshal\<close> into a pointer to a structure, as a function of the value that the structure has
  before.  A key selects the field with its name, or else the field whose name it equals up to case, with
  the two letters outside ASCII that fold to \<open>K\<close> and \<open>S\<close>; other keys are ignored, and of a key that stands
  twice the last value counts.  \<open>null\<close> sets a pointer or a slice to nil and leaves other fields alone.  A value
  of another type is an error.
\<close>

fun foldName :: "string \<Rightarrow> string" where
  "foldName [] = []"
| "foldName (c # s) =
     (if c = CHR 0xC5 \<and> s \<noteq> [] \<and> hd s = CHR 0xBF then CHR ''S'' # foldName (tl s)
      else if c = CHR 0xE2 \<and> prefix [CHR 0x84, CHR 0xAA] s then CHR ''K'' # foldName (drop 2 s)
      else (if CHR ''a'' \<le> c \<and> c \<le> CHR ''z'' then char_of (byte c - 32) else c) # foldName s)"

type_synonym 'a decoder = "json \<Rightarrow> 'a \<Rightarrow> 'a option"

definition lookupField :: "(string \<times> 'a decoder) list \<Rightarrow> string \<Rightarrow> 'a decoder option" where
  "lookupField fields k =
     (case map_of fields k of
        Some f \<Rightarrow> Some f
      | None \<Rightarrow> map_of (map (\<lambda>(n, f). (foldName n, f)) fields) (foldName k))"

fun decodeFields :: "(string \<times> 'a decoder) list \<Rightarrow> (string \<times> json) list \<Rightarrow> 'a \<Rightarrow> 'a option" where
  "decodeFields fields [] x = Some x"
| "decodeFields fields ((k, v) # kvs) x =
     (case lookupField fields k of
        None \<Rightarrow> decodeFields fields kvs x
      | Some f \<Rightarrow> Option.bind (f v x) (decodeFields fields kvs))"

fun decodeStruct :: "(string \<times> 'a decoder) list \<Rightarrow> 'a decoder" where
  "decodeStruct fields (JObj kvs) x = decodeFields fields kvs x"
| "decodeStruct fields JNull x = Some x"
| "decodeStruct fields _ x = None"

fun decodeString :: "string decoder" where
  "decodeString (JStr s) x = Some s"
| "decodeString JNull x = Some x"
| "decodeString _ x = None"

fun decodeStringPtr :: "string option decoder" where
  "decodeStringPtr (JStr s) x = Some (Some s)"
| "decodeStringPtr JNull x = Some None"
| "decodeStringPtr _ x = None"

fun decodeBoolPtr :: "bool option decoder" where
  "decodeBoolPtr (JBool b) x = Some (Some b)"
| "decodeBoolPtr JNull x = Some None"
| "decodeBoolPtr _ x = None"

text \<open>Integers: a numeral with a fraction or an exponent, or one that does not fit, is an error.\<close>

fun decodeIntPtr :: "int option decoder" where
  "decodeIntPtr (JNum n) x = map_option Some (Atoi n)"
| "decodeIntPtr JNull x = Some None"
| "decodeIntPtr _ x = None"

fun decodeUint :: "nat \<Rightarrow> nat decoder" where
  "decodeUint w (JNum n) x = ParseUint n w"
| "decodeUint w JNull x = Some x"
| "decodeUint w _ x = None"

fun decodeUintPtr :: "nat \<Rightarrow> nat option decoder" where
  "decodeUintPtr w (JNum n) x = map_option Some (ParseUint n w)"
| "decodeUintPtr w JNull x = Some None"
| "decodeUintPtr w _ x = None"

text \<open>
  A slice is its elements and the elements that its array still holds behind them: elements are
  decoded over those that stand there from an earlier value of the same field.
\<close>

record 'a slice =
  Sl_elems :: "'a list option"
  Sl_rest :: "'a list"

fun decodeElems :: "'a decoder \<Rightarrow> 'a \<Rightarrow> json list \<Rightarrow> 'a list \<Rightarrow> ('a list \<times> 'a list) option" where
  "decodeElems f zero [] old = Some ([], old)"
| "decodeElems f zero (v # vs) old =
     Option.bind (f v (case old of [] \<Rightarrow> zero | x # _ \<Rightarrow> x)) (\<lambda>x.
       map_option (apfst ((#) x)) (decodeElems f zero vs (tl old)))"

fun decodeSlice :: "'a decoder \<Rightarrow> 'a \<Rightarrow> 'a slice decoder" where
  "decodeSlice f zero (JArr vs) x =
     (if vs = [] then Some \<lparr>Sl_elems = Some [], Sl_rest = []\<rparr>
      else map_option (\<lambda>(xs, rest). \<lparr>Sl_elems = Some xs, Sl_rest = rest\<rparr>)
        (decodeElems f zero vs ((case Sl_elems x of None \<Rightarrow> [] | Some xs \<Rightarrow> xs) @ Sl_rest x)))"
| "decodeSlice f zero JNull x = Some \<lparr>Sl_elems = None, Sl_rest = []\<rparr>"
| "decodeSlice f zero _ x = None"

text \<open>A field of a structure, from a decoder for its type.\<close>

definition structField :: "string \<Rightarrow> ('a \<Rightarrow> 'b) \<Rightarrow> ('b \<Rightarrow> 'a \<Rightarrow> 'a) \<Rightarrow> 'b decoder \<Rightarrow> string \<times> 'a decoder" where
  "structField name get put f = (name, \<lambda>v x. map_option (\<lambda>y. put y x) (f v (get x)))"

definition Itoa :: "int \<Rightarrow> string" where
  "Itoa n = (if n < 0 then CHR ''-'' # dec (nat (- n)) else dec (nat n))"

lemma intNumeral_Itoa [simp]: "intNumeral (Itoa n)" "intNumeral (dec k)"
  by (auto simp: intNumeral_def Itoa_def)

lemma Atoi_Itoa [simp]: "- (2 ^ 63) \<le> n \<Longrightarrow> n < 2 ^ 63 \<Longrightarrow> Atoi (Itoa n) = Some n"
proof (cases "n < 0")
  case True
  assume "- (2 ^ 63) \<le> n"
  with True show ?thesis by (simp add: Itoa_def Atoi_def list_all_iff dec_digits)
next
  case False
  assume "n < 2 ^ 63"
  with False Atoi_dec [of "nat n"] show ?thesis by (simp add: Itoa_def)
qed

lemma decodeElems_fresh:
  assumes "list_all2 (\<lambda>v x. f v zero = Some x) vs xs"
  shows "decodeElems f zero vs [] = Some (xs, [])"
  using assms by (induction rule: list_all2_induct) simp_all

end
