(* ===== verification/Store.thy ===== *)
theory Store
  imports Leases Timefmt Json
begin

text \<open>
  Package \<open>internal/state\<close>, \<open>jsonstore.go\<close>: the state file.  The file system is an explicit map
  from paths to files and symbolic links; every system call of \<open>Load\<close> and \<open>Save\<close> can fail as
  the argument \<open>flt\<close> says, and \<open>Save\<close> returns the states between its system calls, which are the
  states a crash of the process can leave.  The mutex serialises the calls.  The bytes of the file
  are those of \<open>encoding/json\<close> (\<open>Json\<close>) and of the RFC 3339 layout (\<open>Timefmt\<close>).
\<close>

section \<open>The file's contents\<close>

record fileLease =
  FL_StackKey :: string
  FL_VIP :: string
  FL_CreatedAt :: string
  FL_LastSeenAt :: string
  FL_LastActiveAt :: string

record fileSnapshot =
  FS_Version :: "int option"
  FS_Leases :: "fileLease list option"

text \<open>The structures' JSON, with the names of their tags.\<close>

definition leaseJSON :: "fileLease \<Rightarrow> json" where
  "leaseJSON l =
     JObj [(''stack_key'', JStr (FL_StackKey l)), (''vip'', JStr (FL_VIP l)), (''created_at'', JStr (FL_CreatedAt l)),
       (''last_seen_at'', JStr (FL_LastSeenAt l)), (''last_active_at'', JStr (FL_LastActiveAt l))]"

definition snapshotJSON :: "fileSnapshot \<Rightarrow> json" where
  "snapshotJSON f =
     JObj [(''version'', case FS_Version f of None \<Rightarrow> JNull | Some v \<Rightarrow> JNum (Itoa v)),
       (''leases'', case FS_Leases f of None \<Rightarrow> JNull | Some ls \<Rightarrow> JArr (map leaseJSON ls))]"

text \<open>\<open>json.MarshalIndent(raw, "", "  ")\<close>; strings and integers always have an encoding.\<close>

definition MarshalIndent :: "fileSnapshot \<Rightarrow> string option" where
  "MarshalIndent f = Some (marshalIndentJSON (snapshotJSON f))"

text \<open>\<open>json.Unmarshal\<close> into a zero \<open>fileSnapshot\<close>, whose slice of leases shows its array while decoding.\<close>

record rawSnapshot =
  RS_Version :: "int option"
  RS_Leases :: "fileLease slice"

definition zeroFileLease :: fileLease where
  "zeroFileLease = \<lparr>FL_StackKey = [], FL_VIP = [], FL_CreatedAt = [], FL_LastSeenAt = [], FL_LastActiveAt = []\<rparr>"

definition leaseFields :: "(string \<times> fileLease decoder) list" where
  "leaseFields =
     [structField ''stack_key'' FL_StackKey (\<lambda>y. FL_StackKey_update (\<lambda>_. y)) decodeString,
      structField ''vip'' FL_VIP (\<lambda>y. FL_VIP_update (\<lambda>_. y)) decodeString,
      structField ''created_at'' FL_CreatedAt (\<lambda>y. FL_CreatedAt_update (\<lambda>_. y)) decodeString,
      structField ''last_seen_at'' FL_LastSeenAt (\<lambda>y. FL_LastSeenAt_update (\<lambda>_. y)) decodeString,
      structField ''last_active_at'' FL_LastActiveAt (\<lambda>y. FL_LastActiveAt_update (\<lambda>_. y)) decodeString]"

definition snapshotFields :: "(string \<times> rawSnapshot decoder) list" where
  "snapshotFields =
     [structField ''version'' RS_Version (\<lambda>y. RS_Version_update (\<lambda>_. y)) decodeIntPtr,
      structField ''leases'' RS_Leases (\<lambda>y. RS_Leases_update (\<lambda>_. y)) (decodeSlice (decodeStruct leaseFields) zeroFileLease)]"

definition Unmarshal :: "string \<Rightarrow> fileSnapshot option" where
  "Unmarshal data =
     (case parseJSON data of
        None \<Rightarrow> None
      | Some j \<Rightarrow>
          map_option (\<lambda>r. \<lparr>FS_Version = RS_Version r, FS_Leases = Sl_elems (RS_Leases r)\<rparr>)
            (decodeStruct snapshotFields j \<lparr>RS_Version = None, RS_Leases = \<lparr>Sl_elems = None, Sl_rest = []\<rparr>\<rparr>))"

text \<open>
  JSON replaces bytes that are not UTF-8, so the round trip is stated for ASCII strings.
\<close>

definition ascii :: "string \<Rightarrow> bool" where
  "ascii s \<longleftrightarrow> (\<forall>c\<in>set s. of_char c < (128 :: nat))"

definition ascii_lease :: "fileLease \<Rightarrow> bool" where
  "ascii_lease l \<longleftrightarrow> ascii (FL_StackKey l) \<and> ascii (FL_VIP l) \<and> ascii (FL_CreatedAt l)
     \<and> ascii (FL_LastSeenAt l) \<and> ascii (FL_LastActiveAt l)"

lemma toValid_ascii [simp]: "ascii s \<Longrightarrow> toValidUTF8 s = s"
  by (auto simp: ascii_def intro: toValidUTF8_ascii)

lemma decode_lease:
  assumes "ascii_lease l"
  shows "decodeStruct leaseFields (validJSON (leaseJSON l)) zeroFileLease = Some l"
proof -
  have "ascii ''stack_key''" "ascii ''vip''" "ascii ''created_at''" "ascii ''last_seen_at''" "ascii ''last_active_at''"
    by (simp_all add: ascii_def)
  then show ?thesis
    using assms by (simp add: leaseJSON_def ascii_lease_def lookupField_def leaseFields_def structField_def zeroFileLease_def)
qed

lemma Unmarshal_Marshal:
  assumes "list_all ascii_lease ls" "- (2 ^ 63) \<le> v" "v < 2 ^ 63"
  shows "\<exists>data. MarshalIndent \<lparr>FS_Version = Some v, FS_Leases = Some ls\<rparr> = Some data
    \<and> Unmarshal (data @ [CHR 0x0A]) = Some \<lparr>FS_Version = Some v, FS_Leases = Some ls\<rparr>"
proof -
  let ?f = "\<lparr>FS_Version = Some v, FS_Leases = Some ls\<rparr>"
  have "printable 1 (leaseJSON l)" for l by (simp add: leaseJSON_def)
  then have "printable (Suc n) (leaseJSON l)" for n l by (simp add: leaseJSON_def)
  then have "printable maxNestingDepth (snapshotJSON ?f)"
    by (simp add: snapshotJSON_def maxNestingDepth_def list_all_iff) (metis numeral_eq_Suc)
  then have p: "parseJSON (marshalIndentJSON (snapshotJSON ?f) @ [CHR 0x0A]) = Some (validJSON (snapshotJSON ?f))"
    by (intro parse_print) (simp_all add: is_ws_def)
  have "list_all2 (\<lambda>j l. decodeStruct leaseFields j zeroFileLease = Some l) (map (\<lambda>l. validJSON (leaseJSON l)) ls) ls"
    using assms(1) by (auto simp: list_all2_conv_all_nth list_all_length decode_lease)
  then have "decodeElems (decodeStruct leaseFields) zeroFileLease (map (\<lambda>l. validJSON (leaseJSON l)) ls) [] = Some (ls, [])"
    by (rule decodeElems_fresh)
  moreover have "ascii ''version''" "ascii ''leases''" by (simp_all add: ascii_def)
  ultimately have "decodeStruct snapshotFields (validJSON (snapshotJSON ?f)) \<lparr>RS_Version = None, RS_Leases = \<lparr>Sl_elems = None, Sl_rest = []\<rparr>\<rparr>
      = Some \<lparr>RS_Version = Some v, RS_Leases = \<lparr>Sl_elems = Some ls, Sl_rest = []\<rparr>\<rparr>"
    using assms(2,3) by (simp add: snapshotJSON_def lookupField_def snapshotFields_def structField_def comp_def)
  with p show ?thesis by (simp add: MarshalIndent_def Unmarshal_def)
qed

datatype store_error =
    StStat
  | StSymlink
  | StPermission nat
  | StRead
  | StEmptyFile
  | StInvalidJSON
  | StVersionMissing
  | StVersionZero
  | StUnknownVersion int
  | StEmptyKey nat
  | StDupKey string
  | StEmptyVIP nat
  | StInvalidVIP nat
  | StNotIPv4 nat
  | StDupVIP addr
  | StCreatedAt nat
  | StLastSeenAt nat
  | StLastActiveAt nat
  | StUnsupportedVersion int
  | StSnapshot snapshot_error
  | StMkdir
  | StChmodDir
  | StMarshal
  | StOpenTemp
  | StChmodTemp
  | StWriteTemp
  | StSyncTemp
  | StCloseTemp
  | StRename

section \<open>Conversion\<close>

definition formatTime :: "gotime \<Rightarrow> string" where
  "formatTime t = (if t = 0 then '''' else FormatRFC3339 t)"

definition toFileSnapshot :: "Snapshot \<Rightarrow> fileSnapshot" where
  "toFileSnapshot snap =
     \<lparr>FS_Version = Some (Snap_Version snap),
      FS_Leases = Some (map (\<lambda>l. \<lparr>FL_StackKey = Lease_StackKey l, FL_VIP = Addr_String (Lease_VIP l),
        FL_CreatedAt = formatTime (Lease_CreatedAt l), FL_LastSeenAt = formatTime (Lease_LastSeenAt l),
        FL_LastActiveAt = formatTime (Lease_LastActiveAt l)\<rparr>) (Snap_Leases snap))\<rparr>"

definition parseOptionalTime :: "string \<Rightarrow> gotime option" where
  "parseOptionalTime s =
     (if s = '''' then Some 0
      else case ParseRFC3339 s of Some t \<Rightarrow> Some t | None \<Rightarrow> ParseRFC3339Nano s)"

fun convertLeases :: "nat \<Rightarrow> StackKey set \<Rightarrow> addr set \<Rightarrow> fileLease list \<Rightarrow> store_error + Lease list" where
  "convertLeases i seenKeys seenVIPs [] = Inr []"
| "convertLeases i seenKeys seenVIPs (fl # fls) =
     (if FL_StackKey fl = '''' then Inl (StEmptyKey i)
      else if FL_StackKey fl \<in> seenKeys then Inl (StDupKey (FL_StackKey fl))
      else if FL_VIP fl = '''' then Inl (StEmptyVIP i)
      else case ParseAddr (FL_VIP fl) of
        None \<Rightarrow> Inl (StInvalidVIP i)
      | Some a \<Rightarrow>
      if \<not> Is4 a then Inl (StNotIPv4 i)
      else if a \<in> seenVIPs then Inl (StDupVIP a)
      else case parseOptionalTime (FL_CreatedAt fl) of
        None \<Rightarrow> Inl (StCreatedAt i)
      | Some created \<Rightarrow>
      (case parseOptionalTime (FL_LastSeenAt fl) of
        None \<Rightarrow> Inl (StLastSeenAt i)
      | Some seen \<Rightarrow>
      (case parseOptionalTime (FL_LastActiveAt fl) of
        None \<Rightarrow> Inl (StLastActiveAt i)
      | Some active \<Rightarrow>
      (case convertLeases (Suc i) (insert (FL_StackKey fl) seenKeys) (insert a seenVIPs) fls of
        Inl e \<Rightarrow> Inl e
      | Inr ls \<Rightarrow>
          Inr (\<lparr>Lease_StackKey = FL_StackKey fl, Lease_VIP = a, Lease_CreatedAt = created,
                Lease_LastSeenAt = seen, Lease_LastActiveAt = active\<rparr> # ls)))))"

definition validateAndConvert :: "fileSnapshot \<Rightarrow> store_error + Snapshot" where
  "validateAndConvert raw =
     (case FS_Version raw of
        None \<Rightarrow> Inl StVersionMissing
      | Some v \<Rightarrow>
          if v = 0 then Inl StVersionZero
          else if v \<noteq> SchemaVersion then Inl (StUnknownVersion v)
          else (case convertLeases 0 {} {} (case FS_Leases raw of None \<Rightarrow> [] | Some ls \<Rightarrow> ls) of
                  Inl e \<Rightarrow> Inl e
                | Inr ls \<Rightarrow> Inr \<lparr>Snap_Version = v, Snap_Leases = ls\<rparr>))"

section \<open>The file system\<close>

text \<open>The mode \<open>0o600\<close>.\<close>

definition mode_0600 :: nat where "mode_0600 = 384"

datatype fsnode = File string nat | SymLink

type_synonym fsys = "(string, fsnode) gomap"

text \<open>A mode is open to group or world when one of its low six bits is set.\<close>

definition checkOwnerOnlyPerms :: "nat \<Rightarrow> store_error option" where
  "checkOwnerOnlyPerms perm = (if perm mod 64 \<noteq> 0 then Some (StPermission perm) else None)"

datatype load_fault = LfStat | LfRead

definition Load :: "string \<Rightarrow> load_fault option \<Rightarrow> fsys \<Rightarrow> store_error + Snapshot" where
  "Load path flt fs =
     (if flt = Some LfStat then Inl StStat
      else case map_of fs path of
        None \<Rightarrow> Inr \<lparr>Snap_Version = SchemaVersion, Snap_Leases = []\<rparr>
      | Some SymLink \<Rightarrow> Inl StSymlink
      | Some (File data mode) \<Rightarrow>
          (case checkOwnerOnlyPerms mode of
             Some e \<Rightarrow> Inl e
           | None \<Rightarrow>
               if flt = Some LfRead then Inl StRead
               else if data = '''' then Inl StEmptyFile
               else (case Unmarshal data of
                       None \<Rightarrow> Inl StInvalidJSON
                     | Some raw \<Rightarrow> validateAndConvert raw)))"

datatype save_fault =
    SfMkdir | SfChmodDir | SfOpen | SfChmod | SfWrite nat | SfSync | SfClose | SfRename

text \<open>
  \<open>ensureDir\<close> only touches the directory; of the file system of this model it changes nothing.
\<close>

definition ensureDir :: "string \<Rightarrow> save_fault option \<Rightarrow> store_error option" where
  "ensureDir dir flt =
     (if dir = '''' \<or> dir = ''.'' then None
      else if flt = Some SfMkdir then Some StMkdir
      else if flt = Some SfChmodDir then Some StChmodDir
      else None)"

text \<open>\<open>filepath.Dir\<close> of a cleaned path: what precedes the last slash.\<close>

definition path_Dir :: "string \<Rightarrow> string" where
  "path_Dir path =
     (case split_last (CHR ''/'') path of
        None \<Rightarrow> ''.'' | Some (d, _) \<Rightarrow> if d = '''' then ''/'' else d)"

definition put_file :: "string \<Rightarrow> fsnode \<Rightarrow> fsys \<Rightarrow> fsys" where
  "put_file p n fs = AList.update p n fs"

definition remove_file :: "string \<Rightarrow> fsys \<Rightarrow> fsys" where
  "remove_file p fs = AList.delete p fs"

text \<open>
  The temporary file is written, then renamed; the states are listed in order.  The \<open>os.Remove\<close> of the
  temporary file after a failure, whose result the code ignores, is taken to succeed: where it fails the state before
  it stays.  The fsync of the directory after the rename, whose result is ignored too, is left out.
\<close>

definition writeTemp :: "string \<Rightarrow> string \<Rightarrow> save_fault option \<Rightarrow> fsys \<Rightarrow> fsys list \<times> store_error option" where
  "writeTemp path data flt fs =
     (let tmp = path @ ''.tmp'' in
      if flt = Some SfOpen \<or> map_of fs tmp = Some SymLink then ([fs], Some StOpenTemp)
      else
        let mode0 = (case map_of fs tmp of Some (File _ m) \<Rightarrow> m | _ \<Rightarrow> mode_0600);
            opened = put_file tmp (File '''' mode0) fs;
            gone = remove_file tmp opened
        in if flt = Some SfChmod then ([fs, opened, gone], Some StChmodTemp)
        else
          let written = (\<lambda>k. put_file tmp (File (take k data) mode_0600) fs);
              before = [fs, opened]
          in case flt of
               Some (SfWrite k) \<Rightarrow> (before @ map written [0..<Suc (min k (length data))] @ [gone], Some StWriteTemp)
             | _ \<Rightarrow>
                 let during = before @ map written [0..<Suc (length data)] in
                 if flt = Some SfSync then (during @ [gone], Some StSyncTemp)
                 else if flt = Some SfClose then (during @ [gone], Some StCloseTemp)
                 else if flt = Some SfRename then (during @ [gone], Some StRename)
                 else (during @ [put_file path (File data mode_0600) gone], None))"

text \<open>\<open>Save\<close>: the states it goes through, the last of which is the final one, and its error.\<close>

definition Save :: "string \<Rightarrow> save_fault option \<Rightarrow> Snapshot \<Rightarrow> fsys \<Rightarrow> fsys list \<times> store_error option" where
  "Save path flt snap0 fs =
     (let snap = (if Snap_Version snap0 = 0 then snap0\<lparr>Snap_Version := SchemaVersion\<rparr> else snap0) in
      if Snap_Version snap \<noteq> SchemaVersion then ([fs], Some (StUnsupportedVersion (Snap_Version snap)))
      else case validateSnapshot snap of
        Some e \<Rightarrow> ([fs], Some (StSnapshot e))
      | None \<Rightarrow>
      (case ensureDir (path_Dir path) flt of
        Some e \<Rightarrow> ([fs], Some e)
      | None \<Rightarrow>
      (case MarshalIndent (toFileSnapshot snap) of
        None \<Rightarrow> ([fs], Some StMarshal)
      | Some data \<Rightarrow> writeTemp path (data @ [CHR 0x0A]) flt fs)))"

section \<open>What \<open>Load\<close> accepts\<close>

lemma convertLeases_inv:
  assumes "convertLeases i ks vs fls = Inr ls"
  shows "lease_inv ls \<and> Lease_StackKey ` set ls \<inter> ks = {} \<and> Lease_VIP ` set ls \<inter> vs = {}
    \<and> map Lease_StackKey ls = map FL_StackKey fls"
  using assms
proof (induction fls arbitrary: i ks vs ls)
  case (Cons fl fls)
  from Cons.prems obtain a c s v ls' where r: "FL_StackKey fl \<noteq> ''''" "FL_StackKey fl \<notin> ks" "Is4 a" "a \<notin> vs"
    "convertLeases (Suc i) (insert (FL_StackKey fl) ks) (insert a vs) fls = Inr ls'"
    "ls = \<lparr>Lease_StackKey = FL_StackKey fl, Lease_VIP = a, Lease_CreatedAt = c, Lease_LastSeenAt = s, Lease_LastActiveAt = v\<rparr> # ls'"
    by (auto split: if_splits option.splits sum.splits)
  note IH = Cons.IH [OF r(5)]
  then have "FL_StackKey ` set fls = Lease_StackKey ` set ls'" by (metis set_map)
  with IH r show ?case by (auto simp: lease_inv_def wf_lease_def image_iff)
qed simp

lemma validateAndConvert_inv:
  "validateAndConvert raw = Inr snap \<Longrightarrow> lease_inv (Snap_Leases snap) \<and> Snap_Version snap = SchemaVersion"
  by (auto simp: validateAndConvert_def dest!: convertLeases_inv split: option.splits if_splits sum.splits)

lemma Load_inv [inv_intros]:
  assumes "Load path flt fs = Inr snap"
  shows "lease_inv (Snap_Leases snap) \<and> Snap_Version snap = SchemaVersion"
  using assms validateAndConvert_inv
  by (auto simp: Load_def split: if_splits option.splits fsnode.splits)

section \<open>Round trip\<close>

definition truncate_lease :: "Lease \<Rightarrow> Lease" where
  "truncate_lease l = l\<lparr>Lease_CreatedAt := truncate_second (Lease_CreatedAt l),
     Lease_LastSeenAt := truncate_second (Lease_LastSeenAt l), Lease_LastActiveAt := truncate_second (Lease_LastActiveAt l)\<rparr>"

definition storable :: "Lease \<Rightarrow> bool" where
  "storable l \<longleftrightarrow> ascii (Lease_StackKey l) \<and> rfc_time (Lease_CreatedAt l) \<and> rfc_time (Lease_LastSeenAt l) \<and> rfc_time (Lease_LastActiveAt l)"

definition toFileLease :: "Lease \<Rightarrow> fileLease" where
  "toFileLease l = \<lparr>FL_StackKey = Lease_StackKey l, FL_VIP = Addr_String (Lease_VIP l),
     FL_CreatedAt = formatTime (Lease_CreatedAt l), FL_LastSeenAt = formatTime (Lease_LastSeenAt l),
     FL_LastActiveAt = formatTime (Lease_LastActiveAt l)\<rparr>"

lemma toFileSnapshot_eq:
  "toFileSnapshot snap = \<lparr>FS_Version = Some (Snap_Version snap), FS_Leases = Some (map toFileLease (Snap_Leases snap))\<rparr>"
  by (simp add: toFileSnapshot_def toFileLease_def [abs_def])

lemma time_roundtrip:
  assumes "rfc_time t"
  shows "parseOptionalTime (formatTime t) = Some (truncate_second t)"
  using Parse_Format [OF assms] Format_not_empty [of t]
  by (auto simp: parseOptionalTime_def formatTime_def truncate_second_def)

lemma vip_roundtrip: "Is4 a \<Longrightarrow> ParseAddr (Addr_String a) = Some a \<and> Addr_String a \<noteq> ''''"
proof (cases a)
  case (Addr4 ip)
  moreover have "string4 ip \<noteq> []" using ParseAddr_string4 [of ip] by (auto simp: ParseAddr_def)
  ultimately show ?thesis by simp
qed simp_all

lemma convertLeases_roundtrip:
  assumes "lease_inv ls" "list_all storable ls"
    and "Lease_StackKey ` set ls \<inter> ks = {}" "Lease_VIP ` set ls \<inter> vs = {}"
  shows "convertLeases i ks vs (map toFileLease ls) = Inr (map truncate_lease ls)"
  using assms
proof (induction ls arbitrary: i ks vs)
  case (Cons l ls)
  have "lease_inv ls" "list_all storable ls"
    "Lease_StackKey ` set ls \<inter> insert (Lease_StackKey l) ks = {}" "Lease_VIP ` set ls \<inter> insert (Lease_VIP l) vs = {}"
    using Cons.prems by (auto simp: lease_inv_def)
  note IH = Cons.IH [OF this, of "Suc i"]
  have l: "Is4 (Lease_VIP l)" "Lease_StackKey l \<noteq> []" "Lease_StackKey l \<notin> ks" "Lease_VIP l \<notin> vs" "storable l"
    using Cons.prems by (auto simp: lease_inv_def wf_lease_def)
  show ?case
    using l IH vip_roundtrip [OF l(1)] time_roundtrip
    by (simp add: toFileLease_def storable_def truncate_lease_def)
qed simp

lemma ascii_digit: "is_digit c \<Longrightarrow> of_char c < (128 :: nat)"
  by (auto simp: is_digit_def less_eq_char_def)

lemma ascii_Format: "ascii (FormatRFC3339 t)"
proof -
  have "c \<in> set (pad w n) \<Longrightarrow> byte c < 128" for c w n
    using pad_digits [of w n] by (auto simp: list_all_iff ascii_digit)
  then have "c \<in> set (appendInt n w) \<Longrightarrow> byte c < 128" "c \<in> set (pad w m) \<Longrightarrow> byte c < 128" for c w n m
    by (auto simp: appendInt_def split: if_splits)
  then show ?thesis by (auto simp: ascii_def FormatRFC3339_def Let_def split: prod.splits)
qed

lemma ascii_toFileLease:
  assumes "storable l" "Is4 (Lease_VIP l)"
  shows "ascii_lease (toFileLease l)"
proof -
  have "ascii (formatTime t)" for t using ascii_Format by (simp add: formatTime_def ascii_def)
  moreover have "ascii (Addr_String (Lease_VIP l))"
    using assms(2) by (cases "Lease_VIP l") (auto simp: ascii_def dest!: string4_chars ascii_digit)
  ultimately show ?thesis
    using assms(1) by (simp add: ascii_lease_def toFileLease_def storable_def)
qed

section \<open>Crash safety\<close>

text \<open>Between its system calls \<open>writeTemp\<close> leaves the target path alone; the rename is atomic.\<close>

lemma map_of_put_file [simp]: "map_of (put_file p n fs) = (map_of fs)(p \<mapsto> n)"
  by (simp add: put_file_def)

lemma map_of_remove_file [simp]: "map_of (remove_file p fs) = (map_of fs)(p := None)"
  by (simp add: remove_file_def delete_conv')

lemma tmp_ne [simp]: "path \<noteq> path @ ''.tmp''" "path @ ''.tmp'' \<noteq> path"
  by simp_all

lemma writeTemp_states:
  assumes "writeTemp path data flt fs = (states, e)"
  shows "states \<noteq> []"
    and "st \<in> set states \<Longrightarrow> map_of st path = map_of fs path \<or> e = None \<and> st = last states"
    and "e = None \<Longrightarrow> map_of (last states) = (map_of fs)(path @ ''.tmp'' := None, path \<mapsto> File data mode_0600)"
  using assms
  by (auto simp: writeTemp_def Let_def split: if_splits option.splits save_fault.splits)

lemma Save_states:
  assumes "Save path flt snap fs = (states, e)"
  shows "states \<noteq> []"
    and "st \<in> set states \<Longrightarrow> map_of st path = map_of fs path \<or> e = None \<and> st = last states"
    and "e = None \<Longrightarrow> \<exists>data. MarshalIndent (toFileSnapshot (snap\<lparr>Snap_Version := SchemaVersion\<rparr>)) = Some data
      \<and> lease_inv (Snap_Leases snap)
      \<and> map_of (last states) = (map_of fs)(path @ ''.tmp'' := None, path \<mapsto> File (data @ [CHR 0x0A]) mode_0600)"
proof -
  let ?snap = "if Snap_Version snap = 0 then snap\<lparr>Snap_Version := SchemaVersion\<rparr> else snap"
  consider (fail) "states = [fs]" "e \<noteq> None"
    | (wrote) data where "Snap_Version ?snap = SchemaVersion" "validateSnapshot ?snap = None"
        "MarshalIndent (toFileSnapshot ?snap) = Some data" "writeTemp path (data @ [CHR 0x0A]) flt fs = (states, e)"
    using assms
    by (cases "ensureDir (path_Dir path) flt"; auto simp: Save_def Let_def split: if_splits option.splits; metis)
  then have "states \<noteq> [] \<and> (\<forall>st\<in>set states. map_of st path = map_of fs path \<or> e = None \<and> st = last states)
    \<and> (e = None \<longrightarrow> (\<exists>data. MarshalIndent (toFileSnapshot (snap\<lparr>Snap_Version := SchemaVersion\<rparr>)) = Some data
      \<and> lease_inv (Snap_Leases snap)
      \<and> map_of (last states) = (map_of fs)(path @ ''.tmp'' := None, path \<mapsto> File (data @ [CHR 0x0A]) mode_0600)))"
  proof cases
    case fail
    then show ?thesis by auto
  next
    case (wrote data)
    have "?snap = snap\<lparr>Snap_Version := SchemaVersion\<rparr>"
      using wrote(1) by (cases snap) (auto split: if_splits)
    moreover have "lease_inv (Snap_Leases snap)"
      using wrote(2) by (simp add: validateSnapshot_None_iff split: if_splits)
    ultimately show ?thesis
      using wrote(3) writeTemp_states [OF wrote(4)] by auto
  qed
  then show "states \<noteq> []"
    and "st \<in> set states \<Longrightarrow> map_of st path = map_of fs path \<or> e = None \<and> st = last states"
    and "e = None \<Longrightarrow> \<exists>data. MarshalIndent (toFileSnapshot (snap\<lparr>Snap_Version := SchemaVersion\<rparr>)) = Some data
      \<and> lease_inv (Snap_Leases snap)
      \<and> map_of (last states) = (map_of fs)(path @ ''.tmp'' := None, path \<mapsto> File (data @ [CHR 0x0A]) mode_0600)"
    by blast+
qed

text \<open>Without a fault and without a symbolic link at the temporary path a valid snapshot is saved.\<close>

lemma Save_succeeds:
  assumes "Snap_Version snap \<in> {0, SchemaVersion}" "lease_inv (Snap_Leases snap)" "map_of fs (path @ ''.tmp'') \<noteq> Some SymLink"
  shows "snd (Save path None snap fs) = None"
proof -
  have "validateSnapshot (if Snap_Version snap = 0 then snap\<lparr>Snap_Version := SchemaVersion\<rparr> else snap) = None"
    using assms(2) by (simp add: validateSnapshot_None_iff)
  then show ?thesis
    using assms(1,3) by (auto simp: Save_def Let_def ensureDir_def MarshalIndent_def writeTemp_def)
qed

lemma Load_cong: "map_of fs path = map_of fs' path \<Longrightarrow> Load path flt fs = Load path flt fs'"
  by (simp add: Load_def)

lemma Load_Save:
  assumes "list_all storable (Snap_Leases snap)" "Save path flt snap fs = (states, None)"
  shows "Load path None (last states) = Inr \<lparr>Snap_Version = SchemaVersion, Snap_Leases = map truncate_lease (Snap_Leases snap)\<rparr>"
proof -
  obtain data where d: "MarshalIndent (toFileSnapshot (snap\<lparr>Snap_Version := SchemaVersion\<rparr>)) = Some data"
    "lease_inv (Snap_Leases snap)"
    "map_of (last states) = (map_of fs)(path @ ''.tmp'' := None, path \<mapsto> File (data @ [CHR 0x0A]) mode_0600)"
    using Save_states(3) [OF assms(2)] by blast
  let ?f = "\<lparr>FS_Version = Some SchemaVersion, FS_Leases = Some (map toFileLease (Snap_Leases snap))\<rparr>"
  have m: "MarshalIndent ?f = Some data" using d(1) by (simp add: toFileSnapshot_eq)
  have "list_all ascii_lease (map toFileLease (Snap_Leases snap))"
    using assms(1) d(2) ascii_toFileLease by (auto simp: list_all_iff lease_inv_def wf_lease_def)
  from Unmarshal_Marshal [OF this, of SchemaVersion]
  have "\<exists>data'. MarshalIndent ?f = Some data' \<and> Unmarshal (data' @ [CHR 0x0A]) = Some ?f" by (simp add: SchemaVersion_def)
  then have u: "Unmarshal (data @ [CHR 0x0A]) = Some ?f" using m by simp
  have "convertLeases 0 {} {} (map toFileLease (Snap_Leases snap)) = Inr (map truncate_lease (Snap_Leases snap))"
    using assms(1) d(2) by (intro convertLeases_roundtrip) auto
  then show ?thesis
    by (simp add: Load_def d(3) checkOwnerOnlyPerms_def mode_0600_def u validateAndConvert_def SchemaVersion_def)
qed

section \<open>The interface\<close>

text \<open>
  The \<open>Store\<close> as the reconciler sees it: what is loaded meets the invariant, a failed save
  changes nothing that can be loaded, and after a successful save the same stacks hold the
  same VIPs.
\<close>

locale lease_store =
  fixes wf :: "'w \<Rightarrow> bool"
    and load :: "'w \<Rightarrow> store_error + Snapshot"
    and save :: "'f \<Rightarrow> 'w \<Rightarrow> Snapshot \<Rightarrow> 'w \<times> store_error option"
  assumes save_wf: "wf w \<Longrightarrow> wf (fst (save f w s))"
    and load_inv: "load w = Inr s \<Longrightarrow> lease_inv (Snap_Leases s) \<and> Snap_Version s = SchemaVersion"
    and save_error: "snd (save f w s) = Some e \<Longrightarrow> load (fst (save f w s)) = load w"
    and save_ok: "wf w \<Longrightarrow> list_all storable (Snap_Leases s) \<Longrightarrow> snd (save f w s) = None \<Longrightarrow>
      \<exists>s'. load (fst (save f w s)) = Inr s' \<and> lease_map (Snap_Leases s') = lease_map (Snap_Leases s)
        \<and> list_all storable (Snap_Leases s')"
begin

text \<open>Whatever a save does, the leases on disk afterwards are the old or the new ones.\<close>

lemma save_old_or_new:
  assumes "wf w" "list_all storable (Snap_Leases s)" "load w = Inr s0"
  shows "\<exists>s'. load (fst (save f w s)) = Inr s'
    \<and> (lease_map (Snap_Leases s') = lease_map (Snap_Leases s0) \<or> lease_map (Snap_Leases s') = lease_map (Snap_Leases s))"
proof (cases "snd (save f w s)")
  case None
  with save_ok assms show ?thesis by blast
next
  case (Some e)
  with save_error assms(3) show ?thesis by auto
qed

end

record JSONStore =
  JS_path :: string
  JS_fs :: fsys

definition store_Load :: "JSONStore \<Rightarrow> store_error + Snapshot" where
  "store_Load js = Load (JS_path js) None (JS_fs js)"

definition store_Save :: "save_fault option \<Rightarrow> JSONStore \<Rightarrow> Snapshot \<Rightarrow> JSONStore \<times> store_error option" where
  "store_Save flt js snap =
     (case Save (JS_path js) flt snap (JS_fs js) of (states, e) \<Rightarrow> (js\<lparr>JS_fs := last states\<rparr>, e))"

lemma truncate_lease_fields [simp]:
  "Lease_StackKey (truncate_lease l) = Lease_StackKey l" "Lease_VIP (truncate_lease l) = Lease_VIP l"
  by (simp_all add: truncate_lease_def)

lemma storable_truncate: "storable l \<Longrightarrow> storable (truncate_lease l)"
proof -
  have "rfc_time t \<Longrightarrow> rfc_time (truncate_second t)" for t
    using zmod_le_nonneg_dividend [of t second] pos_mod_sign [of second t] by (auto simp: rfc_time_def truncate_second_def)
  then show "storable l \<Longrightarrow> storable (truncate_lease l)" by (simp add: storable_def truncate_lease_def)
qed

lemma storable_iff: "storable l \<longleftrightarrow> ascii (Lease_StackKey l) \<and> lease_times rfc_time l"
  by (simp add: storable_def lease_times_def)

interpretation json_store: lease_store "\<lambda>_. True" store_Load store_Save
proof
  fix js :: JSONStore and f s e
  obtain states r where sv: "Save (JS_path js) f s (JS_fs js) = (states, r)" by force
  show "store_Load js = Inr s \<Longrightarrow> lease_inv (Snap_Leases s) \<and> Snap_Version s = SchemaVersion"
    by (simp add: store_Load_def Load_inv)
  show "store_Load (fst (store_Save f js s)) = store_Load js" if "snd (store_Save f js s) = Some e"
  proof -
    have "r = Some e" using that by (simp add: store_Save_def sv)
    then have "map_of (last states) (JS_path js) = map_of (JS_fs js) (JS_path js)"
      using Save_states(1,2) [OF sv] last_in_set by blast
    then show ?thesis by (simp add: store_Load_def store_Save_def sv) (erule Load_cong)
  qed
  show "\<exists>s'. store_Load (fst (store_Save f js s)) = Inr s' \<and> lease_map (Snap_Leases s') = lease_map (Snap_Leases s)
      \<and> list_all storable (Snap_Leases s')"
    if "list_all storable (Snap_Leases s)" "snd (store_Save f js s) = None"
  proof -
    have "r = None" using that(2) by (simp add: store_Save_def sv)
    with sv Load_Save [OF that(1)]
    have "store_Load (fst (store_Save f js s)) = Inr \<lparr>Snap_Version = SchemaVersion, Snap_Leases = map truncate_lease (Snap_Leases s)\<rparr>"
      by (simp add: store_Load_def store_Save_def)
    then show ?thesis using that(1) by (auto simp: lease_map_map list_all_iff storable_truncate)
  qed
qed simp

section \<open>An example\<close>

definition store_snap :: Snapshot where
  "store_snap = \<lparr>Snap_Version = 0, Snap_Leases =
     [\<lparr>Lease_StackKey = ''shop'', Lease_VIP = Addr4 0x7F4D0009, Lease_CreatedAt = 1500000000,
       Lease_LastSeenAt = 2000000001, Lease_LastActiveAt = 0\<rparr>]\<rparr>"

lemma store_snap_storable: "list_all storable (Snap_Leases store_snap)"
  by (simp add: store_snap_def storable_def ascii_def rfc_time_def)

lemma store_snap_saves: "snd (Save ''/s/state.json'' None store_snap []) = None"
  by (rule Save_succeeds) (simp_all add: store_snap_def lease_inv_def wf_lease_def)

section \<open>Properties\<close>

text \<open>
  C7 (roundtrip).  What a successful \<open>Save\<close> has written, \<open>Load\<close> reads back: the same leases in
  the same order, with version 1 and with every time truncated to whole seconds.  The keys are ASCII and the times
  lie in the years 1 to 9999 (\<open>storable\<close>), as those of the daemon do.
\<close>

theorem Save_Load_roundtrip:
  assumes "list_all storable (Snap_Leases snap)" "Save path flt snap fs = (states, None)"
  shows "Load path None (last states) = Inr \<lparr>Snap_Version = SchemaVersion, Snap_Leases = map truncate_lease (Snap_Leases snap)\<rparr>"
  using assms by (rule Load_Save)

theorem Save_Load_roundtrip_witness:
  "\<exists>states. Save ''/s/state.json'' None store_snap [] = (states, None)
     \<and> Load ''/s/state.json'' None (last states) = Inr \<lparr>Snap_Version = 1, Snap_Leases =
         [\<lparr>Lease_StackKey = ''shop'', Lease_VIP = Addr4 0x7F4D0009, Lease_CreatedAt = 1000000000,
           Lease_LastSeenAt = 2000000000, Lease_LastActiveAt = 0\<rparr>]\<rparr>"
proof -
  obtain states where s: "Save ''/s/state.json'' None store_snap [] = (states, None)"
    using store_snap_saves by (metis prod.collapse)
  from Save_Load_roundtrip [OF store_snap_storable s] s show ?thesis
    by (simp add: store_snap_def truncate_lease_def truncate_second_def SchemaVersion_def)
qed

lemma Save_crash_atomic_facts:
  assumes "Save path flt snap fs = (states, e)" "st \<in> set states"
  shows "map_of st path = map_of fs path
    \<or> e = None \<and> st = last states \<and> (\<exists>data. map_of st path = Some (File (data @ [CHR 0x0A]) mode_0600)
        \<and> MarshalIndent (toFileSnapshot (snap\<lparr>Snap_Version := SchemaVersion\<rparr>)) = Some data)"
    and "e \<noteq> None \<Longrightarrow> Load path lf (last states) = Load path lf fs"
proof -
  show "map_of st path = map_of fs path
    \<or> e = None \<and> st = last states \<and> (\<exists>data. map_of st path = Some (File (data @ [CHR 0x0A]) mode_0600)
        \<and> MarshalIndent (toFileSnapshot (snap\<lparr>Snap_Version := SchemaVersion\<rparr>)) = Some data)"
    using Save_states(2) [OF assms] Save_states(3) [OF assms(1)] by auto
  show "Load path lf (last states) = Load path lf fs" if "e \<noteq> None"
    using Save_states(2) [OF assms(1) last_in_set [OF Save_states(1) [OF assms(1)]]] that
    by (intro Load_cong) simp
qed

text \<open>
  C6 (safety).  \<open>Save\<close> is crash safe: in every state between its system calls, and after any of
  them has failed, the state file is the old one, unless \<open>Save\<close> succeeds, when the last state
  alone has the complete new file.  In particular a failed save leaves what \<open>Load\<close> returns
  unchanged.
\<close>

theorem Save_crash_atomic:
  assumes "Save path flt snap fs = (states, e)" "st \<in> set states"
  shows "(map_of st path = map_of fs path
      \<or> e = None \<and> st = last states \<and> (\<exists>data. map_of st path = Some (File (data @ [CHR 0x0A]) mode_0600)
          \<and> MarshalIndent (toFileSnapshot (snap\<lparr>Snap_Version := SchemaVersion\<rparr>)) = Some data))
    \<and> (e \<noteq> None \<longrightarrow> Load path lf (last states) = Load path lf fs)"
  using Save_crash_atomic_facts [OF assms] by blast

theorem Save_crash_atomic_witness:
  "\<exists>states e. Save ''/s/state.json'' (Some (SfWrite 3)) store_snap [(''/s/state.json'', File ''old'' 384)] = (states, Some e)
     \<and> map_of (last states) ''/s/state.json'' = Some (File ''old'' 384)"
proof -
  have v: "validateSnapshot (store_snap\<lparr>Snap_Version := SchemaVersion\<rparr>) = None" "Snap_Version store_snap = 0"
    by (simp_all add: store_snap_def validateSnapshot_None_iff lease_inv_def wf_lease_def)
  have "snd (Save ''/s/state.json'' (Some (SfWrite 3)) store_snap [(''/s/state.json'', File ''old'' 384)]) = Some StWriteTemp"
    using v by (simp add: Save_def Let_def ensureDir_def path_Dir_def MarshalIndent_def writeTemp_def)
  then obtain states where s: "Save ''/s/state.json'' (Some (SfWrite 3)) store_snap [(''/s/state.json'', File ''old'' 384)]
      = (states, Some StWriteTemp)" by (metis prod.collapse)
  from Save_crash_atomic [OF s last_in_set [OF Save_states(1) [OF s]]] s show ?thesis by auto
qed

text \<open>
  A snapshot that \<open>Load\<close> returns meets the lease invariant and has version 1,
  whatever bytes the file holds and however they are decoded.
\<close>

theorem Load_sound:
  assumes "Load path flt fs = Inr snap"
  shows "lease_inv (Snap_Leases snap) \<and> Snap_Version snap = 1"
  using Load_inv [OF assms] by (simp add: SchemaVersion_def)

theorem Load_sound_witness:
  "lease_inv (Snap_Leases \<lparr>Snap_Version = 1, Snap_Leases = []\<rparr>) \<and> Snap_Version \<lparr>Snap_Version = 1, Snap_Leases = []\<rparr> = 1"
  by (rule Load_sound [of "''/s/state.json''" None "[]"]) (simp add: Load_def SchemaVersion_def)

text \<open>
  \<open>Load\<close> refuses a state file that group or world may access, a symbolic link and an
  empty file; a missing file is an empty snapshot.
\<close>

theorem Load_refuses:
  "(map_of fs path = Some SymLink \<longrightarrow> Load path None fs = Inl StSymlink)
    \<and> (map_of fs path = Some (File data mode) \<and> mode mod 64 \<noteq> 0 \<longrightarrow> Load path None fs = Inl (StPermission mode))
    \<and> (map_of fs path = Some (File '''' mode) \<and> mode mod 64 = 0 \<longrightarrow> Load path None fs = Inl StEmptyFile)
    \<and> (map_of fs path = None \<longrightarrow> Load path None fs = Inr \<lparr>Snap_Version = 1, Snap_Leases = []\<rparr>)"
  by (simp add: Load_def checkOwnerOnlyPerms_def SchemaVersion_def)

theorem Load_refuses_witness:
  "Load ''/s/state.json'' None [(''/s/state.json'', File ''x'' 420)] = Inl (StPermission 420)"
  using Load_refuses [of "[(''/s/state.json'', File ''x'' 420)]" "''/s/state.json''" "''x''" 420] by simp

end
