(* ===== verification/Apply.thy ===== *)
theory Apply
  imports Build Dns Proxy Store
begin

text \<open>
  Package \<open>internal/reconcile\<close>, \<open>apply.go\<close>: a desired state is saved, then advertised through
  DNS and the proxy, and summed up in a status snapshot.  The collaborators are interfaces in
  the code; here they are the fields of a record of operations, on states of any type, and a
  \<open>nil\<close> collaborator is \<^const>\<open>None\<close>.  Maps are visited in the order of their association lists.
\<close>

section \<open>Collaborators\<close>

record ('st, 'dn, 'px) impls =
  I_load :: "'st \<Rightarrow> store_error + Snapshot"
  I_save :: "'st \<Rightarrow> Snapshot \<Rightarrow> 'st \<times> store_error option"
  I_SetRecords :: "'dn \<Rightarrow> Record list \<Rightarrow> 'dn \<times> dns_error option"
  I_ListenAddr :: "'dn \<Rightarrow> string"
  I_Reconcile :: "Endpoint list \<Rightarrow> 'px \<Rightarrow> 'px \<times> proxy_error option"

record ('st, 'dn, 'px) world =
  W_store :: "'st option"
  W_dns :: "'dn option"
  W_proxy :: "'px option"

record applyConfig =
  AC_BaseDomain :: string
  AC_DNSTTL :: u32
  AC_DNSListen :: string

section \<open>Status\<close>

record StatusEndpoint =
  SE_FQDN :: string
  SE_PublicPort :: u16
  SE_Target :: string
  SE_ContainerID :: string
  SE_Service :: string
  SE_Protocol :: string
  SE_VIP :: string

record StatusStack =
  SS_Key :: string
  SS_VIP :: string
  SS_Lease :: string
  SS_Endpoints :: "StatusEndpoint list"

record StatusSnapshot =
  St_Daemon :: string
  St_DNSListen :: string
  St_BaseDomain :: string
  St_VIPPool :: string
  St_Stacks :: "StatusStack list"
  St_Endpoints :: "Endpoint list"
  St_Resolve :: "(string, string) gomap"
  St_Leases :: "Lease list"

definition normalizeName :: "string \<Rightarrow> string" where
  "normalizeName name = ToLower (TrimSuffix (TrimSpace name) ''.'')"

text \<open>The digits of a port, last first; the buffer has five bytes.\<close>

function itoaLoop :: "u16 \<Rightarrow> string \<Rightarrow> string" where
  "itoaLoop p buf = (if p = 0 then buf else itoaLoop (p div 10) (char_of (48 + unat (p mod 10)) # buf))"
  by pat_completeness auto

lemma unat_div10: "unat (p div 10 :: u16) = unat p div 10" "unat (p mod 10 :: u16) = unat p mod 10"
  by (simp_all add: unat_div unat_mod)

termination itoaLoop
proof (relation "measure (\<lambda>(p, _). unat p)")
  fix p :: u16 and buf :: string
  assume "p \<noteq> 0"
  then have "0 < unat p" by (simp add: unat_gt_0)
  then show "((p div 10, char_of (48 + unat (p mod 10)) # buf), (p, buf)) \<in> measure (\<lambda>(p, _). unat p)"
    by (simp add: unat_div10)
qed simp

declare itoaLoop.simps [simp del]

definition itoaPort :: "u16 \<Rightarrow> string" where
  "itoaPort p = (if p = 0 then ''0'' else itoaLoop p '''')"

section \<open>DNS records\<close>

fun addRecords :: "u32 \<Rightarrow> (string \<times> addr) list \<Rightarrow> string set \<times> Record list \<Rightarrow> string set \<times> Record list" where
  "addRecords ttl [] (seen, recs) = (seen, recs)"
| "addRecords ttl ((name, vip) # nvs) (seen, recs) =
     (if name \<in> seen then addRecords ttl nvs (seen, recs)
      else addRecords ttl nvs (insert name seen,
             recs @ [\<lparr>Rec_Name = name, Rec_Type = ''A'', Rec_VIP = vip, Rec_TTL = ttl\<rparr>]))"

definition stackName :: "string \<Rightarrow> Stack \<Rightarrow> string" where
  "stackName base st = snd (BuildFQDNs ''_'' (Stack_ProjectSlug st) (Stack_InstanceSlug st) base)"

definition buildDNSRecords :: "DesiredState \<Rightarrow> string \<Rightarrow> u32 \<Rightarrow> Record list" where
  "buildDNSRecords desired base ttl =
     (let keys = sort (gokeys (Stacks desired));
          stackRecs = map (\<lambda>k. let st = the (map_of (Stacks desired) k) in (stackName base st, Stack_VIP st)) keys;
          epKeys = sort (gokeys (Endpoints desired));
          epRecs = map (\<lambda>k. let ep = the (map_of (Endpoints desired) k) in (Ep_FQDN ep, Ep_VIP ep)) epKeys
      in snd (addRecords ttl epRecs (addRecords ttl stackRecs ({}, []))))"

section \<open>The status snapshot\<close>

definition sortEndpoints :: "Endpoint list \<Rightarrow> Endpoint list" where
  "sortEndpoints eps = sort_key (\<lambda>ep. (Ep_FQDN ep, unat (Ep_PublicPort ep))) eps"

definition statusEndpoint :: "Endpoint \<Rightarrow> StatusEndpoint" where
  "statusEndpoint ep =
     \<lparr>SE_FQDN = Ep_FQDN ep, SE_PublicPort = Ep_PublicPort ep,
      SE_Target = Addr_String (Ep_TargetHost ep) @ '':'' @ itoaPort (Ep_TargetBind ep),
      SE_ContainerID = Ep_ContainerID ep, SE_Service = Ep_ServiceName ep,
      SE_Protocol = Ep_Protocol ep, SE_VIP = Addr_String (Ep_VIP ep)\<rparr>"

definition statusStack :: "DesiredState \<Rightarrow> StackKey \<Rightarrow> StatusStack" where
  "statusStack desired k =
     \<lparr>SS_Key = k, SS_VIP = Addr_String (Stack_VIP (the (map_of (Stacks desired) k))), SS_Lease = ''active'',
      SS_Endpoints = sort_key SE_FQDN (map statusEndpoint (filter (\<lambda>ep. Ep_StackKey ep = k) (govals (Endpoints desired))))\<rparr>"

definition graceStack :: "Lease list \<Rightarrow> StackKey \<Rightarrow> StatusStack" where
  "graceStack ls k =
     (let leaseByKey = foldl (\<lambda>m l. m(Lease_StackKey l \<mapsto> l)) Map.empty ls in
      \<lparr>SS_Key = k, SS_VIP = (case leaseByKey k of Some l \<Rightarrow> Addr_String (Lease_VIP l) | None \<Rightarrow> Addr_String AddrZero),
       SS_Lease = ''grace'', SS_Endpoints = []\<rparr>)"

definition resolveMap :: "DesiredState \<Rightarrow> string \<Rightarrow> (string, string) gomap" where
  "resolveMap desired base =
     foldl (\<lambda>m ep. AList.update (normalizeName (Ep_FQDN ep)) (Addr_String (Ep_VIP ep)) m)
       (foldl (\<lambda>m st. AList.update (normalizeName (stackName base st)) (Addr_String (Stack_VIP st)) m)
          [] (govals (Stacks desired)))
       (govals (Endpoints desired))"

definition buildStatusSnapshot :: "DesiredState \<Rightarrow> Snapshot \<Rightarrow> applyConfig \<Rightarrow> string option \<Rightarrow> StatusSnapshot" where
  "buildStatusSnapshot desired snap cfg dnsAddr =
     (let dnsListen = (if AC_DNSListen cfg = '''' then (case dnsAddr of Some a \<Rightarrow> a | None \<Rightarrow> '''') else AC_DNSListen cfg);
          stackKeys = sort (gokeys (Stacks desired));
          inactiveKeys = sort (filter (\<lambda>k. map_of (Stacks desired) k = None) (map Lease_StackKey (Snap_Leases snap)))
      in \<lparr>St_Daemon = ''running'', St_DNSListen = dnsListen, St_BaseDomain = AC_BaseDomain cfg, St_VIPPool = '''',
          St_Stacks = map (statusStack desired) stackKeys @ map (graceStack (Snap_Leases snap)) inactiveKeys,
          St_Endpoints = sortEndpoints (govals (Endpoints desired)),
          St_Resolve = resolveMap desired (AC_BaseDomain cfg),
          St_Leases = Snap_Leases snap\<rparr>)"

section \<open>Apply\<close>

definition advertise :: "('st, 'dn, 'px) impls \<Rightarrow> DesiredState \<Rightarrow> applyConfig \<Rightarrow> ('st, 'dn, 'px) world \<Rightarrow> ('st, 'dn, 'px) world" where
  "advertise I desired cfg w =
     (let recs = buildDNSRecords desired (AC_BaseDomain cfg) (AC_DNSTTL cfg);
          w1 = w\<lparr>W_dns := map_option (\<lambda>dn. fst (I_SetRecords I dn recs)) (W_dns w)\<rparr>;
          eps = sortEndpoints (govals (Endpoints desired))
      in w1\<lparr>W_proxy := map_option (\<lambda>px. fst (I_Reconcile I eps px)) (W_proxy w1)\<rparr>)"

definition dns_addr :: "('st, 'dn, 'px) impls \<Rightarrow> ('st, 'dn, 'px) world \<Rightarrow> string option" where
  "dns_addr I w = map_option (I_ListenAddr I) (W_dns w)"

definition apply_desired :: "('st, 'dn, 'px) impls \<Rightarrow> DesiredState \<Rightarrow> Snapshot \<Rightarrow> applyConfig \<Rightarrow> ('st, 'dn, 'px) world
    \<Rightarrow> ('st, 'dn, 'px) world \<times> StatusSnapshot" where
  "apply_desired I desired snap cfg w =
     (case W_store w of
        None \<Rightarrow> let w' = advertise I desired cfg w in (w', buildStatusSnapshot desired snap cfg (dns_addr I w'))
      | Some st \<Rightarrow>
          (case I_save I st snap of
             (st', Some _) \<Rightarrow>
               let w' = w\<lparr>W_store := Some st'\<rparr> in (w', buildStatusSnapshot desired snap cfg (dns_addr I w'))
           | (st', None) \<Rightarrow>
               let w' = advertise I desired cfg (w\<lparr>W_store := Some st'\<rparr>)
               in (w', buildStatusSnapshot desired snap cfg (dns_addr I w'))))"

section \<open>Ports\<close>

lemma itoaLoop_dec: "p \<noteq> 0 \<Longrightarrow> itoaLoop p buf = dec (unat p) @ buf"
proof (induction p buf rule: itoaLoop.induct)
  case (1 p buf)
  have d: "char_of (48 + unat (p mod 10)) = digit_char (unat p mod 10)" by (simp add: digit_char_def unat_div10)
  show ?case
  proof (cases "p div 10 = 0")
    case True
    then have "unat p div 10 = 0" using unat_div10(1) [of p] by simp
    then have "unat p < 10" by simp
    then show ?thesis
      using 1(2) True d by (simp add: itoaLoop.simps [of p] itoaLoop.simps [of 0] dec_1)
  next
    case False
    then have "unat p div 10 \<noteq> 0" by (simp flip: unat_div10(1) add: unat_eq_0)
    then have "\<not> unat p < 10" by simp
    then have "dec (unat p) = dec (unat p div 10) @ [digit_char (unat p mod 10)]" by (subst dec.simps) simp
    then show ?thesis
      using 1 False d by (simp add: itoaLoop.simps [of p] unat_div10)
  qed
qed

lemma itoaPort_dec: "itoaPort p = dec (unat p)"
proof (cases "p = 0")
  case True
  moreover have "itoaPort 0 = dec 0" by code_simp
  ultimately show ?thesis by simp
qed (simp add: itoaPort_def itoaLoop_dec)

section \<open>Records\<close>

definition rec_pair :: "Record \<Rightarrow> string \<times> addr" where
  "rec_pair r = (Rec_Name r, Rec_VIP r)"

lemma addRecords_spec:
  assumes "addRecords ttl nvs (seen, recs) = (seen', recs')"
    and "seen = Rec_Name ` set recs" "distinct (map Rec_Name recs)"
  shows "seen' = Rec_Name ` set recs' \<and> distinct (map Rec_Name recs')
    \<and> map_of (map rec_pair recs') = map_of nvs ++ map_of (map rec_pair recs)
    \<and> (\<forall>r\<in>set recs'. r \<in> set recs \<or> ((Rec_Name r, Rec_VIP r) \<in> set nvs \<and> Rec_Type r = ''A'' \<and> Rec_TTL r = ttl))"
  using assms
proof (induction nvs arbitrary: seen recs)
  case (Cons nv nvs)
  obtain name vip where nv: "nv = (name, vip)" by (cases nv)
  have dom: "map_of (map rec_pair recs) n = None \<longleftrightarrow> n \<notin> seen" for n
    using Cons.prems(2) by (auto simp: map_of_None_iff rec_pair_def image_iff)
  show ?case
  proof (cases "name \<in> seen")
    case True
    then have "map_of (map rec_pair recs) name \<noteq> None" using dom by simp
    then have "map_of nvs ++ map_of (map rec_pair recs) = map_of (nv # nvs) ++ map_of (map rec_pair recs)"
      by (auto simp: nv map_add_def fun_eq_iff split: option.splits)
    moreover have "addRecords ttl nvs (seen, recs) = (seen', recs')" using Cons.prems(1) True by (simp add: nv)
    ultimately show ?thesis
      using Cons.IH [OF _ Cons.prems(2,3)] unfolding list.set(2) by (metis insertI2)
  next
    case False
    let ?r = "\<lparr>Rec_Name = name, Rec_Type = ''A'', Rec_VIP = vip, Rec_TTL = ttl\<rparr>"
    have "addRecords ttl nvs (insert name seen, recs @ [?r]) = (seen', recs')" using Cons.prems(1) False by (simp add: nv)
    moreover have "insert name seen = Rec_Name ` set (recs @ [?r])" "distinct (map Rec_Name (recs @ [?r]))"
      using Cons.prems(2,3) False by auto
    moreover have "map_of nvs ++ map_of (map rec_pair (recs @ [?r])) = map_of (nv # nvs) ++ map_of (map rec_pair recs)"
      using dom [of name] False by (auto simp: nv rec_pair_def map_add_def fun_eq_iff split: option.splits)
    ultimately have IH: "seen' = Rec_Name ` set recs' \<and> distinct (map Rec_Name recs')
        \<and> map_of (map rec_pair recs') = map_of (nv # nvs) ++ map_of (map rec_pair recs)"
      "\<forall>r\<in>set recs'. r \<in> set (recs @ [?r]) \<or> ((Rec_Name r, Rec_VIP r) \<in> set nvs \<and> Rec_Type r = ''A'' \<and> Rec_TTL r = ttl)"
      using Cons.IH by metis+
    from IH(2) have "\<forall>r\<in>set recs'. r \<in> set recs \<or> ((Rec_Name r, Rec_VIP r) \<in> set (nv # nvs) \<and> Rec_Type r = ''A'' \<and> Rec_TTL r = ttl)"
      by (auto simp: nv)
    with IH(1) show ?thesis by blast
  qed
qed auto

lemma addRecords_append:
  "addRecords ttl (xs @ ys) s = addRecords ttl ys (addRecords ttl xs s)"
  by (induction ttl xs s rule: addRecords.induct) auto

text \<open>The names that are to be published, stacks first.\<close>

definition stackPairs :: "DesiredState \<Rightarrow> string \<Rightarrow> (string \<times> addr) list" where
  "stackPairs desired base =
     map (\<lambda>k. let st = the (map_of (Stacks desired) k) in (stackName base st, Stack_VIP st)) (sort (gokeys (Stacks desired)))"

definition epPairs :: "DesiredState \<Rightarrow> (string \<times> addr) list" where
  "epPairs desired =
     map (\<lambda>k. let ep = the (map_of (Endpoints desired) k) in (Ep_FQDN ep, Ep_VIP ep)) (sort (gokeys (Endpoints desired)))"

lemma buildDNSRecords_spec:
  assumes "buildDNSRecords desired base ttl = recs"
  shows "distinct (map Rec_Name recs)"
    and "map_of (map rec_pair recs) = map_of (stackPairs desired base @ epPairs desired)"
    and "r \<in> set recs \<Longrightarrow> (Rec_Name r, Rec_VIP r) \<in> set (stackPairs desired base @ epPairs desired) \<and> Rec_Type r = ''A'' \<and> Rec_TTL r = ttl"
proof -
  have "recs = snd (addRecords ttl (stackPairs desired base @ epPairs desired) ({}, []))"
    using assms by (simp add: buildDNSRecords_def addRecords_append stackPairs_def epPairs_def Let_def)
  then obtain seen where "addRecords ttl (stackPairs desired base @ epPairs desired) ({}, []) = (seen, recs)"
    by (metis prod.collapse)
  from addRecords_spec [OF this] show "distinct (map Rec_Name recs)"
    and "map_of (map rec_pair recs) = map_of (stackPairs desired base @ epPairs desired)"
    and "r \<in> set recs \<Longrightarrow> (Rec_Name r, Rec_VIP r) \<in> set (stackPairs desired base @ epPairs desired) \<and> Rec_Type r = ''A'' \<and> Rec_TTL r = ttl"
    by auto
qed

lemma the_map_of_image: "(\<lambda>k. f (the (map_of m k))) ` set (gokeys m) = f ` ran (map_of m)"
proof -
  have "set (gokeys m) = dom (map_of m)" by (simp add: dom_map_of_conv_image_fst)
  then show ?thesis by (force simp: ran_def image_iff)
qed

lemma set_stackPairs:
  "set (stackPairs desired base) = (\<lambda>st. (stackName base st, Stack_VIP st)) ` ran (map_of (Stacks desired))"
  unfolding stackPairs_def Let_def set_map set_sort the_map_of_image [symmetric] by (simp add: image_image)

lemma set_epPairs: "set (epPairs desired) = (\<lambda>ep. (Ep_FQDN ep, Ep_VIP ep)) ` ran (map_of (Endpoints desired))"
  unfolding epPairs_def Let_def set_map set_sort the_map_of_image [symmetric] by (simp add: image_image)

end
