(* ===== verification/Engine.thy ===== *)
theory Engine
  imports Apply
begin

text \<open>
  Package \<open>internal/reconcile\<close>, \<open>engine.go\<close>: the dependencies and their defaults, one reconcile
  cycle and the event loop.  The collaborators are the fields of \<^typ>\<open>('st, 'dn, 'px) impls\<close> and
  \<^typ>\<open>('st, 'dn, 'px) world\<close>; what a cycle learns from the outside (the clock, Docker's answer) is
  a \<open>cycle\<close> record.  The loop is modelled one \<open>select\<close> at a time, each at a point of time, with the
  trigger channel, the debounce timer and the ticker as state.
\<close>

section \<open>Dependencies\<close>

record allocator =
  A_Allocate :: allocate_fn
  A_ReleaseExpired :: "Snapshot \<Rightarrow> gotime \<Rightarrow> duration \<Rightarrow> Snapshot \<times> StackKey list"

text \<open>The store, the DNS controller and the proxy of \<open>Deps\<close> are in the world.\<close>

record Deps =
  D_Docker :: bool
  D_Alloc :: "allocator option"
  D_BaseDomain :: string
  D_DefaultInstance :: string
  D_DNSTTL :: u32
  D_DNSListen :: string
  D_VIPPool :: string
  D_VIPLeaseGrace :: duration
  D_ReconcileInterval :: duration
  D_ReconcileDebounce :: duration
  D_ReconcileTimeout :: duration

record Engine =
  E_deps :: Deps
  E_snapshot :: StatusSnapshot
  E_reconciles :: "64 word"

definition depsDefaults :: "Deps \<Rightarrow> Deps" where
  "depsDefaults d =
     d\<lparr>D_DNSTTL := (if D_DNSTTL d = 0 then 5 else D_DNSTTL d),
       D_VIPLeaseGrace := (if D_VIPLeaseGrace d \<le> 0 then 24 * 3600 * second else D_VIPLeaseGrace d),
       D_ReconcileInterval := (if D_ReconcileInterval d \<le> 0 then 15 * second else D_ReconcileInterval d),
       D_ReconcileDebounce := (if D_ReconcileDebounce d < 0 then 250000000 else D_ReconcileDebounce d),
       D_ReconcileTimeout := (if D_ReconcileTimeout d \<le> 0 then 30 * second else D_ReconcileTimeout d),
       D_BaseDomain := (if D_BaseDomain d = '''' then ''stacklane.test'' else D_BaseDomain d)\<rparr>"

definition NewEngine :: "Deps \<Rightarrow> Engine" where
  "NewEngine deps =
     (let d = depsDefaults deps in
      \<lparr>E_deps = d,
       E_snapshot = \<lparr>St_Daemon = ''starting'', St_DNSListen = D_DNSListen d, St_BaseDomain = D_BaseDomain d,
         St_VIPPool = D_VIPPool d, St_Stacks = [], St_Endpoints = [], St_Resolve = [], St_Leases = []\<rparr>,
       E_reconciles = 0\<rparr>)"

text \<open>
  The copy of a snapshot, slice by slice: values are not shared here, so it is the snapshot, no
  part of it left out.
\<close>

definition cloneSnapshot :: "StatusSnapshot \<Rightarrow> StatusSnapshot" where
  "cloneSnapshot s =
     s\<lparr>St_Stacks := map (\<lambda>st. st\<lparr>SS_Endpoints := [ep. ep \<leftarrow> SS_Endpoints st]\<rparr>) (St_Stacks s),
       St_Endpoints := [ep. ep \<leftarrow> St_Endpoints s],
       St_Resolve := [(k, v). (k, v) \<leftarrow> St_Resolve s],
       St_Leases := [l. l \<leftarrow> St_Leases s]\<rparr>"

lemma cloneSnapshot_id [simp]: "cloneSnapshot s = s"
  by (simp add: cloneSnapshot_def)

definition Engine_Snapshot :: "Engine \<Rightarrow> StatusSnapshot" where
  "Engine_Snapshot e = cloneSnapshot (E_snapshot e)"

definition ReconcileCount :: "Engine \<Rightarrow> 64 word" where
  "ReconcileCount e = E_reconciles e"

section \<open>One cycle\<close>

text \<open>
  What a cycle is given: the engine's \<open>Now\<close>, the clock that the allocator reads at its \<open>i\<close>-th
  call, and the result of \<open>ListRunning\<close>.
\<close>

record cycle =
  Cy_now :: gotime
  Cy_clk :: "nat \<Rightarrow> gotime"
  Cy_list :: "string + Container list"

definition loadLeases :: "('st, 'dn, 'px) impls \<Rightarrow> ('st, 'dn, 'px) world \<Rightarrow> store_error + Snapshot" where
  "loadLeases I w =
     (case W_store w of Some st \<Rightarrow> I_load I st | None \<Rightarrow> Inr \<lparr>Snap_Version = SchemaVersion, Snap_Leases = []\<rparr>)"

definition listContainers :: "Deps \<Rightarrow> cycle \<Rightarrow> string + Container list" where
  "listContainers d cy = (if D_Docker d then Cy_list cy else Inr [])"

definition releaseExpired :: "Deps \<Rightarrow> gotime \<Rightarrow> Snapshot \<Rightarrow> Snapshot" where
  "releaseExpired d now snap =
     (case D_Alloc d of None \<Rightarrow> snap | Some a \<Rightarrow> fst (A_ReleaseExpired a snap now (D_VIPLeaseGrace d)))"

definition buildCfg :: "Deps \<Rightarrow> BuildConfig" where
  "buildCfg d = \<lparr>BC_BaseDomain = D_BaseDomain d, BC_DefaultInstance = D_DefaultInstance d\<rparr>"

definition applyCfg :: "Deps \<Rightarrow> applyConfig" where
  "applyCfg d = \<lparr>AC_BaseDomain = D_BaseDomain d, AC_DNSTTL = D_DNSTTL d, AC_DNSListen = D_DNSListen d\<rparr>"

definition fillStatus :: "('st, 'dn, 'px) impls \<Rightarrow> Deps \<Rightarrow> ('st, 'dn, 'px) world \<Rightarrow> StatusSnapshot \<Rightarrow> StatusSnapshot" where
  "fillStatus I d w st =
     (let st1 = (if St_VIPPool st = '''' then st\<lparr>St_VIPPool := D_VIPPool d\<rparr> else st)
      in case dns_addr I w of
           Some a \<Rightarrow> if St_DNSListen st1 = '''' then st1\<lparr>St_DNSListen := a\<rparr> else st1
         | None \<Rightarrow> st1)"

definition countPass :: "Engine \<Rightarrow> Engine" where
  "countPass e = e\<lparr>E_reconciles := E_reconciles e + 1\<rparr>"

definition reconcileOnce :: "('st, 'dn, 'px) impls \<Rightarrow> cycle \<Rightarrow> Engine \<times> ('st, 'dn, 'px) world \<Rightarrow> Engine \<times> ('st, 'dn, 'px) world" where
  "reconcileOnce I cy = (\<lambda>(e, w).
     let d = E_deps e; now = Cy_now cy in
     case loadLeases I w of
       Inl _ \<Rightarrow> (countPass e, w)
     | Inr snap \<Rightarrow>
     (case listContainers d cy of
       Inl _ \<Rightarrow> (countPass e, w)
     | Inr containers \<Rightarrow>
         let (snap', desired) = BuildDesired containers (releaseExpired d now snap) (map_option A_Allocate (D_Alloc d))
               (buildCfg d) (Cy_clk cy) now;
             (w', status) = apply_desired I desired snap' (applyCfg d) w
         in (countPass (e\<lparr>E_snapshot := fillStatus I d w' status\<rparr>), w')))"

text \<open>The second loop of \<open>ResolveVIP\<close> takes the first match in the order of the map.\<close>

definition ResolveVIP :: "Engine \<Rightarrow> string \<Rightarrow> string option" where
  "ResolveVIP e name =
     (let n = normalizeName name; m = St_Resolve (Engine_Snapshot e) in
      case map_of m n of
        Some v \<Rightarrow> Some v
      | None \<Rightarrow> map_option snd (List.find (\<lambda>(k, v). normalizeName k = n) m))"


section \<open>The event loop\<close>

text \<open>
  The state of \<open>Run\<close>: whether the trigger channel, of capacity one, is full; the deadline of the
  debounce timer, if it is set; the time at which the ticker next has a tick to deliver; whether
  the channels of events and errors are still non-nil; the time of the last \<open>select\<close>.
\<close>

record ('st, 'dn, 'px) run_state =
  R_engine :: Engine
  R_world :: "('st, 'dn, 'px) world"
  R_trigger :: bool
  R_timer :: "gotime option"
  R_tick :: gotime
  R_events :: bool
  R_errs :: bool
  R_now :: gotime
  R_returned :: bool

text \<open>
  The cases of the \<open>select\<close>.  A case that reconciles carries the operations and the inputs of
  that cycle; \<open>CaseEvent\<close> and \<open>CaseErr\<close> say whether a value was received or the channel was
  found closed.
\<close>

datatype ('st, 'dn, 'px) run_case =
    CaseDone
  | CaseTrigger "('st, 'dn, 'px) impls" cycle
  | CaseDebounce "('st, 'dn, 'px) impls" cycle
  | CaseTick
  | CaseEvent bool
  | CaseErr bool

text \<open>A timer that is stopped, and drained if it has fired, delivers nothing any more.\<close>

definition stopDebounce :: "('st, 'dn, 'px) run_state \<Rightarrow> ('st, 'dn, 'px) run_state" where
  [simp]: "stopDebounce s = s\<lparr>R_timer := None\<rparr>"

text \<open>A timer that is stopped and reset, drained if need be, fires \<open>debounce\<close> from now.\<close>

definition scheduleDebounced :: "gotime \<Rightarrow> ('st, 'dn, 'px) run_state \<Rightarrow> ('st, 'dn, 'px) run_state" where
  "scheduleDebounced t s =
     (let debounce = D_ReconcileDebounce (E_deps (R_engine s)) in
      if debounce \<le> 0 then s\<lparr>R_trigger := True\<rparr> else s\<lparr>R_timer := Some (t + debounce)\<rparr>)"

definition runReconcile :: "('st, 'dn, 'px) impls \<Rightarrow> cycle \<Rightarrow> ('st, 'dn, 'px) run_state \<Rightarrow> ('st, 'dn, 'px) run_state" where
  "runReconcile I cy s =
     (case reconcileOnce I cy (R_engine s, R_world s) of (e, w) \<Rightarrow> s\<lparr>R_engine := e, R_world := w\<rparr>)"

text \<open>The ticker drops the ticks that nobody receives; the next one is the first after now.\<close>

definition nextTick :: "duration \<Rightarrow> gotime \<Rightarrow> gotime \<Rightarrow> gotime" where
  "nextTick interval tick t = tick + interval * ((t - tick) div interval + 1)"

text \<open>One iteration of the loop at time \<open>t\<close>; \<^const>\<open>None\<close> where the case is not ready.\<close>

fun runSelect :: "gotime \<Rightarrow> ('st, 'dn, 'px) run_case \<Rightarrow> ('st, 'dn, 'px) run_state \<Rightarrow> ('st, 'dn, 'px) run_state option" where
  "runSelect t c s0 =
     (if R_returned s0 \<or> t < R_now s0 then None
      else let s = s0\<lparr>R_now := t\<rparr> in
      case c of
        CaseDone \<Rightarrow> Some ((stopDebounce s)\<lparr>R_returned := True\<rparr>)
      | CaseTrigger I cy \<Rightarrow>
          if R_trigger s then Some (runReconcile I cy (stopDebounce (s\<lparr>R_trigger := False\<rparr>))) else None
      | CaseDebounce I cy \<Rightarrow>
          (case R_timer s of
             Some dl \<Rightarrow> if dl \<le> t then Some (runReconcile I cy (s\<lparr>R_timer := None\<rparr>)) else None
           | None \<Rightarrow> None)
      | CaseTick \<Rightarrow>
          if R_tick s \<le> t
          then Some (scheduleDebounced t (s\<lparr>R_tick := nextTick (D_ReconcileInterval (E_deps (R_engine s))) (R_tick s) t\<rparr>))
          else None
      | CaseEvent ok \<Rightarrow>
          if R_events s then Some (if ok then scheduleDebounced t s else s\<lparr>R_events := False\<rparr>) else None
      | CaseErr ok \<Rightarrow>
          if R_errs s then Some (if ok then s else s\<lparr>R_errs := False\<rparr>) else None)"

text \<open>The startup: a full reconcile, one request, the Docker event stream and the ticker.\<close>

definition runStart :: "('st, 'dn, 'px) impls \<Rightarrow> cycle \<Rightarrow> gotime \<Rightarrow> Engine \<times> ('st, 'dn, 'px) world \<Rightarrow> ('st, 'dn, 'px) run_state" where
  "runStart I cy t ew =
     (let (e, w) = reconcileOnce I cy ew; docker = D_Docker (E_deps e) in
      \<lparr>R_engine = e, R_world = w, R_trigger = True, R_timer = None, R_tick = t + D_ReconcileInterval (E_deps e),
       R_events = docker, R_errs = docker, R_now = t, R_returned = False\<rparr>)"

fun runLoop :: "(gotime \<times> ('st, 'dn, 'px) run_case) list \<Rightarrow> ('st, 'dn, 'px) run_state \<Rightarrow> ('st, 'dn, 'px) run_state option" where
  "runLoop [] s = Some s"
| "runLoop ((t, c) # cs) s = (case runSelect t c s of None \<Rightarrow> None | Some s' \<Rightarrow> runLoop cs s')"

declare runSelect.simps [simp del]

section \<open>What a cycle keeps\<close>

lemma countPass_simps [simp]:
  "E_deps (countPass e) = E_deps e" "E_snapshot (countPass e) = E_snapshot e" "E_reconciles (countPass e) = E_reconciles e + 1"
  by (simp_all add: countPass_def)

text \<open>The three outcomes of a cycle.\<close>

lemma reconcileOnce_load_error:
  "loadLeases I w = Inl err \<Longrightarrow> reconcileOnce I cy (e, w) = (countPass e, w)"
  by (simp add: reconcileOnce_def Let_def)

lemma reconcileOnce_list_error:
  "listContainers (E_deps e) cy = Inl err \<Longrightarrow> reconcileOnce I cy (e, w) = (countPass e, w)"
  by (simp add: reconcileOnce_def Let_def split: sum.splits)

lemma reconcileOnce_ok:
  assumes "loadLeases I w = Inr snap" "listContainers (E_deps e) cy = Inr containers"
    and "BuildDesired containers (releaseExpired (E_deps e) (Cy_now cy) snap) (map_option A_Allocate (D_Alloc (E_deps e)))
           (buildCfg (E_deps e)) (Cy_clk cy) (Cy_now cy) = (snap', desired)"
    and "apply_desired I desired snap' (applyCfg (E_deps e)) w = (w', status)"
  shows "reconcileOnce I cy (e, w) = (countPass (e\<lparr>E_snapshot := fillStatus I (E_deps e) w' status\<rparr>), w')"
  using assms by (simp add: reconcileOnce_def Let_def)

lemma reconcileOnce_cases:
  obtains (skipped) "reconcileOnce I cy (e, w) = (countPass e, w)"
  | (applied) snap containers snap' desired w' status where
    "loadLeases I w = Inr snap" "listContainers (E_deps e) cy = Inr containers"
    "BuildDesired containers (releaseExpired (E_deps e) (Cy_now cy) snap) (map_option A_Allocate (D_Alloc (E_deps e)))
       (buildCfg (E_deps e)) (Cy_clk cy) (Cy_now cy) = (snap', desired)"
    "apply_desired I desired snap' (applyCfg (E_deps e)) w = (w', status)"
    "reconcileOnce I cy (e, w) = (countPass (e\<lparr>E_snapshot := fillStatus I (E_deps e) w' status\<rparr>), w')"
proof (cases "loadLeases I w")
  case (Inr snap)
  show ?thesis
  proof (cases "listContainers (E_deps e) cy")
    case (Inr containers)
    obtain snap' desired where b: "BuildDesired containers (releaseExpired (E_deps e) (Cy_now cy) snap)
        (map_option A_Allocate (D_Alloc (E_deps e))) (buildCfg (E_deps e)) (Cy_clk cy) (Cy_now cy) = (snap', desired)" by force
    obtain w' status where a: "apply_desired I desired snap' (applyCfg (E_deps e)) w = (w', status)" by force
    show ?thesis
      using applied [OF \<open>loadLeases I w = Inr snap\<close> Inr b a reconcileOnce_ok [OF \<open>loadLeases I w = Inr snap\<close> Inr b a]] .
  qed (use skipped reconcileOnce_list_error in blast)
qed (use skipped reconcileOnce_load_error in blast)

lemma reconcileOnce_deps [simp]: "E_deps (fst (reconcileOnce I cy (e, w))) = E_deps e"
  by (rule reconcileOnce_cases [of I cy e w]) simp_all

lemma reconcileOnce_count [simp]: "E_reconciles (fst (reconcileOnce I cy (e, w))) = E_reconciles e + 1"
  by (rule reconcileOnce_cases [of I cy e w]) simp_all

lemma reconcileOnce_present [simp]:
  "(W_store (snd (reconcileOnce I cy (e, w))) = None) = (W_store w = None)"
  "(W_dns (snd (reconcileOnce I cy (e, w))) = None) = (W_dns w = None)"
  "(W_proxy (snd (reconcileOnce I cy (e, w))) = None) = (W_proxy w = None)"
  by (rule reconcileOnce_cases [of I cy e w];
      auto simp: apply_desired_def advertise_def Let_def split: option.splits prod.splits)+

section \<open>The loop\<close>

abbreviation run_interval :: "('st, 'dn, 'px) run_state \<Rightarrow> duration" where
  "run_interval s \<equiv> D_ReconcileInterval (E_deps (R_engine s))"

abbreviation run_debounce :: "('st, 'dn, 'px) run_state \<Rightarrow> duration" where
  "run_debounce s \<equiv> D_ReconcileDebounce (E_deps (R_engine s))"

fun reconciles :: "('st, 'dn, 'px) run_case \<Rightarrow> bool" where
  "reconciles (CaseTrigger I cy) = True"
| "reconciles (CaseDebounce I cy) = True"
| "reconciles c = False"

lemma runReconcile_simps [simp]:
  "E_deps (R_engine (runReconcile I cy s)) = E_deps (R_engine s)"
  "E_reconciles (R_engine (runReconcile I cy s)) = E_reconciles (R_engine s) + 1"
  "R_trigger (runReconcile I cy s) = R_trigger s" "R_timer (runReconcile I cy s) = R_timer s"
  "R_tick (runReconcile I cy s) = R_tick s" "R_now (runReconcile I cy s) = R_now s"
  "R_returned (runReconcile I cy s) = R_returned s"
  using reconcileOnce_deps [of I cy "R_engine s" "R_world s"] reconcileOnce_count [of I cy "R_engine s" "R_world s"]
  by (simp_all add: runReconcile_def case_prod_unfold)

lemma scheduleDebounced_simps [simp]:
  "R_engine (scheduleDebounced t s) = R_engine s" "R_world (scheduleDebounced t s) = R_world s"
  "R_tick (scheduleDebounced t s) = R_tick s" "R_now (scheduleDebounced t s) = R_now s"
  by (simp_all add: scheduleDebounced_def Let_def)

text \<open>The inversion of one \<open>select\<close>, case by case.\<close>

lemma runSelect_cases:
  assumes "runSelect t c s = Some s'"
  obtains (finished) "c = CaseDone" "s' = s\<lparr>R_now := t, R_timer := None, R_returned := True\<rparr>"
  | (triggered) I cy where "c = CaseTrigger I cy" "R_trigger s"
      "s' = runReconcile I cy (s\<lparr>R_now := t, R_trigger := False, R_timer := None\<rparr>)"
  | (debounced) I cy dl where "c = CaseDebounce I cy" "R_timer s = Some dl" "dl \<le> t"
      "s' = runReconcile I cy (s\<lparr>R_now := t, R_timer := None\<rparr>)"
  | (tick) "c = CaseTick" "R_tick s \<le> t"
      "s' = scheduleDebounced t (s\<lparr>R_now := t, R_tick := nextTick (run_interval s) (R_tick s) t\<rparr>)"
  | (event) "c = CaseEvent True" "s' = scheduleDebounced t (s\<lparr>R_now := t\<rparr>)"
  | (events_closed) "c = CaseEvent False" "s' = s\<lparr>R_now := t, R_events := False\<rparr>"
  | (stream_error) "c = CaseErr True" "s' = s\<lparr>R_now := t\<rparr>"
  | (errs_closed) "c = CaseErr False" "s' = s\<lparr>R_now := t, R_errs := False\<rparr>"
proof (cases c)
  case (CaseEvent ok)
  then show ?thesis
    using assms event events_closed by (cases ok) (auto simp: runSelect.simps Let_def split: if_splits)
next
  case (CaseErr ok)
  then show ?thesis
    using assms stream_error errs_closed by (cases ok) (auto simp: runSelect.simps Let_def split: if_splits)
next
  case CaseDone
  then show ?thesis using assms finished by (simp add: runSelect.simps Let_def split: if_splits)
next
  case (CaseTrigger I cy)
  then show ?thesis using assms triggered by (simp add: runSelect.simps Let_def split: if_splits)
next
  case (CaseDebounce I cy)
  then show ?thesis
    using assms debounced by (simp add: runSelect.simps Let_def split: if_splits option.splits)
next
  case CaseTick
  then show ?thesis using assms tick by (simp add: runSelect.simps Let_def split: if_splits)
qed

lemma runSelect_time: "runSelect t c s = Some s' \<Longrightarrow> R_now s' = t \<and> R_now s \<le> t \<and> \<not> R_returned s"
  by (frule runSelect_cases [where thesis = "R_now s' = t"])
    (auto simp: runSelect.simps split: if_splits)

lemma runSelect_deps: "runSelect t c s = Some s' \<Longrightarrow> E_deps (R_engine s') = E_deps (R_engine s)"
  by (erule runSelect_cases) auto

lemma runSelect_count:
  "runSelect t c s = Some s' \<Longrightarrow>
     E_reconciles (R_engine s') = E_reconciles (R_engine s) + (if reconciles c then 1 else 0)
     \<and> (\<not> reconciles c \<longrightarrow> R_world s' = R_world s \<and> R_engine s' = R_engine s)"
  by (erule runSelect_cases) auto

lemma runLoop_append: "runLoop (xs @ ys) s = Option.bind (runLoop xs s) (runLoop ys)"
  by (induction xs arbitrary: s) (auto split: option.splits)

lemma runLoop_deps: "runLoop cs s = Some s' \<Longrightarrow> E_deps (R_engine s') = E_deps (R_engine s)"
  by (induction cs arbitrary: s) (auto dest!: runSelect_deps split: option.splits)

lemma runLoop_quiet:
  assumes "runLoop cs s = Some s'" "\<forall>x\<in>set cs. \<not> reconciles (snd x)"
  shows "R_world s' = R_world s \<and> R_engine s' = R_engine s"
  using assms by (induction cs arbitrary: s) (auto dest!: runSelect_count split: option.splits)

text \<open>The ticker is never more than one interval ahead.\<close>

lemma nextTick_bounds:
  assumes "0 < i" "tick \<le> t"
  shows "t < nextTick i tick t" "nextTick i tick t \<le> t + i"
proof -
  have "nextTick i tick t = t + (i - (t - tick) mod i)"
    unfolding nextTick_def by (simp add: distrib_left mult_div_mod_eq [symmetric] minus_mod_eq_mult_div [symmetric])
  moreover have "0 \<le> (t - tick) mod i" "(t - tick) mod i < i" using assms(1) by simp_all
  ultimately show "t < nextTick i tick t" "nextTick i tick t \<le> t + i" by simp_all
qed

definition tick_inv :: "('st, 'dn, 'px) run_state \<Rightarrow> bool" where
  "tick_inv s \<longleftrightarrow> 0 < run_interval s \<and> R_tick s \<le> R_now s + run_interval s"

lemma runSelect_tick_inv:
  assumes "runSelect t c s = Some s'" "tick_inv s"
  shows "tick_inv s'"
proof -
  have "R_now s' = t" "R_now s \<le> t" "E_deps (R_engine s') = E_deps (R_engine s)"
    using runSelect_time [OF assms(1)] runSelect_deps [OF assms(1)] by simp_all
  moreover have "R_tick s' = R_tick s \<or> R_tick s' \<le> t + run_interval s"
    using assms(1) by (rule runSelect_cases) (use assms(2) in \<open>auto simp: tick_inv_def intro: nextTick_bounds(2)\<close>)
  ultimately show ?thesis using assms(2) by (auto simp: tick_inv_def)
qed

lemma runLoop_tick_inv: "runLoop cs s = Some s' \<Longrightarrow> tick_inv s \<Longrightarrow> tick_inv s'"
proof (induction cs arbitrary: s)
  case (Cons x cs)
  then show ?case by (cases x) (auto split: option.splits dest: runSelect_tick_inv)
qed simp

lemma runStart_simps [simp]:
  "E_deps (R_engine (runStart I cy t (e, w))) = E_deps e" "R_timer (runStart I cy t (e, w)) = None"
  "R_trigger (runStart I cy t (e, w))" "R_tick (runStart I cy t (e, w)) = t + D_ReconcileInterval (E_deps e)"
  "R_now (runStart I cy t (e, w)) = t" "\<not> R_returned (runStart I cy t (e, w))"
  "E_reconciles (R_engine (runStart I cy t (e, w))) = E_reconciles e + 1"
  by (simp_all add: runStart_def case_prod_unfold Let_def)

lemma runStart_tick_inv: "0 < D_ReconcileInterval (E_deps e) \<Longrightarrow> tick_inv (runStart I cy t (e, w))"
  by (simp add: tick_inv_def)

section \<open>Keeping up\<close>

text \<open>
  A loop keeps up with its ticker if it comes to every \<open>select\<close> before or when the next tick is
  due, and with its timers if in addition it comes there before or when the debounce timer fires.
\<close>

fun keepsUp :: "(gotime \<times> ('st, 'dn, 'px) run_case) list \<Rightarrow> ('st, 'dn, 'px) run_state \<Rightarrow> bool" where
  "keepsUp [] s = True"
| "keepsUp ((t, c) # cs) s \<longleftrightarrow> t \<le> R_tick s \<and> (\<forall>s'. runSelect t c s = Some s' \<longrightarrow> keepsUp cs s')"

fun onTime :: "(gotime \<times> ('st, 'dn, 'px) run_case) list \<Rightarrow> ('st, 'dn, 'px) run_state \<Rightarrow> bool" where
  "onTime [] s = True"
| "onTime ((t, c) # cs) s \<longleftrightarrow> t \<le> R_tick s \<and> (\<forall>dl. R_timer s = Some dl \<longrightarrow> t \<le> dl)
     \<and> (\<forall>s'. runSelect t c s = Some s' \<longrightarrow> onTime cs s')"

text \<open>With a debounce longer than the interval every tick pushes the timer past the next tick.\<close>

lemma starved_step:
  assumes "runSelect t c s = Some s'" "tick_inv s" "run_interval s < run_debounce s" "t \<le> R_tick s"
    and "\<not> R_trigger s" "\<forall>dl. R_timer s = Some dl \<longrightarrow> R_tick s < dl"
  shows "\<not> reconciles c \<and> \<not> R_trigger s' \<and> (\<forall>dl. R_timer s' = Some dl \<longrightarrow> R_tick s' < dl)"
proof -
  have now: "R_now s \<le> t" using runSelect_time [OF assms(1)] by simp
  show ?thesis
    using assms(1)
  proof (cases rule: runSelect_cases)
    case tick
    then have "R_tick s' \<le> t + run_interval s" "\<not> R_trigger s'" "R_timer s' = Some (t + run_debounce s)"
      using assms(2,3,5) nextTick_bounds(2) [of "run_interval s" "R_tick s" t]
      by (auto simp: scheduleDebounced_def Let_def tick_inv_def)
    then show ?thesis using tick(1) assms(3) by simp
  next
    case event
    then show ?thesis
      using assms(2,3,5) now by (auto simp: scheduleDebounced_def Let_def tick_inv_def)
  qed (use assms(4-6) in auto)
qed

lemma starved_loop:
  assumes "runLoop cs s = Some s'" "keepsUp cs s" "tick_inv s" "run_interval s < run_debounce s"
    and "\<not> R_trigger s" "\<forall>dl. R_timer s = Some dl \<longrightarrow> R_tick s < dl"
  shows "\<forall>x\<in>set cs. \<not> reconciles (snd x)"
  using assms
proof (induction cs arbitrary: s)
  case (Cons x cs)
  obtain t c where x: "x = (t, c)" by (cases x)
  from Cons.prems(1) obtain s1 where s1: "runSelect t c s = Some s1" "runLoop cs s1 = Some s'"
    by (auto simp: x split: option.splits)
  have "t \<le> R_tick s" "keepsUp cs s1" using Cons.prems(2) s1(1) by (simp_all add: x)
  note st = starved_step [OF s1(1) Cons.prems(3,4) this(1) Cons.prems(5,6)]
  have "tick_inv s1" "run_interval s1 < run_debounce s1"
    using runSelect_tick_inv [OF s1(1) Cons.prems(3)] runSelect_deps [OF s1(1)] Cons.prems(4) by simp_all
  with Cons.IH [OF s1(2) \<open>keepsUp cs s1\<close>] st show ?case by (simp add: x)
qed simp

text \<open>With a shorter debounce the timer fires before the next tick.\<close>

definition quiet_inv :: "gotime \<Rightarrow> ('st, 'dn, 'px) run_state \<Rightarrow> bool" where
  "quiet_inv l s \<longleftrightarrow>
     (case R_timer s of
        None \<Rightarrow> R_tick s \<le> l + run_interval s
      | Some dl \<Rightarrow> dl \<le> l + run_interval s + run_debounce s \<and> dl < R_tick s)"

lemma quiet_step:
  assumes "runSelect t c s = Some s'" "quiet_inv l s" "0 < run_debounce s" "run_debounce s < run_interval s"
    and "t \<le> R_tick s" "\<forall>dl. R_timer s = Some dl \<longrightarrow> t \<le> dl"
    and "\<not> reconciles c" "c \<noteq> CaseEvent True" "c \<noteq> CaseDone"
  shows "quiet_inv l s' \<and> t \<le> l + run_interval s + run_debounce s"
proof -
  have bound: "t \<le> l + run_interval s + run_debounce s"
    using assms(2,3,5,6) by (auto simp: quiet_inv_def split: option.splits)
  show ?thesis
    using assms(1)
  proof (cases rule: runSelect_cases)
    case tick
    with assms(5) have "t = R_tick s" by simp
    with tick assms(2-6) show ?thesis
      by (auto simp: quiet_inv_def scheduleDebounced_def Let_def nextTick_def split: option.splits)
  qed (use assms(2,7-9) bound in \<open>auto simp: quiet_inv_def split: option.splits\<close>)
qed

lemma quiet_loop:
  assumes "runLoop cs s = Some s'" "onTime cs s" "quiet_inv l s" "0 < run_debounce s" "run_debounce s < run_interval s"
    and "\<forall>x\<in>set cs. \<not> reconciles (snd x) \<and> snd x \<noteq> CaseEvent True" "R_now s \<le> l + run_interval s + run_debounce s"
  shows "R_now s' \<le> l + run_interval s + run_debounce s"
  using assms
proof (induction cs arbitrary: s)
  case (Cons x cs)
  obtain t c where x: "x = (t, c)" by (cases x)
  from Cons.prems(1) obtain s1 where s1: "runSelect t c s = Some s1" "runLoop cs s1 = Some s'"
    by (auto simp: x split: option.splits)
  note deps = runSelect_deps [OF s1(1)] and time = runSelect_time [OF s1(1)]
  have o: "t \<le> R_tick s" "\<forall>dl. R_timer s = Some dl \<longrightarrow> t \<le> dl" "onTime cs s1"
    using Cons.prems(2) s1(1) by (simp_all add: x)
  have c: "\<not> reconciles c" "c \<noteq> CaseEvent True" using Cons.prems(6) by (simp_all add: x)
  have t: "t \<le> l + run_interval s + run_debounce s"
    using Cons.prems(3,4) o(1,2) by (auto simp: quiet_inv_def split: option.splits)
  show ?case
  proof (cases "c = CaseDone")
    case True
    then have "R_returned s1" using s1(1) by (auto elim: runSelect_cases)
    then have "cs = []" using s1(2) by (cases cs) (auto dest: runSelect_time split: option.splits)
    then show ?thesis using s1(2) time t by simp
  next
    case False
    with quiet_step [OF s1(1) Cons.prems(3-5) o(1,2) c] have "quiet_inv l s1" by blast
    with Cons.IH [OF s1(2) o(3)] deps Cons.prems(4-6) time t show ?thesis by (simp add: x)
  qed
qed simp

lemma reconcile_step_quiet:
  assumes "runSelect t c s = Some s1" "tick_inv s" "reconciles c" "0 < run_debounce s"
  shows "quiet_inv t s1 \<and> R_now s1 = t \<and> R_now s1 \<le> t + run_interval s1 + run_debounce s1"
proof -
  have "R_timer s1 = None" using assms(1,3) by (auto elim: runSelect_cases)
  moreover have "tick_inv s1" "R_now s1 = t" "E_deps (R_engine s1) = E_deps (R_engine s)"
    using runSelect_tick_inv [OF assms(1,2)] runSelect_time [OF assms(1)] runSelect_deps [OF assms(1)] by simp_all
  ultimately show ?thesis using assms(4) by (simp add: quiet_inv_def tick_inv_def)
qed

section \<open>Properties\<close>

text \<open>
  C32 (error).  A cycle in which the state file cannot be loaded or Docker cannot be asked
  changes nothing but the counter: the DNS records, the listeners, the state file and the status
  that is served stay the last good ones.
\<close>

theorem reconcileOnce_retains:
  assumes "loadLeases I w = Inl err \<or> listContainers (E_deps e) cy = Inl err'"
  shows "reconcileOnce I cy (e, w) = (e\<lparr>E_reconciles := E_reconciles e + 1\<rparr>, w)"
  using assms reconcileOnce_load_error reconcileOnce_list_error unfolding countPass_def by blast

definition example_deps :: Deps where
  "example_deps =
     \<lparr>D_Docker = True, D_Alloc = Some \<lparr>A_Allocate = Allocate example_pool, A_ReleaseExpired = ReleaseExpired\<rparr>,
      D_BaseDomain = ''test'', D_DefaultInstance = '''', D_DNSTTL = 5, D_DNSListen = ''127.0.0.1:5353'', D_VIPPool = ''127.77.0.8/29'',
      D_VIPLeaseGrace = 100, D_ReconcileInterval = 15 * second, D_ReconcileDebounce = 20 * second, D_ReconcileTimeout = 30 * second\<rparr>"

definition nil_impls :: "(unit, unit, unit) impls" where
  "nil_impls = \<lparr>I_load = (\<lambda>_. Inl StSymlink), I_save = (\<lambda>st _. (st, None)), I_SetRecords = (\<lambda>dn _. (dn, None)),
     I_ListenAddr = (\<lambda>_. ''127.0.0.1:5353''), I_Reconcile = (\<lambda>_ px. (px, None))\<rparr>"

definition nil_world :: "(unit, unit, unit) world" where
  "nil_world = \<lparr>W_store = None, W_dns = None, W_proxy = None\<rparr>"

definition example_cycle :: "gotime \<Rightarrow> cycle" where
  "example_cycle now = \<lparr>Cy_now = now, Cy_clk = (\<lambda>_. now), Cy_list = Inr []\<rparr>"

theorem reconcileOnce_retains_witness:
  "snd (reconcileOnce nil_impls (example_cycle 9) (NewEngine example_deps, \<lparr>W_store = Some (), W_dns = Some (), W_proxy = None\<rparr>))
     = \<lparr>W_store = Some (), W_dns = Some (), W_proxy = None\<rparr>"
  using reconcileOnce_retains [of nil_impls "\<lparr>W_store = Some (), W_dns = Some (), W_proxy = None\<rparr>" StSymlink
      "NewEngine example_deps" "example_cycle 9" "''''"]
  by (simp add: loadLeases_def nil_impls_def)

text \<open>
  C33 (liveness).  With a debounce that is positive and shorter than the interval, a loop that
  comes to each \<open>select\<close> on time and sees no Docker event reconciles at least once in every
  \<open>interval + debounce\<close>: a stretch of the loop without a reconcile, after one at time \<open>l\<close>, ends no
  later than that, and when the timer fires the reconcile can run.
\<close>

theorem run_reconciles_regularly:
  assumes "0 < D_ReconcileDebounce (E_deps e)" "D_ReconcileDebounce (E_deps e) < D_ReconcileInterval (E_deps e)"
    and "runLoop (cs @ [(l, c)]) (runStart I cy t0 (e, w)) = Some s" "reconciles c"
    and "runLoop qs s = Some s'" "onTime qs s" "\<forall>x\<in>set qs. \<not> reconciles (snd x) \<and> snd x \<noteq> CaseEvent True"
  shows "R_now s' \<le> l + D_ReconcileInterval (E_deps e) + D_ReconcileDebounce (E_deps e)
    \<and> (\<forall>dl t. R_timer s' = Some dl \<and> dl \<le> t \<and> R_now s' \<le> t \<and> \<not> R_returned s' \<longrightarrow>
         (\<forall>I cy. \<exists>s''. runSelect t (CaseDebounce I cy) s' = Some s''
            \<and> E_reconciles (R_engine s'') = E_reconciles (R_engine s') + 1))"
proof
  from assms(3) obtain s0 where s0: "runLoop cs (runStart I cy t0 (e, w)) = Some s0" "runSelect l c s0 = Some s"
    by (auto simp: runLoop_append bind_eq_Some_conv split: option.splits)
  have d0: "E_deps (R_engine s0) = E_deps e" using runLoop_deps [OF s0(1)] by simp
  with runSelect_deps [OF s0(2)] have d: "E_deps (R_engine s) = E_deps e" by simp
  have "tick_inv s0" using assms(1,2) by (intro runLoop_tick_inv [OF s0(1)] runStart_tick_inv) simp
  from reconcile_step_quiet [OF s0(2) this assms(4)] assms(1) d0
  have "quiet_inv l s" "R_now s \<le> l + run_interval s + run_debounce s" by simp_all
  from quiet_loop [OF assms(5,6) this(1) _ _ assms(7) this(2)] assms(1,2) d
  show "R_now s' \<le> l + D_ReconcileInterval (E_deps e) + D_ReconcileDebounce (E_deps e)" by simp
qed (simp add: runSelect.simps Let_def)

definition quick_deps :: Deps where
  "quick_deps = example_deps\<lparr>D_ReconcileDebounce := second\<rparr>"

abbreviation example_start :: "Deps \<Rightarrow> (unit, unit, unit) run_state" where
  "example_start d \<equiv> runStart nil_impls (example_cycle 1) 0 (NewEngine d, nil_world)"

abbreviation example_trigger :: "(unit, unit, unit) run_case" where
  "example_trigger \<equiv> CaseTrigger nil_impls (example_cycle 2)"

theorem run_reconciles_regularly_witness:
  "\<exists>s'. runLoop [(0, example_trigger), (15 * second, CaseTick)] (example_start quick_deps) = Some s'
     \<and> R_now s' \<le> 0 + 15 * second + second"
proof -
  let ?s = "runLoop ([] @ [(0, example_trigger)]) (example_start quick_deps)"
  have r: "?s \<noteq> None" "runLoop [(15 * second, CaseTick)] (the ?s) \<noteq> None" "15 * second \<le> R_tick (the ?s)" "R_timer (the ?s) = None"
    by code_simp+
  from r(1,2) obtain s s' where s: "?s = Some s" "runLoop [(15 * second, CaseTick)] s = Some s'" by auto
  have o: "onTime [(15 * second, CaseTick)] s" using r(3,4) s(1) by simp
  have d: "D_ReconcileDebounce (E_deps (NewEngine quick_deps)) = second" "D_ReconcileInterval (E_deps (NewEngine quick_deps)) = 15 * second"
    by (simp_all add: NewEngine_def depsDefaults_def quick_deps_def example_deps_def Let_def)
  from run_reconciles_regularly [where e = "NewEngine quick_deps" and c = example_trigger and cs = "[]" and l = 0, OF _ _ s(1) _ s(2) o] d
  have "R_now s' \<le> 0 + 15 * second + second" by simp
  moreover have "runLoop [(0, example_trigger), (15 * second, CaseTick)] (example_start quick_deps) = Some s'"
    using s by (auto split: option.splits)
  ultimately show ?thesis by blast
qed

text \<open>
  C34 (liveness).  With a debounce longer than the interval the periodic reconcile never runs:
  once the two passes of the startup are done, a loop that keeps up with its ticker never
  reconciles again, whatever Docker reports, because each tick restarts the timer.
\<close>

theorem run_debounce_starves:
  assumes "0 < D_ReconcileInterval (E_deps e)" "D_ReconcileInterval (E_deps e) < D_ReconcileDebounce (E_deps e)"
    and "runSelect t (CaseTrigger I2 cy2) (runStart I cy t0 (e, w)) = Some s"
    and "runLoop cs s = Some s'" "keepsUp cs s"
  shows "(\<forall>x\<in>set cs. \<not> reconciles (snd x)) \<and> R_world s' = R_world s \<and> R_engine s' = R_engine s
    \<and> E_reconciles (R_engine s') = E_reconciles e + 2"
proof -
  have s: "\<not> R_trigger s" "R_timer s = None" using assms(3) by (auto elim: runSelect_cases)
  have "E_deps (R_engine s) = E_deps e" "tick_inv s"
    using runSelect_deps [OF assms(3)] runSelect_tick_inv [OF assms(3) runStart_tick_inv] assms(1) by simp_all
  then have none: "\<forall>x\<in>set cs. \<not> reconciles (snd x)"
    using starved_loop [OF assms(4,5)] assms(2) s by simp
  moreover have "E_reconciles (R_engine s) = E_reconciles e + 2" using runSelect_count [OF assms(3)] by simp
  ultimately show ?thesis using runLoop_quiet [OF assms(4) none] by simp
qed

theorem run_debounce_starves_witness:
  "\<exists>s'. runLoop [(0, example_trigger), (15 * second, CaseTick), (30 * second, CaseTick), (45 * second, CaseTick)]
       (example_start example_deps) = Some s' \<and> E_reconciles (R_engine s') = 2"
proof -
  let ?cs = "[(15 * second, CaseTick), (30 * second, CaseTick), (45 * second, CaseTick)] :: (gotime \<times> (unit, unit, unit) run_case) list"
  let ?s = "runSelect 0 example_trigger (example_start example_deps)"
  let ?s1 = "runLoop (take 1 ?cs) (the ?s)" and ?s2 = "runLoop (take 2 ?cs) (the ?s)"
  have r: "?s \<noteq> None" "runLoop ?cs (the ?s) \<noteq> None" "R_tick (the ?s) = 15 * second" "R_tick (the ?s1) = 30 * second"
    "R_tick (the ?s2) = 45 * second" "E_reconciles (NewEngine example_deps) = 0"
    by code_simp+
  from r(1,2) obtain s s' where s: "?s = Some s" "runLoop ?cs s = Some s'" by auto
  have k: "keepsUp ?cs s" using r(3-5) s(1) by (auto split: option.splits)
  have "0 < D_ReconcileInterval (E_deps (NewEngine example_deps))"
    "D_ReconcileInterval (E_deps (NewEngine example_deps)) < D_ReconcileDebounce (E_deps (NewEngine example_deps))"
    by (simp_all add: NewEngine_def depsDefaults_def example_deps_def Let_def)
  from run_debounce_starves [OF this s k] r(6) have "E_reconciles (R_engine s') = 2" by (metis add_0)
  with s show ?thesis by auto
qed

end
