(* ===== verification/System.thy ===== *)
theory System
  imports Engine
begin

text \<open>
  The components together: what the engine needs of its collaborators as one locale over their
  interfaces, what a reconcile cycle keeps and establishes under it, and its interpretation on
  the JSON store, the DNS server, the TCP proxy manager and the pool allocator.
\<close>

section \<open>Names of the zone\<close>

text \<open>What stands before the base domain: slugs, joined by dots.\<close>

definition slug_name :: "string \<Rightarrow> bool" where
  "slug_name x \<longleftrightarrow> x \<noteq> [] \<and> (\<forall>c\<in>set x. is_slug_char c \<or> c = CHR ''.'')"

lemma slug_name_char:
  "is_slug_char c \<or> c = CHR ''.'' \<Longrightarrow> \<not> is_space c \<and> lower_char c = c \<and> c \<noteq> CHR 0x5C"
  by (auto simp: is_slug_char_def is_alnum_def is_space_def lower_char_def less_eq_char_def)

lemma slug_name_label: "dns_label x \<Longrightarrow> slug_name x"
  by (simp add: slug_name_def dns_label_def)

lemma slug_name_append: "slug_name x \<Longrightarrow> slug_name y \<Longrightarrow> slug_name (x @ ''.'' @ y)"
  by (auto simp: slug_name_def)

lemma stack_name_slugs:
  assumes "dns_label p" "instance_slug i"
  shows "\<exists>x. slug_name x \<and> snd (BuildFQDNs e p i base) = x @ ''.'' @ base"
proof (cases "i = []")
  case True
  then show ?thesis using slug_name_label [OF assms(1)] by (auto simp: BuildFQDNs_def)
next
  case False
  then have "slug_name (i @ ''.'' @ p)"
    using assms by (intro slug_name_append slug_name_label) (auto simp: instance_slug_def)
  then show ?thesis using False by (auto simp: BuildFQDNs_def intro!: exI [of _ "i @ ''.'' @ p"])
qed

lemma endpoint_name_slugs:
  assumes "dns_label e" "dns_label p" "instance_slug i"
  shows "\<exists>x. slug_name x \<and> fst (BuildFQDNs e p i base) = x @ ''.'' @ base"
proof -
  from stack_name_slugs [OF assms(2,3), where e = e and base = base]
  obtain x where x: "slug_name x" "snd (BuildFQDNs e p i base) = x @ ''.'' @ base" by blast
  moreover have "fst (BuildFQDNs e p i base) = e @ ''.'' @ snd (BuildFQDNs e p i base)" by (simp add: BuildFQDNs_def)
  ultimately have "fst (BuildFQDNs e p i base) = (e @ ''.'' @ x) @ ''.'' @ base" by simp
  moreover have "slug_name (e @ ''.'' @ x)" using slug_name_append [OF slug_name_label [OF assms(1)] x(1)] .
  ultimately show ?thesis by blast
qed

lemma ascii_slug: "(\<forall>c\<in>set s. is_slug_char c \<or> c = CHR ''/'') \<Longrightarrow> ascii s"
  by (fastforce simp: ascii_def is_slug_char_def is_alnum_def less_eq_char_def)

lemma ascii_stack_key: "dns_label p \<Longrightarrow> instance_slug i \<Longrightarrow> ascii (MakeStackKey p i)"
  by (rule ascii_slug) (auto simp: MakeStackKey_def dns_label_def instance_slug_def)

text \<open>A zone takes the A records of such names, and tells the names apart.\<close>

definition zone_ok :: "(Record \<Rightarrow> bool) \<Rightarrow> (string \<Rightarrow> string) \<Rightarrow> string \<Rightarrow> bool" where
  "zone_ok accepts canon base \<longleftrightarrow>
     (\<forall>x v ttl. slug_name x \<and> Is4 v \<and> IsLoopback v \<longrightarrow>
        accepts \<lparr>Rec_Name = x @ ''.'' @ base, Rec_Type = ''A'', Rec_VIP = v, Rec_TTL = ttl\<rparr>)
     \<and> (\<forall>x y. slug_name x \<and> slug_name y \<and> canon (x @ ''.'' @ base) = canon (y @ ''.'' @ base) \<longrightarrow> x = y)"

section \<open>The desired state\<close>

text \<open>Everything a desired state publishes: names of the zone, loopback VIPs, leases.\<close>

lemma desired_endpoint:
  assumes "desired_ok P ws snap D" "\<forall>c\<in>set ws. wf_cand cfg c" "map_of (Endpoints D) mk = Some ep"
  shows "\<exists>st x. map_of (Stacks D) (Ep_StackKey ep) = Some st \<and> Ep_VIP ep = Stack_VIP st
    \<and> slug_name x \<and> Ep_FQDN ep = x @ ''.'' @ BC_BaseDomain cfg \<and> Ep_TargetHost ep = loopback4 \<and> Ep_Protocol ep = ProtocolTCP
    \<and> Ep_PublicPort ep \<noteq> 0"
proof -
  obtain cand st where c: "cand \<in> set ws" "map_of (Stacks D) (Meta_StackKey (cand_meta cand)) = Some st"
    "ep = mkEndpoint cand (Stack_VIP st)" using desired_ok_endpointD [OF assms(1,3)] by metis
  then have wf: "wf_cand cfg cand" using assms(2) by blast
  then have m: "wf_meta (cand_meta cand)" by (simp add: wf_cand_def Let_def)
  have "cand_epFQDN cand = fst (BuildFQDNs (Meta_EndpointName (cand_meta cand)) (Meta_ProjectSlug (cand_meta cand))
      (Meta_InstanceSlug (cand_meta cand)) (BC_BaseDomain cfg))"
    using wf unfolding wf_cand_def Let_def by (metis fst_conv)
  with endpoint_name_slugs m obtain x where "slug_name x" "cand_epFQDN cand = x @ ''.'' @ BC_BaseDomain cfg"
    unfolding wf_meta_def by metis
  then show ?thesis using c m by (auto simp: mkEndpoint_def wf_meta_def)
qed

lemma desired_stack:
  assumes "desired_ok P ws snap D" "map_of (Stacks D) k = Some st"
  shows "\<exists>x. slug_name x \<and> stackName base st = x @ ''.'' @ base" "P (Stack_VIP st)"
    "lease_map (Snap_Leases snap) k = Some (Stack_VIP st)"
  using desired_ok_stackD [OF assms] stack_name_slugs by (auto simp: stack_ok_def stackName_def)

lemma desired_records:
  assumes "desired_ok P ws snap D" "\<forall>c\<in>set ws. wf_cand cfg c" "base = BC_BaseDomain cfg"
    and "r \<in> set (buildDNSRecords D base ttl)"
  shows "\<exists>x. slug_name x \<and> Rec_Name r = x @ ''.'' @ base" "P (Rec_VIP r)" "Rec_Type r = ''A''"
    "\<exists>k. lease_map (Snap_Leases snap) k = Some (Rec_VIP r)"
proof -
  note spec = buildDNSRecords_spec(3) [OF refl assms(4)]
  then show "Rec_Type r = ''A''" by blast
  from spec consider (stack) st where "st \<in> ran (map_of (Stacks D))" "Rec_Name r = stackName base st" "Rec_VIP r = Stack_VIP st"
    | (endpoint) ep where "ep \<in> ran (map_of (Endpoints D))" "Rec_Name r = Ep_FQDN ep" "Rec_VIP r = Ep_VIP ep"
    by (auto simp: set_stackPairs set_epPairs)
  then have "(\<exists>x. slug_name x \<and> Rec_Name r = x @ ''.'' @ base) \<and> P (Rec_VIP r) \<and> (\<exists>k. lease_map (Snap_Leases snap) k = Some (Rec_VIP r))"
  proof cases
    case stack
    from stack(1) obtain k where "map_of (Stacks D) k = Some st" by (auto simp: ran_def)
    from desired_stack [OF assms(1) this] stack(2,3) show ?thesis by auto
  next
    case endpoint
    from endpoint(1) obtain mk where "map_of (Endpoints D) mk = Some ep" by (auto simp: ran_def)
    from desired_endpoint [OF assms(1,2) this] obtain st x where
      "map_of (Stacks D) (Ep_StackKey ep) = Some st" "Ep_VIP ep = Stack_VIP st" "slug_name x" "Ep_FQDN ep = x @ ''.'' @ base"
      unfolding assms(3) by blast
    with desired_stack [OF assms(1) this(1)] endpoint(2,3) show ?thesis by auto
  qed
  then show "\<exists>x. slug_name x \<and> Rec_Name r = x @ ''.'' @ base" "P (Rec_VIP r)"
    "\<exists>k. lease_map (Snap_Leases snap) k = Some (Rec_VIP r)" by blast+
qed

text \<open>Stack names are told apart, and endpoints of one name have one VIP.\<close>

lemma desired_stack_unique:
  assumes "desired_ok P ws snap D" "map_of (Stacks D) k = Some st" "map_of (Stacks D) k' = Some st'"
    and "stackName base st = stackName base st'"
  shows "st = st'"
proof -
  have "k = k'"
    using desired_ok_stackD [OF assms(1,2)] desired_ok_stackD [OF assms(1,3)] assms(4)
    by (auto simp: stack_ok_def stackName_def stack_fqdn_inject)
  with assms(2,3) show ?thesis by simp
qed

lemma desired_endpoint_vip:
  assumes "desired_ok P ws snap D" "\<forall>c\<in>set ws. wf_cand cfg c"
    and "map_of (Endpoints D) mk = Some ep" "map_of (Endpoints D) mk' = Some ep'" "Ep_FQDN ep = Ep_FQDN ep'"
  shows "Ep_VIP ep = Ep_VIP ep'"
proof -
  obtain c st where c: "c \<in> set ws" "map_of (Stacks D) (Meta_StackKey (cand_meta c)) = Some st" "ep = mkEndpoint c (Stack_VIP st)"
    using desired_ok_endpointD [OF assms(1,3)] by metis
  obtain c' st' where c': "c' \<in> set ws" "map_of (Stacks D) (Meta_StackKey (cand_meta c')) = Some st'" "ep' = mkEndpoint c' (Stack_VIP st')"
    using desired_ok_endpointD [OF assms(1,4)] by metis
  have wf: "cand_epFQDN x = fst (BuildFQDNs (Meta_EndpointName (cand_meta x)) (Meta_ProjectSlug (cand_meta x))
      (Meta_InstanceSlug (cand_meta x)) (BC_BaseDomain cfg)) \<and> wf_meta (cand_meta x)" if "x \<in> set ws" for x
    using assms(2) that unfolding wf_cand_def Let_def by (metis fst_conv)
  have "cand_epFQDN c = cand_epFQDN c'" using assms(5) c(3) c'(3) by (simp add: mkEndpoint_def)
  then have "Meta_StackKey (cand_meta c) = Meta_StackKey (cand_meta c')"
    using wf [OF c(1)] wf [OF c'(1)] by (auto simp: wf_meta_def endpoint_fqdn_inject)
  with c c' show ?thesis by (simp add: mkEndpoint_def)
qed

lemma map_of_unique: "(k, v) \<in> set xs \<Longrightarrow> (\<And>v'. (k, v') \<in> set xs \<Longrightarrow> v' = v) \<Longrightarrow> map_of xs k = Some v"
  by (metis map_of_SomeD not_Some_eq map_of_eq_None_iff fst_conv image_eqI)

text \<open>What DNS publishes for a stack name, and for an endpoint name that is no stack name.\<close>

lemma desired_dns_stack:
  assumes "desired_ok P ws snap D" "map_of (Stacks D) k = Some st"
  shows "\<exists>r\<in>set (buildDNSRecords D base ttl). Rec_Name r = stackName base st \<and> Rec_VIP r = Stack_VIP st"
proof -
  have "map_of (stackPairs D base) (stackName base st) = Some (Stack_VIP st)"
  proof (rule map_of_unique)
    show "(stackName base st, Stack_VIP st) \<in> set (stackPairs D base)"
      using assms(2) by (auto simp: set_stackPairs ran_def)
    show "v' = Stack_VIP st" if "(stackName base st, v') \<in> set (stackPairs D base)" for v'
    proof -
      from that obtain st' k' where "map_of (Stacks D) k' = Some st'" "stackName base st' = stackName base st" "v' = Stack_VIP st'"
        by (auto simp: set_stackPairs ran_def)
      with desired_stack_unique [OF assms(1) this(1) assms(2)] show ?thesis by metis
    qed
  qed
  then have "map_of (map rec_pair (buildDNSRecords D base ttl)) (stackName base st) = Some (Stack_VIP st)"
    by (simp add: buildDNSRecords_spec(2) [OF refl] map_add_Some_iff)
  from map_of_SomeD [OF this] show ?thesis by (auto simp: rec_pair_def)
qed

lemma desired_dns_endpoint:
  assumes "desired_ok P ws snap D" "\<forall>c\<in>set ws. wf_cand cfg c" "map_of (Endpoints D) mk = Some ep"
    and "\<And>k st. map_of (Stacks D) k = Some st \<Longrightarrow> stackName base st \<noteq> Ep_FQDN ep"
  shows "\<exists>r\<in>set (buildDNSRecords D base ttl). Rec_Name r = Ep_FQDN ep \<and> Rec_VIP r = Ep_VIP ep"
proof -
  have "map_of (epPairs D) (Ep_FQDN ep) = Some (Ep_VIP ep)"
  proof (rule map_of_unique)
    show "(Ep_FQDN ep, Ep_VIP ep) \<in> set (epPairs D)" using assms(3) by (auto simp: set_epPairs ran_def)
    show "v' = Ep_VIP ep" if "(Ep_FQDN ep, v') \<in> set (epPairs D)" for v'
    proof -
      from that obtain ep' mk' where "map_of (Endpoints D) mk' = Some ep'" "Ep_FQDN ep' = Ep_FQDN ep" "v' = Ep_VIP ep'"
        by (auto simp: set_epPairs ran_def)
      with desired_endpoint_vip [OF assms(1,2) this(1) assms(3)] show ?thesis by simp
    qed
  qed
  moreover have "map_of (stackPairs D base) (Ep_FQDN ep) = None"
    using assms(4) unfolding map_of_eq_None_iff set_stackPairs by (force simp: ran_def)
  ultimately have "map_of (map rec_pair (buildDNSRecords D base ttl)) (Ep_FQDN ep) = Some (Ep_VIP ep)"
    by (simp add: buildDNSRecords_spec(2) [OF refl] map_add_Some_iff)
  from map_of_SomeD [OF this] show ?thesis by (auto simp: rec_pair_def)
qed

section \<open>The resolve map\<close>

lemma suffix_char_iff: "suffix [c] s \<longleftrightarrow> s \<noteq> [] \<and> last s = c"
  by (cases s rule: rev_cases) auto

lemma normalizeName_slugs:
  assumes "slug_name x"
  shows "normalizeName (x @ ''.'' @ b) = x @ ToLower (TrimSuffix (''.'' @ rev (dropWhile is_space (rev b))) ''.'')"
proof -
  let ?r = "''.'' @ rev (dropWhile is_space (rev b))"
  have x: "x \<noteq> []" "\<forall>c\<in>set x. \<not> is_space c \<and> lower_char c = c"
    using assms slug_name_char by (auto simp: slug_name_def)
  have dot: "\<not> is_space (CHR ''.'')" by (simp add: is_space_def)
  have "dropWhile is_space (x @ ''.'' @ b) = x @ ''.'' @ b" using x by (cases x) auto
  moreover have "dropWhile is_space (rev b @ CHR ''.'' # rev x) = dropWhile is_space (rev b) @ CHR ''.'' # rev x"
    by (induction "rev b") (use dot in \<open>auto simp: dropWhile_append\<close>)
  ultimately have t: "TrimSpace (x @ ''.'' @ b) = x @ ?r" by (simp add: TrimSpace_def)
  have "suffix ''.'' (x @ ?r) \<longleftrightarrow> suffix ''.'' ?r" by (simp add: suffix_char_iff)
  then have "TrimSuffix (x @ ?r) ''.'' = x @ TrimSuffix ?r ''.''" by (simp add: TrimSuffix_def del: append_Cons append_Nil)
  moreover have "ToLower x = x" using x(2) by (simp add: ToLower_def map_idI)
  ultimately show ?thesis using t by (simp add: normalizeName_def ToLower_def)
qed

lemma normalizeName_inject:
  "slug_name x \<Longrightarrow> slug_name y \<Longrightarrow> normalizeName (x @ ''.'' @ b) = normalizeName (y @ ''.'' @ b) \<longleftrightarrow> x = y"
  by (simp add: normalizeName_slugs del: append_Cons)

lemma map_of_foldl_update:
  "map_of (foldl (\<lambda>m x. AList.update (f x) (g x) m) m0 xs) k =
     (case List.find (\<lambda>x. f x = k) (rev xs) of Some x \<Rightarrow> Some (g x) | None \<Rightarrow> map_of m0 k)"
  by (induction xs arbitrary: m0 rule: rev_induct) auto

lemma resolve_endpoint:
  assumes "desired_ok P ws snap D" "\<forall>c\<in>set ws. wf_cand cfg c" "map_of (Endpoints D) mk = Some ep"
  shows "map_of (resolveMap D base) (normalizeName (Ep_FQDN ep)) = Some (Addr_String (Ep_VIP ep))"
proof -
  let ?P = "\<lambda>x. normalizeName (Ep_FQDN x) = normalizeName (Ep_FQDN ep)"
  have d: "distinct (gokeys (Endpoints D))" using build_invD(3) assms(1) unfolding desired_ok_def by blast
  have "ep \<in> set (govals (Endpoints D))" using map_of_SomeD [OF assms(3)] by force
  then have "List.find ?P (rev (govals (Endpoints D))) \<noteq> None" by (auto simp: find_None_iff)
  then obtain y where y: "List.find ?P (rev (govals (Endpoints D))) = Some y" by blast
  from find_Some_in [OF y] have "y \<in> set (govals (Endpoints D))" "?P y" by auto
  then obtain mk' where mk': "map_of (Endpoints D) mk' = Some y" using d by (auto intro: map_of_is_SomeI)
  from desired_endpoint [OF assms(1,2) mk'] desired_endpoint [OF assms(1-3)] \<open>?P y\<close>
  have "Ep_FQDN y = Ep_FQDN ep" using normalizeName_inject by metis
  from desired_endpoint_vip [OF assms(1,2) mk' assms(3) this] y show ?thesis
    by (simp add: resolveMap_def map_of_foldl_update)
qed

lemma resolve_stack:
  assumes "desired_ok P ws snap D" "\<forall>c\<in>set ws. wf_cand cfg c" "base = BC_BaseDomain cfg" "map_of (Stacks D) k = Some st"
    and "\<And>mk ep. map_of (Endpoints D) mk = Some ep \<Longrightarrow> Ep_FQDN ep \<noteq> stackName base st"
  shows "map_of (resolveMap D base) (normalizeName (stackName base st)) = Some (Addr_String (Stack_VIP st))"
proof -
  let ?n = "normalizeName (stackName base st)"
  have d: "distinct (gokeys (Stacks D))" "distinct (gokeys (Endpoints D))"
    using build_invD(2,3) assms(1) unfolding desired_ok_def by blast+
  obtain x where x: "slug_name x" "stackName base st = x @ ''.'' @ base" using desired_stack(1) [OF assms(1,4)] by blast
  have "normalizeName (Ep_FQDN ep) \<noteq> ?n" if "ep \<in> set (govals (Endpoints D))" for ep
  proof -
    from that d(2) obtain mk where mk: "map_of (Endpoints D) mk = Some ep" by (auto intro: map_of_is_SomeI)
    from desired_endpoint [OF assms(1,2) mk] obtain y where "slug_name y" "Ep_FQDN ep = y @ ''.'' @ base"
      unfolding assms(3) by blast
    with x assms(5) [OF mk] show ?thesis using normalizeName_inject by metis
  qed
  then have none: "List.find (\<lambda>ep. normalizeName (Ep_FQDN ep) = ?n) (rev (govals (Endpoints D))) = None"
    by (auto simp: find_None_iff)
  have "st' = st" if st': "st' \<in> set (govals (Stacks D))" "normalizeName (stackName base st') = ?n" for st'
  proof -
    from st'(1) d(1) obtain k' where k': "map_of (Stacks D) k' = Some st'" by (auto intro: map_of_is_SomeI)
    from desired_stack(1) [OF assms(1) k'] obtain y where y: "slug_name y" "stackName base st' = y @ ''.'' @ base" by blast
    then have "stackName base st' = stackName base st" using x st'(2) normalizeName_inject by metis
    then show ?thesis by (rule desired_stack_unique [OF assms(1) k' assms(4)])
  qed
  moreover have "st \<in> set (govals (Stacks D))" using map_of_SomeD [OF assms(4)] by force
  ultimately have "List.find (\<lambda>st. normalizeName (stackName base st) = ?n) (rev (govals (Stacks D))) = Some st"
    by (intro find_unique) auto
  with none show ?thesis by (simp add: resolveMap_def map_of_foldl_update)
qed

section \<open>What the engine relies on\<close>

text \<open>
  Every name that resolves and every address that is served is leased on disk, and what is on
  disk can be written again.
\<close>

definition leased :: "store_error + Snapshot \<Rightarrow> addr \<Rightarrow> bool" where
  "leased disk v \<longleftrightarrow> (\<exists>snap k. disk = Inr snap \<and> lease_map (Snap_Leases snap) k = Some v)"

definition durable :: "store_error + Snapshot \<Rightarrow> (string \<Rightarrow> addr option) \<Rightarrow> (addr \<Rightarrow> u16 \<Rightarrow> backendTarget option) \<Rightarrow> bool" where
  "durable disk lookup served \<longleftrightarrow>
     (\<forall>snap. disk = Inr snap \<longrightarrow> list_all storable (Snap_Leases snap))
     \<and> (\<forall>n v. lookup n = Some v \<longrightarrow> leased disk v)
     \<and> (\<forall>v q. Is4 v \<and> served v q \<noteq> None \<longrightarrow> leased disk v)"

locale reconciler =
  store: lease_store st_wf load save
  + dns: dns_controller dn_wf setRecords lookup dn_accepts canon
  + proxy: proxy_manager px_wf reconcile served px_accepts down
  + alloc: vip_allocator al_wf inPool capacity allocate release
  for st_wf :: "'st \<Rightarrow> bool" and load :: "'st \<Rightarrow> store_error + Snapshot"
    and save :: "'f \<Rightarrow> 'st \<Rightarrow> Snapshot \<Rightarrow> 'st \<times> store_error option"
    and dn_wf :: "'dn \<Rightarrow> bool" and setRecords :: "'dn \<Rightarrow> Record list \<Rightarrow> 'dn \<times> dns_error option"
    and lookup :: "'dn \<Rightarrow> string \<Rightarrow> addr option" and dn_accepts :: "'dn \<Rightarrow> Record \<Rightarrow> bool" and canon :: "'dn \<Rightarrow> string \<Rightarrow> string"
    and px_wf :: "'px \<Rightarrow> bool"
    and reconcile :: "(string \<Rightarrow> addr option) \<Rightarrow> Endpoint list \<Rightarrow> 'px \<Rightarrow> 'px \<times> proxy_error option"
    and served :: "'px \<Rightarrow> addr \<Rightarrow> u16 \<Rightarrow> backendTarget option"
    and px_accepts :: "'px \<Rightarrow> Endpoint \<Rightarrow> bool" and down :: "'px \<Rightarrow> bool"
    and al_wf :: "'p \<Rightarrow> bool" and inPool :: "'p \<Rightarrow> addr \<Rightarrow> bool" and capacity :: "'p \<Rightarrow> nat"
    and allocate :: "'p \<Rightarrow> gotime \<Rightarrow> Snapshot \<Rightarrow> StackKey \<Rightarrow> Snapshot \<times> (alloc_error + addr)"
    and release :: "'p \<Rightarrow> Snapshot \<Rightarrow> gotime \<Rightarrow> duration \<Rightarrow> Snapshot \<times> StackKey list"
  + assumes pool_loopback: "al_wf p \<Longrightarrow> inPool p v \<Longrightarrow> Is4 v \<and> IsLoopback v"
begin

text \<open>The leases that a cycle saves.\<close>

lemma built_snapshot:
  assumes "al_wf p" "lease_inv (Snap_Leases snap)" "list_all storable (Snap_Leases snap)"
    and "BuildDesired containers (fst (release p snap now grace)) (Some (allocate p)) cfg clk now = (snap', desired)"
    and "rfc_time now" "\<And>i. rfc_time (clk i)"
  shows "desired_ok (inPool p) (winners (collectCandidates containers cfg)) snap' desired"
    and "list_all storable (Snap_Leases snap')"
proof -
  let ?s1 = "fst (release p snap now grace)"
  have inv: "lease_inv (Snap_Leases ?s1)" using assms(2) by (rule alloc.release_inv)
  show "desired_ok (inPool p) (winners (collectCandidates containers cfg)) snap' desired"
    by (rule alloc.BuildDesired_ok [OF assms(1) inv assms(4)])
  have "list_all (lease_times rfc_time) (Snap_Leases snap)" using assms(3) by (auto simp: list_all_iff storable_iff)
  from alloc.BuildDesired_times [OF assms(1) inv assms(4) alloc.release_times [OF this]] assms(5,6)
  have times: "list_all (lease_times rfc_time) (Snap_Leases snap')" by blast
  have "dom (lease_map (Snap_Leases ?s1)) \<subseteq> dom (lease_map (Snap_Leases snap))"
    using alloc.release_le [OF assms(2)] by (rule map_le_implies_dom_le)
  then have sub: "Lease_StackKey ` set (Snap_Leases ?s1) \<subseteq> Lease_StackKey ` set (Snap_Leases snap)" by (simp add: dom_lease_map)
  have cand: "ascii (Meta_StackKey (cand_meta c))" if "c \<in> set (collectCandidates containers cfg)" for c
    using wf_candidates [of containers cfg] that ascii_stack_key by (auto simp: wf_cand_def wf_meta_def Let_def)
  have old: "\<forall>k\<in>Lease_StackKey ` set (Snap_Leases snap). ascii k" using assms(3) by (simp add: list_all_iff storable_iff)
  have "ascii (Lease_StackKey l)" if "l \<in> set (Snap_Leases snap')" for l
  proof -
    from that have "Lease_StackKey l \<in> Lease_StackKey ` set (Snap_Leases snap')" by simp
    from subsetD [OF alloc.BuildDesired_keys [OF assms(1) inv assms(4)] this] show ?thesis
      using sub old cand by fastforce
  qed
  with times show "list_all storable (Snap_Leases snap')" by (simp add: list_all_iff storable_iff)
qed

text \<open>DNS after a successful save: the records are accepted, and what resolves is leased.\<close>

lemma published_records:
  assumes "al_wf p" "dn_wf d" "zone_ok (dn_accepts d) (canon d) base" "base = BC_BaseDomain cfg"
    and "desired_ok (inPool p) ws snap' desired" "\<forall>c\<in>set ws. wf_cand cfg c"
  shows "snd (setRecords d (buildDNSRecords desired base ttl)) = None"
    and "lookup (fst (setRecords d (buildDNSRecords desired base ttl))) n = Some v \<Longrightarrow>
      \<exists>k. lease_map (Snap_Leases snap') k = Some v"
proof -
  let ?rs = "buildDNSRecords desired base ttl"
  note recs = desired_records [OF assms(5,6,4)]
  have "dn_accepts d r" if r: "r \<in> set ?rs" for r
  proof -
    obtain x where x: "slug_name x" "Rec_Name r = x @ ''.'' @ base" using recs(1) [OF r] by blast
    have "Is4 (Rec_VIP r) \<and> IsLoopback (Rec_VIP r)" using pool_loopback [OF assms(1) recs(2) [OF r]] .
    with x assms(3) have "dn_accepts d \<lparr>Rec_Name = x @ ''.'' @ base, Rec_Type = ''A'', Rec_VIP = Rec_VIP r, Rec_TTL = Rec_TTL r\<rparr>"
      unfolding zone_ok_def by blast
    moreover have "r = \<lparr>Rec_Name = x @ ''.'' @ base, Rec_Type = ''A'', Rec_VIP = Rec_VIP r, Rec_TTL = Rec_TTL r\<rparr>"
      using x(2) recs(3) [OF r] by (cases r) simp
    ultimately show ?thesis by metis
  qed
  then show ok: "snd (setRecords d ?rs) = None" using dns.set_ok_iff [OF assms(2)] by blast
  show "\<exists>k. lease_map (Snap_Leases snap') k = Some v" if "lookup (fst (setRecords d ?rs)) n = Some v"
    using that recs(4) find_Some_in [of _ "rev ?rs"] unfolding dns.set_lookup [OF assms(2) ok] by fastforce
qed

text \<open>The proxy after a successful save: what is served is leased.\<close>

lemma served_endpoints:
  assumes "px_wf m" "\<not> down m" "desired_ok (inPool p) ws snap' desired" "\<forall>c\<in>set ws. wf_cand cfg c"
    and "Is4 v" "served (fst (reconcile listen (sortEndpoints (govals (Endpoints desired))) m)) v q \<noteq> None"
  shows "\<exists>k. lease_map (Snap_Leases snap') k = Some v"
proof -
  from assms(6) obtain b where "served (fst (reconcile listen (sortEndpoints (govals (Endpoints desired))) m)) v q = Some b" by blast
  from proxy.reconcile_sound [OF assms(1,2,5) this] obtain ep where
    ep: "ep \<in> set (govals (Endpoints desired))" "Ep_VIP ep = v" by (auto simp: sortEndpoints_def)
  have "distinct (gokeys (Endpoints desired))" using build_invD(3) assms(3) unfolding desired_ok_def by blast
  with ep(1) obtain mk where "map_of (Endpoints desired) mk = Some ep" by (auto intro: map_of_is_SomeI)
  from desired_endpoint [OF assms(3,4) this] desired_stack [OF assms(3)] ep(2) show ?thesis by metis
qed

text \<open>The outcomes of \<open>apply\<close> when all collaborators are there.\<close>

lemma apply_outcomes:
  assumes "I_save I = save f" "I_SetRecords I = setRecords" "I_Reconcile I = reconcile listen"
    and "w = \<lparr>W_store = Some s, W_dns = Some d, W_proxy = Some m\<rparr>"
    and "apply_desired I desired snap cfg w = (w', status)"
  shows "snd (save f s snap) = Some err \<Longrightarrow> w' = \<lparr>W_store = Some (fst (save f s snap)), W_dns = Some d, W_proxy = Some m\<rparr>"
    and "snd (save f s snap) = None \<Longrightarrow> w' = \<lparr>W_store = Some (fst (save f s snap)),
      W_dns = Some (fst (setRecords d (buildDNSRecords desired (AC_BaseDomain cfg) (AC_DNSTTL cfg)))),
      W_proxy = Some (fst (reconcile listen (sortEndpoints (govals (Endpoints desired))) m))\<rparr>"
  using assms by (auto simp: apply_desired_def advertise_def Let_def split: prod.splits option.splits)

lemma cycle_durable:
  assumes I: "\<And>s snap. I_load I s = Inr snap \<Longrightarrow> load s = Inr snap" "I_save I = save f"
      "I_SetRecords I = setRecords" "I_Reconcile I = reconcile listen"
    and w: "w = \<lparr>W_store = Some s, W_dns = Some d, W_proxy = Some m\<rparr>"
    and wf: "st_wf s" "dn_wf d" "px_wf m" "\<not> down m" "al_wf p"
    and deps: "D_Alloc (E_deps e) = Some \<lparr>A_Allocate = allocate p, A_ReleaseExpired = release p\<rparr>"
    and zone: "zone_ok (dn_accepts d) (canon d) (D_BaseDomain (E_deps e))"
    and time: "rfc_time (Cy_now cy)" "\<And>i. rfc_time (Cy_clk cy i)"
    and dur: "durable (load s) (lookup d) (served m)"
  obtains s' d' m' where "snd (reconcileOnce I cy (e, w)) = \<lparr>W_store = Some s', W_dns = Some d', W_proxy = Some m'\<rparr>"
    "st_wf s'" "dn_wf d'" "px_wf m'" "\<not> down m'" "zone_ok (dn_accepts d') (canon d') (D_BaseDomain (E_deps e))"
    "durable (load s') (lookup d') (served m')"
proof (rule reconcileOnce_cases [of I cy e w])
  assume "reconcileOnce I cy (e, w) = (countPass e, w)"
  then show thesis using that [of s d m] w wf zone dur by simp
next
  fix snap containers snap' desired w' status
  assume r: "loadLeases I w = Inr snap"
    "BuildDesired containers (releaseExpired (E_deps e) (Cy_now cy) snap) (map_option A_Allocate (D_Alloc (E_deps e)))
       (buildCfg (E_deps e)) (Cy_clk cy) (Cy_now cy) = (snap', desired)"
    "apply_desired I desired snap' (applyCfg (E_deps e)) w = (w', status)"
    "reconcileOnce I cy (e, w) = (countPass (e\<lparr>E_snapshot := fillStatus I (E_deps e) w' status\<rparr>), w')"
  let ?base = "D_BaseDomain (E_deps e)" and ?ws = "winners (collectCandidates containers (buildCfg (E_deps e)))"
  have ld: "load s = Inr snap" using r(1) I(1) w by (simp add: loadLeases_def)
  have st: "list_all storable (Snap_Leases snap)" using dur ld by (simp add: durable_def)
  note b = built_snapshot [OF wf(5) conjunct1 [OF store.load_inv [OF ld]] st r(2) [unfolded releaseExpired_def deps, simplified] time]
  have wc: "\<forall>c\<in>set ?ws. wf_cand (buildCfg (E_deps e)) c" by (rule wf_winners)
  note out = apply_outcomes [OF I(2-4) w r(3)]
  show thesis
  proof (cases "snd (save f s snap')")
    case (Some err)
    with out(1) r(4) store.save_error [OF Some] that [of "fst (save f s snap')" d m] wf zone dur store.save_wf [OF wf(1)]
    show thesis by simp
  next
    case None
    let ?d = "fst (setRecords d (buildDNSRecords desired ?base (D_DNSTTL (E_deps e))))"
    let ?m = "fst (reconcile listen (sortEndpoints (govals (Endpoints desired))) m)"
    obtain snap2 where s2: "load (fst (save f s snap')) = Inr snap2" "lease_map (Snap_Leases snap2) = lease_map (Snap_Leases snap')"
      "list_all storable (Snap_Leases snap2)" using store.save_ok [OF wf(1) b(2) None] by blast
    note rec = published_records [OF wf(5,2) zone _ b(1) wc, of "D_DNSTTL (E_deps e)"]
    have "durable (load (fst (save f s snap'))) (lookup ?d) (served ?m)"
      using s2 rec(2) served_endpoints [OF wf(3,4) b(1) wc, where listen = listen]
      unfolding durable_def leased_def by (simp add: buildCfg_def) meson
    moreover have "zone_ok (dn_accepts ?d) (canon ?d) ?base"
      using zone dns.set_accepts [OF wf(2)] dns.set_canon [OF wf(2)] by (simp add: zone_ok_def)
    ultimately show thesis
      using out(2) [OF None] r(4) that [of "fst (save f s snap')" ?d ?m] store.save_wf [OF wf(1)] dns.set_wf [OF wf(2)]
        proxy.reconcile_wf [OF wf(3)] proxy.reconcile_stays wf(4)
      by (simp add: applyCfg_def)
  qed
qed

text \<open>A cycle that is not cut short: what DNS, the proxy and the status say afterwards.\<close>

lemma cycle_publishes:
  assumes I: "I_save I = save f" "I_SetRecords I = setRecords" "I_Reconcile I = reconcile listen"
    and w: "w = \<lparr>W_store = Some s, W_dns = Some d, W_proxy = Some m\<rparr>"
    and wf: "dn_wf d" "px_wf m" "\<not> down m" "al_wf p"
    and deps: "D_Alloc (E_deps e) = Some \<lparr>A_Allocate = allocate p, A_ReleaseExpired = release p\<rparr>"
    and zone: "zone_ok (dn_accepts d) (canon d) base" "base = D_BaseDomain (E_deps e)"
    and ld: "I_load I s = Inr snap" "load s = Inr snap" "listContainers (E_deps e) cy = Inr containers"
    and bd: "BuildDesired containers (fst (release p snap (Cy_now cy) (D_VIPLeaseGrace (E_deps e)))) (Some (allocate p))
           (buildCfg (E_deps e)) (Cy_clk cy) (Cy_now cy) = (snap', desired)"
    and sv: "snd (save f s snap') = None"
  shows "\<exists>d' m'. W_dns (snd (reconcileOnce I cy (e, w))) = Some d' \<and> W_proxy (snd (reconcileOnce I cy (e, w))) = Some m'
    \<and> (\<forall>r\<in>set (buildDNSRecords desired base (D_DNSTTL (E_deps e))). lookup d' (Rec_Name r) = Some (Rec_VIP r))
    \<and> (\<forall>n. canon d n \<notin> (\<lambda>r. canon d (Rec_Name r)) ` set (buildDNSRecords desired base (D_DNSTTL (E_deps e))) \<longrightarrow> lookup d' n = None)
    \<and> m' = fst (reconcile listen (sortEndpoints (govals (Endpoints desired))) m)"
    and "St_Resolve (E_snapshot (fst (reconcileOnce I cy (e, w)))) = resolveMap desired base"
    and "desired_ok (inPool p) (winners (collectCandidates containers (buildCfg (E_deps e)))) snap' desired"
proof -
  let ?rs = "buildDNSRecords desired base (D_DNSTTL (E_deps e))" and ?ws = "winners (collectCandidates containers (buildCfg (E_deps e)))"
  obtain w' status where a: "apply_desired I desired snap' (applyCfg (E_deps e)) w = (w', status)" by force
  have load': "loadLeases I w = Inr snap" using ld(1) by (simp add: w loadLeases_def)
  have bd': "BuildDesired containers (releaseExpired (E_deps e) (Cy_now cy) snap) (map_option A_Allocate (D_Alloc (E_deps e)))
       (buildCfg (E_deps e)) (Cy_clk cy) (Cy_now cy) = (snap', desired)" using bd by (simp add: releaseExpired_def deps)
  note r = reconcileOnce_ok [OF load' ld(3) bd' a]
  show ok: "desired_ok (inPool p) ?ws snap' desired"
    using alloc.BuildDesired_ok [OF wf(4) alloc.release_inv [OF conjunct1 [OF store.load_inv [OF ld(2)]]] bd] .
  have wc: "\<forall>c\<in>set ?ws. wf_cand (buildCfg (E_deps e)) c" by (rule wf_winners)
  have base: "base = BC_BaseDomain (buildCfg (E_deps e))" by (simp add: zone(2) buildCfg_def)
  note rok = published_records(1) [OF wf(4,1) zone(1) base ok wc, of "D_DNSTTL (E_deps e)"]
  then have acc: "\<forall>r\<in>set ?rs. dn_accepts d r" using dns.set_ok_iff [OF wf(1)] by blast
  have "inj_on (\<lambda>r. canon d (Rec_Name r)) (set ?rs)"
  proof (rule inj_onI)
    fix r q
    assume rq: "r \<in> set ?rs" "q \<in> set ?rs" "canon d (Rec_Name r) = canon d (Rec_Name q)"
    obtain x where x: "slug_name x" "Rec_Name r = x @ ''.'' @ base" using desired_records(1) [OF ok wc base rq(1)] by blast
    obtain y where y: "slug_name y" "Rec_Name q = y @ ''.'' @ base" using desired_records(1) [OF ok wc base rq(2)] by blast
    have "Rec_Name r = Rec_Name q" using rq(3) x y zone(1) unfolding zone_ok_def by metis
    with distinct_map_inj [OF buildDNSRecords_spec(1) [OF refl]] rq show "r = q" by metis
  qed
  then have dist: "distinct (map (\<lambda>r. canon d (Rec_Name r)) ?rs)"
    using buildDNSRecords_spec(1) [OF refl, of desired base] by (simp add: distinct_map)
  have w': "w' = \<lparr>W_store = Some (fst (save f s snap')), W_dns = Some (fst (setRecords d ?rs)),
      W_proxy = Some (fst (reconcile listen (sortEndpoints (govals (Endpoints desired))) m))\<rparr>"
    using apply_outcomes(2) [OF I w a sv] by (simp add: applyCfg_def zone(2))
  show "\<exists>d' m'. W_dns (snd (reconcileOnce I cy (e, w))) = Some d' \<and> W_proxy (snd (reconcileOnce I cy (e, w))) = Some m'
    \<and> (\<forall>r\<in>set ?rs. lookup d' (Rec_Name r) = Some (Rec_VIP r))
    \<and> (\<forall>n. canon d n \<notin> (\<lambda>r. canon d (Rec_Name r)) ` set ?rs \<longrightarrow> lookup d' n = None)
    \<and> m' = fst (reconcile listen (sortEndpoints (govals (Endpoints desired))) m)"
    using dns.lookup_published [OF wf(1) acc _ dist] dns.lookup_unpublished [OF wf(1) acc] by (simp add: r w')
  have "St_Resolve status = resolveMap desired base"
    using a by (auto simp: apply_desired_def w buildStatusSnapshot_def Let_def applyCfg_def zone(2) split: prod.splits option.splits)
  then show "St_Resolve (E_snapshot (fst (reconcileOnce I cy (e, w)))) = resolveMap desired base"
    by (simp add: r fillStatus_def Let_def split: option.splits)
qed

end


section \<open>The system\<close>

text \<open>
  The collaborators that \<open>Serve\<close> wires up.  The fault of the state file's load and save and the
  answers to \<open>net.Listen\<close> are those of one cycle.
\<close>

definition sysImpls :: "load_fault option \<Rightarrow> save_fault option \<Rightarrow> (string \<Rightarrow> addr option) \<Rightarrow> (JSONStore, mdns \<times> Server, ManagerImpl) impls" where
  "sysImpls lf sf listen =
     \<lparr>I_load = (\<lambda>js. Load (JS_path js) lf (JS_fs js)), I_save = store_Save sf, I_SetRecords = ctl_SetRecords,
      I_ListenAddr = (\<lambda>c. ListenAddr (snd c)), I_Reconcile = Reconcile listen\<rparr>"

lemma sysImpls_simps [simp]:
  "I_save (sysImpls lf sf listen) = store_Save sf" "I_SetRecords (sysImpls lf sf listen) = ctl_SetRecords"
  "I_Reconcile (sysImpls lf sf listen) = Reconcile listen" "I_ListenAddr (sysImpls lf sf listen) c = ListenAddr (snd c)"
  by (simp_all add: sysImpls_def)

lemma sysImpls_load: "I_load (sysImpls lf sf listen) js = Inr snap \<Longrightarrow> store_Load js = Inr snap"
  by (auto simp: sysImpls_def store_Load_def Load_def split: if_splits option.splits fsnode.splits load_fault.splits)

lemma sysImpls_load_None [simp]: "I_load (sysImpls None sf listen) js = store_Load js"
  by (simp add: sysImpls_def store_Load_def)

interpretation stacklane: reconciler "\<lambda>_. True" store_Load store_Save ctl_wf ctl_SetRecords
  "\<lambda>c. lookupA (fst c) (snd c)" "\<lambda>c. rec_ok (fst c) (snd c)" "\<lambda>c. CanonicalName (fst c)"
  mgr_inv Reconcile serves "\<lambda>m. valid_ep (Mgr_cfg m)" Mgr_shutting
  wf_pool Pool_Contains "\<lambda>pl. length (UsableSorted pl)" Allocate "\<lambda>_. ReleaseExpired"
  by unfold_locales (simp add: wf_pool_Is4 wf_pool_loopback)

end
