(* ===== verification/Configuration.thy ===== *)
theory Configuration
  imports Pool Proxy Json Timefmt
begin

text \<open>
  Package \<open>internal/config\<close>: the runtime configuration, its defaults, its four sources (defaults,
  file, environment, flags) and its validation.  What the operating system answers is a record
  \<open>cfgenv\<close>: the home directory, the files, the environment and the resolved UDP address.  JSON, durations,
  integers with a base prefix and the scan of the command line by package \<open>flag\<close> are modelled.
\<close>

section \<open>Data\<close>

record Config =
  Cfg_StateDir :: string
  Cfg_DockerHost :: string
  Cfg_VIPPool :: string
  Cfg_VIPLeaseGrace :: duration
  Cfg_DNSListen :: string
  Cfg_DNSAllowNonLoopback :: bool
  Cfg_DNSBaseDomain :: string
  Cfg_DNSDefaultInstance :: string
  Cfg_DNSTTL :: u32
  Cfg_ReconcileInterval :: duration
  Cfg_ReconcileDebounce :: duration
  Cfg_ProxyDialTimeout :: duration
  Cfg_ProxyIdleTimeout :: duration
  Cfg_ProxyShutdownTimeout :: duration
  Cfg_ProxyMaxConns :: int
  Cfg_LogLevel :: string
  Cfg_StateResetOnCorrupt :: bool
  Cfg_VIPAutoAlias :: bool
  Cfg_ConfigPath :: string

text \<open>The pointers of the JSON shape are options.\<close>

record fileConfig =
  FC_StateDir :: "string option"
  FC_DockerHost :: "string option"
  FC_VIPPool :: "string option"
  FC_VIPLeaseGrace :: "string option"
  FC_DNSListen :: "string option"
  FC_DNSAllowNonLoopback :: "bool option"
  FC_DNSBaseDomain :: "string option"
  FC_DNSDefaultInstance :: "string option"
  FC_DNSTTL :: "u32 option"
  FC_ReconcileInterval :: "string option"
  FC_ReconcileDebounce :: "string option"
  FC_ProxyDialTimeout :: "string option"
  FC_ProxyIdleTimeout :: "string option"
  FC_ProxyShutdownTimeout :: "string option"
  FC_ProxyMaxConns :: "int option"
  FC_LogLevel :: "string option"
  FC_StateResetOnCorrupt :: "bool option"
  FC_VIPAutoAlias :: "bool option"

record cfgenv =
  X_UserHomeDir :: "string option"
  X_getenv :: "string \<Rightarrow> string"
  X_ReadFile :: "string \<Rightarrow> string option"
  X_ResolveUDPAddr :: "string \<Rightarrow> addr option option"

datatype config_error =
    CfgStateDir
  | CfgVIPPool pool_error
  | CfgLeaseGrace
  | CfgDNSListenEmpty
  | CfgDNSListenResolve
  | CfgDNSListenNoIP
  | CfgDNSListenNotLoopback
  | CfgBaseDomain
  | CfgDefaultInstance
  | CfgTTL
  | CfgInterval
  | CfgDebounce
  | CfgDialTimeout
  | CfgIdleTimeout
  | CfgShutdownTimeout
  | CfgMaxConns
  | CfgLogLevel
  | CfgAutoAlias
  | CfgFileRead
  | CfgFileJSON
  | CfgFileDuration string
  | CfgFlags

section \<open>Defaults\<close>

text \<open>\<open>filepath.Clean\<close> and \<open>filepath.Join\<close>: the elements of the path, without empty ones, dots and
  what a double dot takes back.\<close>

fun splitOn :: "char \<Rightarrow> string \<Rightarrow> string list" where
  "splitOn c [] = [[]]"
| "splitOn c (x # xs) =
     (if x = c then [] # splitOn c xs
      else case splitOn c xs of p # ps \<Rightarrow> (x # p) # ps | [] \<Rightarrow> [[x]])"

fun cleanParts :: "bool \<Rightarrow> string list \<Rightarrow> string list \<Rightarrow> string list" where
  "cleanParts rooted [] out = rev out"
| "cleanParts rooted (p # ps) out =
     (if p = '''' \<or> p = ''.'' then cleanParts rooted ps out
      else if p = ''..'' then
        (case out of
           q # qs \<Rightarrow> if q \<noteq> ''..'' then cleanParts rooted ps qs
                     else cleanParts rooted ps (p # out)
         | [] \<Rightarrow> if rooted then cleanParts rooted ps [] else cleanParts rooted ps [p])
      else cleanParts rooted ps (p # out))"

fun joinParts :: "string list \<Rightarrow> string" where
  "joinParts [] = ''''"
| "joinParts [p] = p"
| "joinParts (p # ps) = p @ ''/'' @ joinParts ps"

definition Clean :: "string \<Rightarrow> string" where
  "Clean path =
     (let rooted = HasPrefix path ''/'';
          s = (if rooted then ''/'' else '''') @ joinParts (cleanParts rooted (splitOn (CHR ''/'') path) [])
      in if s = '''' then ''.'' else s)"

text \<open>\<open>Join\<close> ignores empty elements; of empty elements only it is empty.\<close>

definition joinPath :: "string \<Rightarrow> string \<Rightarrow> string" where
  "joinPath d f =
     (if d = '''' then (if f = '''' then '''' else Clean f)
      else if f = '''' then Clean d else Clean (d @ ''/'' @ f))"

definition Defaults :: "cfgenv \<Rightarrow> Config" where
  "Defaults env =
     \<lparr>Cfg_StateDir = (case X_UserHomeDir env of
         Some home \<Rightarrow> if home \<noteq> '''' then joinPath home ''.stacklane'' else ''~/.stacklane''
       | None \<Rightarrow> ''~/.stacklane''),
      Cfg_DockerHost = '''', Cfg_VIPPool = ''127.77.0.0/16'', Cfg_VIPLeaseGrace = 24 * 3600 * second,
      Cfg_DNSListen = ''127.0.0.1:5353'', Cfg_DNSAllowNonLoopback = False, Cfg_DNSBaseDomain = ''stacklane.test'',
      Cfg_DNSDefaultInstance = '''', Cfg_DNSTTL = 5, Cfg_ReconcileInterval = 15 * second,
      Cfg_ReconcileDebounce = 250000000, Cfg_ProxyDialTimeout = 3 * second, Cfg_ProxyIdleTimeout = 300 * second,
      Cfg_ProxyShutdownTimeout = 5 * second, Cfg_ProxyMaxConns = 1024, Cfg_LogLevel = ''info'',
      Cfg_StateResetOnCorrupt = False, Cfg_VIPAutoAlias = False, Cfg_ConfigPath = ''''\<rparr>"

section \<open>The VIP pool\<close>

definition cfg_lastAddr :: "netprefix \<Rightarrow> addr option" where
  "cfg_lastAddr pfx =
     (case As4 (Prefix_Addr pfx) of
        None \<Rightarrow> None
      | Some (a0, a1, a2, a3) \<Rightarrow>
          let hostBits = 32 - Prefix_Bits pfx;
              ip = pack4 a0 a1 a2 a3 OR hostMask hostBits
          in Some (AddrFrom4 (byte_at 24 ip, byte_at 16 ip, byte_at 8 ip, byte_at 0 ip)))"

text \<open>What one iteration of the loop of \<open>countUsable\<close> adds to the count.\<close>

definition countAt :: "netprefix \<Rightarrow> u32 \<Rightarrow> nat \<Rightarrow> nat" where
  "countAt pfx baseU i =
     (let ip = baseU + of_nat i;
          b3 = byte_at 0 ip;
          a = AddrFrom4 (byte_at 24 ip, byte_at 16 ip, byte_at 8 ip, b3)
      in if \<not> Prefix_Contains pfx a then 0
         else if \<not> IsLoopback a then 0
         else if i = 0 then 0
         else if b3 = 0 \<or> b3 = 255 then 0
         else 1)"

definition countUsable :: "netprefix \<Rightarrow> nat option" where
  "countUsable pfx =
     (let hostBits = 32 - Prefix_Bits pfx in
      if hostBits = 0 then Some 0
      else
        let tot = 2 ^ hostBits in
        if 16 < hostBits then Some tot
        else case As4 (Prefix_Addr pfx) of
          None \<Rightarrow> None
        | Some (b0, b1, b2, b3) \<Rightarrow> Some (sum_list (map (countAt pfx (pack4 b0 b1 b2 b3)) [0..<tot])))"

definition validateVIPPool :: "string \<Rightarrow> pool_error option" where
  "validateVIPPool cidr =
     (case ParsePrefix cidr of
        None \<Rightarrow> Some (PoolInvalidCIDR cidr)
      | Some pfx0 \<Rightarrow>
          if \<not> Is4 (Prefix_Addr pfx0) then Some (PoolNotIPv4 cidr)
          else
            let pfx = Masked pfx0; bits = Prefix_Bits pfx in
            if bits < 16 \<or> 30 < bits then Some (PoolBadBits bits)
            else if \<not> Prefix_Contains loopback_prefix (Prefix_Addr pfx) then Some (PoolNotLoopback cidr)
            else (case cfg_lastAddr pfx of
                    None \<Rightarrow> Some PoolPanic
                  | Some lastA \<Rightarrow>
                      if \<not> IsLoopback lastA \<or> \<not> Prefix_Contains loopback_prefix lastA then Some (PoolNotLoopback cidr)
                      else (case countUsable pfx of
                              None \<Rightarrow> Some PoolPanic
                            | Some usable \<Rightarrow> if usable < 2 then Some (PoolTooSmall usable) else None)))"

section \<open>Validation\<close>

text \<open>
  The IP of a resolved UDP address, which is \<open>nil\<close> (\<^const>\<open>None\<close>) where there is no host;
  \<open>net.IP\<close> does not distinguish an IPv4 address from its mapped form.
\<close>

definition validateDNSListenHost :: "addr option \<Rightarrow> bool \<Rightarrow> config_error option" where
  "validateDNSListenHost ip allow =
     (case ip of
        None \<Rightarrow> Some CfgDNSListenNoIP
      | Some a \<Rightarrow>
          if IsUnspecified (Unmap a) \<or> \<not> IsLoopback (Unmap a)
          then (if allow then None else Some CfgDNSListenNotLoopback)
          else None)"

definition Config_Validate :: "cfgenv \<Rightarrow> Config \<Rightarrow> config_error option" where
  "Config_Validate env c =
     (if Cfg_StateDir c = '''' then Some CfgStateDir
      else case validateVIPPool (Cfg_VIPPool c) of Some e \<Rightarrow> Some (CfgVIPPool e) | None \<Rightarrow>
      if Cfg_VIPLeaseGrace c \<le> 0 then Some CfgLeaseGrace
      else if Cfg_DNSListen c = '''' then Some CfgDNSListenEmpty
      else case X_ResolveUDPAddr env (Cfg_DNSListen c) of None \<Rightarrow> Some CfgDNSListenResolve | Some ip \<Rightarrow>
      (case validateDNSListenHost ip (Cfg_DNSAllowNonLoopback c) of Some e \<Rightarrow> Some e | None \<Rightarrow>
      if TrimSpace (Cfg_DNSBaseDomain c) = '''' then Some CfgBaseDomain
      else if Cfg_DNSDefaultInstance c \<noteq> ''''
           \<and> (CHR ''.'' \<in> set (Cfg_DNSDefaultInstance c) \<or> CHR ''/'' \<in> set (Cfg_DNSDefaultInstance c)) then Some CfgDefaultInstance
      else if Cfg_DNSTTL c = 0 then Some CfgTTL
      else if Cfg_ReconcileInterval c \<le> 0 then Some CfgInterval
      else if Cfg_ReconcileDebounce c < 0 then Some CfgDebounce
      else if Cfg_ProxyDialTimeout c \<le> 0 then Some CfgDialTimeout
      else if Cfg_ProxyIdleTimeout c \<le> 0 then Some CfgIdleTimeout
      else if Cfg_ProxyShutdownTimeout c \<le> 0 then Some CfgShutdownTimeout
      else if Cfg_ProxyMaxConns c \<le> 0 then Some CfgMaxConns
      else if Cfg_LogLevel c = '''' then Some CfgLogLevel
      else if Cfg_VIPAutoAlias c then Some CfgAutoAlias
      else None))"

section \<open>The configuration file\<close>

text \<open>\<open>json.Unmarshal\<close> into a \<open>fileConfig\<close> of nil pointers.\<close>

definition decodeTTL :: "u32 option decoder" where
  "decodeTTL v x = map_option (map_option of_nat) (decodeUintPtr 32 v (map_option unat x))"

definition configFields :: "(string \<times> fileConfig decoder) list" where
  "configFields =
     [structField ''state_dir'' FC_StateDir (\<lambda>y. FC_StateDir_update (\<lambda>_. y)) decodeStringPtr,
      structField ''docker_host'' FC_DockerHost (\<lambda>y. FC_DockerHost_update (\<lambda>_. y)) decodeStringPtr,
      structField ''vip_pool'' FC_VIPPool (\<lambda>y. FC_VIPPool_update (\<lambda>_. y)) decodeStringPtr,
      structField ''vip_lease_grace'' FC_VIPLeaseGrace (\<lambda>y. FC_VIPLeaseGrace_update (\<lambda>_. y)) decodeStringPtr,
      structField ''dns_listen'' FC_DNSListen (\<lambda>y. FC_DNSListen_update (\<lambda>_. y)) decodeStringPtr,
      structField ''dns_allow_non_loopback'' FC_DNSAllowNonLoopback (\<lambda>y. FC_DNSAllowNonLoopback_update (\<lambda>_. y)) decodeBoolPtr,
      structField ''dns_base_domain'' FC_DNSBaseDomain (\<lambda>y. FC_DNSBaseDomain_update (\<lambda>_. y)) decodeStringPtr,
      structField ''dns_default_instance'' FC_DNSDefaultInstance (\<lambda>y. FC_DNSDefaultInstance_update (\<lambda>_. y)) decodeStringPtr,
      structField ''dns_ttl'' FC_DNSTTL (\<lambda>y. FC_DNSTTL_update (\<lambda>_. y)) decodeTTL,
      structField ''reconcile_interval'' FC_ReconcileInterval (\<lambda>y. FC_ReconcileInterval_update (\<lambda>_. y)) decodeStringPtr,
      structField ''reconcile_debounce'' FC_ReconcileDebounce (\<lambda>y. FC_ReconcileDebounce_update (\<lambda>_. y)) decodeStringPtr,
      structField ''proxy_dial_timeout'' FC_ProxyDialTimeout (\<lambda>y. FC_ProxyDialTimeout_update (\<lambda>_. y)) decodeStringPtr,
      structField ''proxy_idle_timeout'' FC_ProxyIdleTimeout (\<lambda>y. FC_ProxyIdleTimeout_update (\<lambda>_. y)) decodeStringPtr,
      structField ''proxy_shutdown_timeout'' FC_ProxyShutdownTimeout (\<lambda>y. FC_ProxyShutdownTimeout_update (\<lambda>_. y)) decodeStringPtr,
      structField ''proxy_max_conns'' FC_ProxyMaxConns (\<lambda>y. FC_ProxyMaxConns_update (\<lambda>_. y)) decodeIntPtr,
      structField ''log_level'' FC_LogLevel (\<lambda>y. FC_LogLevel_update (\<lambda>_. y)) decodeStringPtr,
      structField ''state_reset_on_corrupt'' FC_StateResetOnCorrupt (\<lambda>y. FC_StateResetOnCorrupt_update (\<lambda>_. y)) decodeBoolPtr,
      structField ''vip_auto_alias'' FC_VIPAutoAlias (\<lambda>y. FC_VIPAutoAlias_update (\<lambda>_. y)) decodeBoolPtr]"

definition emptyFileConfig :: fileConfig where
  "emptyFileConfig =
     \<lparr>FC_StateDir = None, FC_DockerHost = None, FC_VIPPool = None, FC_VIPLeaseGrace = None,
      FC_DNSListen = None, FC_DNSAllowNonLoopback = None, FC_DNSBaseDomain = None, FC_DNSDefaultInstance = None,
      FC_DNSTTL = None, FC_ReconcileInterval = None, FC_ReconcileDebounce = None, FC_ProxyDialTimeout = None,
      FC_ProxyIdleTimeout = None, FC_ProxyShutdownTimeout = None, FC_ProxyMaxConns = None, FC_LogLevel = None,
      FC_StateResetOnCorrupt = None, FC_VIPAutoAlias = None\<rparr>"

definition unmarshalConfig :: "string \<Rightarrow> fileConfig option" where
  "unmarshalConfig data = (case parseJSON data of None \<Rightarrow> None | Some j \<Rightarrow> decodeStruct configFields j emptyFileConfig)"

definition setOpt :: "'a option \<Rightarrow> ('a \<Rightarrow> Config \<Rightarrow> Config) \<Rightarrow> Config \<Rightarrow> config_error + Config" where
  "setOpt v upd c = Inr (case v of None \<Rightarrow> c | Some x \<Rightarrow> upd x c)"

definition setDur :: "string \<Rightarrow> string option \<Rightarrow> (duration \<Rightarrow> Config \<Rightarrow> Config) \<Rightarrow> Config \<Rightarrow> config_error + Config" where
  "setDur name v upd c =
     (case v of
        None \<Rightarrow> Inr c
      | Some s \<Rightarrow> (case ParseDuration s of None \<Rightarrow> Inl (CfgFileDuration name) | Some d \<Rightarrow> Inr (upd d c)))"

text \<open>The assignments in their order; the first duration that does not parse ends them.\<close>

fun applySettings :: "(Config \<Rightarrow> config_error + Config) list \<Rightarrow> Config \<Rightarrow> config_error + Config" where
  "applySettings [] c = Inr c"
| "applySettings (f # fs) c = (case f c of Inl e \<Rightarrow> Inl e | Inr c' \<Rightarrow> applySettings fs c')"

definition fileSettings :: "fileConfig \<Rightarrow> (Config \<Rightarrow> config_error + Config) list" where
  "fileSettings fc =
     [setOpt (FC_StateDir fc) (\<lambda>v c. c\<lparr>Cfg_StateDir := v\<rparr>),
      setOpt (FC_DockerHost fc) (\<lambda>v c. c\<lparr>Cfg_DockerHost := v\<rparr>),
      setOpt (FC_VIPPool fc) (\<lambda>v c. c\<lparr>Cfg_VIPPool := v\<rparr>),
      setDur ''vip_lease_grace'' (FC_VIPLeaseGrace fc) (\<lambda>v c. c\<lparr>Cfg_VIPLeaseGrace := v\<rparr>),
      setOpt (FC_DNSListen fc) (\<lambda>v c. c\<lparr>Cfg_DNSListen := v\<rparr>),
      setOpt (FC_DNSAllowNonLoopback fc) (\<lambda>v c. c\<lparr>Cfg_DNSAllowNonLoopback := v\<rparr>),
      setOpt (FC_DNSBaseDomain fc) (\<lambda>v c. c\<lparr>Cfg_DNSBaseDomain := v\<rparr>),
      setOpt (FC_DNSDefaultInstance fc) (\<lambda>v c. c\<lparr>Cfg_DNSDefaultInstance := v\<rparr>),
      setOpt (FC_DNSTTL fc) (\<lambda>v c. c\<lparr>Cfg_DNSTTL := v\<rparr>),
      setDur ''reconcile_interval'' (FC_ReconcileInterval fc) (\<lambda>v c. c\<lparr>Cfg_ReconcileInterval := v\<rparr>),
      setDur ''reconcile_debounce'' (FC_ReconcileDebounce fc) (\<lambda>v c. c\<lparr>Cfg_ReconcileDebounce := v\<rparr>),
      setDur ''proxy_dial_timeout'' (FC_ProxyDialTimeout fc) (\<lambda>v c. c\<lparr>Cfg_ProxyDialTimeout := v\<rparr>),
      setDur ''proxy_idle_timeout'' (FC_ProxyIdleTimeout fc) (\<lambda>v c. c\<lparr>Cfg_ProxyIdleTimeout := v\<rparr>),
      setDur ''proxy_shutdown_timeout'' (FC_ProxyShutdownTimeout fc) (\<lambda>v c. c\<lparr>Cfg_ProxyShutdownTimeout := v\<rparr>),
      setOpt (FC_ProxyMaxConns fc) (\<lambda>v c. c\<lparr>Cfg_ProxyMaxConns := v\<rparr>),
      setOpt (FC_LogLevel fc) (\<lambda>v c. c\<lparr>Cfg_LogLevel := v\<rparr>),
      setOpt (FC_StateResetOnCorrupt fc) (\<lambda>v c. c\<lparr>Cfg_StateResetOnCorrupt := v\<rparr>),
      setOpt (FC_VIPAutoAlias fc) (\<lambda>v c. c\<lparr>Cfg_VIPAutoAlias := v\<rparr>)]"

definition applyFile :: "cfgenv \<Rightarrow> Config \<Rightarrow> string \<Rightarrow> config_error + Config" where
  "applyFile env cfg path =
     (case X_ReadFile env path of
        None \<Rightarrow> Inl CfgFileRead
      | Some data \<Rightarrow>
          (case unmarshalConfig data of
             None \<Rightarrow> Inl CfgFileJSON
           | Some fc \<Rightarrow> applySettings (fileSettings fc) cfg))"

section \<open>The environment\<close>

definition envStr :: "cfgenv \<Rightarrow> string \<Rightarrow> (string \<Rightarrow> Config \<Rightarrow> Config) \<Rightarrow> Config \<Rightarrow> Config" where
  "envStr env name upd c = (let v = X_getenv env name in if v = '''' then c else upd v c)"

definition envDur :: "cfgenv \<Rightarrow> string \<Rightarrow> (duration \<Rightarrow> Config \<Rightarrow> Config) \<Rightarrow> Config \<Rightarrow> Config" where
  "envDur env name upd =
     envStr env name (\<lambda>v c. case ParseDuration v of Some d \<Rightarrow> upd d c | None \<Rightarrow> c)"

definition envAllow :: "string \<Rightarrow> Config \<Rightarrow> Config" where
  "envAllow v c =
     (let s = ToLower (TrimSpace v) in
      if s \<in> {''1'', ''true'', ''yes'', ''on''} then c\<lparr>Cfg_DNSAllowNonLoopback := True\<rparr>
      else if s \<in> {''0'', ''false'', ''no'', ''off''} then c\<lparr>Cfg_DNSAllowNonLoopback := False\<rparr>
      else c)"

definition envTTL :: "string \<Rightarrow> Config \<Rightarrow> Config" where
  "envTTL v c = (case ParseUint v 32 of Some n \<Rightarrow> c\<lparr>Cfg_DNSTTL := of_nat n\<rparr> | None \<Rightarrow> c)"

definition envSettings :: "cfgenv \<Rightarrow> (Config \<Rightarrow> Config) list" where
  "envSettings env =
     [envStr env ''STACKLANE_STATE_DIR'' (\<lambda>v c. c\<lparr>Cfg_StateDir := v\<rparr>),
      envStr env ''DOCKER_HOST'' (\<lambda>v c. c\<lparr>Cfg_DockerHost := v\<rparr>),
      envStr env ''STACKLANE_VIP_POOL'' (\<lambda>v c. c\<lparr>Cfg_VIPPool := v\<rparr>),
      envDur env ''STACKLANE_VIP_LEASE_GRACE'' (\<lambda>v c. c\<lparr>Cfg_VIPLeaseGrace := v\<rparr>),
      envStr env ''STACKLANE_DNS_LISTEN'' (\<lambda>v c. c\<lparr>Cfg_DNSListen := v\<rparr>),
      envStr env ''STACKLANE_DNS_ALLOW_NON_LOOPBACK'' envAllow,
      envStr env ''STACKLANE_DNS_BASE_DOMAIN'' (\<lambda>v c. c\<lparr>Cfg_DNSBaseDomain := v\<rparr>),
      envStr env ''STACKLANE_DNS_DEFAULT_INSTANCE'' (\<lambda>v c. c\<lparr>Cfg_DNSDefaultInstance := v\<rparr>),
      envStr env ''STACKLANE_DNS_TTL'' envTTL,
      envDur env ''STACKLANE_RECONCILE_INTERVAL'' (\<lambda>v c. c\<lparr>Cfg_ReconcileInterval := v\<rparr>),
      envDur env ''STACKLANE_RECONCILE_DEBOUNCE'' (\<lambda>v c. c\<lparr>Cfg_ReconcileDebounce := v\<rparr>),
      envStr env ''STACKLANE_LOG_LEVEL'' (\<lambda>v c. c\<lparr>Cfg_LogLevel := v\<rparr>)]"

definition applyEnv :: "cfgenv \<Rightarrow> Config \<Rightarrow> Config" where
  "applyEnv env cfg = fold (\<lambda>f c. f c) (envSettings env) cfg"

section \<open>The command line\<close>

datatype flag_kind = KString | KDuration | KBool | KUint | KInt

datatype flag_value = VString string | VDuration duration | VBool bool | VUint "64 word" | VInt int

definition ParseBool :: "string \<Rightarrow> bool option" where
  "ParseBool s =
     (if s \<in> {''1'', ''t'', ''T'', ''TRUE'', ''true'', ''True''} then Some True
      else if s \<in> {''0'', ''f'', ''F'', ''FALSE'', ''false'', ''False''} then Some False
      else None)"

definition flagValue :: "flag_kind \<Rightarrow> string \<Rightarrow> flag_value option" where
  "flagValue k v =
     (case k of
        KString \<Rightarrow> Some (VString v)
      | KDuration \<Rightarrow> map_option VDuration (ParseDuration v)
      | KBool \<Rightarrow> map_option VBool (ParseBool v)
      | KUint \<Rightarrow> map_option VUint (map_option of_nat (ParseUint0 v 64))
      | KInt \<Rightarrow> map_option VInt (ParseInt0 v))"

text \<open>The name and the value around the first equals sign, if there is one.\<close>

definition cutEq :: "string \<Rightarrow> string \<times> string option" where
  "cutEq s =
     (if CHR ''='' \<in> set s
      then (takeWhile (\<lambda>c. c \<noteq> CHR ''='') s, Some (tl (dropWhile (\<lambda>c. c \<noteq> CHR ''='') s)))
      else (s, None))"

text \<open>
  \<open>FlagSet.Parse\<close>: the flags that were set, and whether the scan succeeded.  It ends at the
  first argument that is not a flag and after a double dash; a flag that is not boolean takes
  the next argument if it has no value of its own.
\<close>

fun parseFlags :: "(string \<rightharpoonup> flag_kind) \<Rightarrow> string list \<Rightarrow> (string, flag_value) gomap \<Rightarrow> (string, flag_value) gomap \<times> bool" where
  "parseFlags kinds [] acc = (acc, True)"
| "parseFlags kinds (a # args) acc =
     (if length a < 2 \<or> hd a \<noteq> CHR ''-'' then (acc, True)
      else if a = ''--'' then (acc, True)
      else
        let name0 = (if a ! 1 = CHR ''-'' then drop 2 a else drop 1 a) in
        if name0 = '''' \<or> hd name0 = CHR ''-'' \<or> hd name0 = CHR ''='' then (acc, False)
        else
          let (name, val) = cutEq name0 in
          case kinds name of
            None \<Rightarrow> (acc, False)
          | Some k \<Rightarrow>
              if k = KBool then
                (case flagValue k (case val of Some v \<Rightarrow> v | None \<Rightarrow> ''true'') of
                   None \<Rightarrow> (acc, False)
                 | Some x \<Rightarrow> parseFlags kinds args (AList.update name x acc))
              else
                (case val of
                   Some v \<Rightarrow>
                     (case flagValue k v of
                        None \<Rightarrow> (acc, False)
                      | Some x \<Rightarrow> parseFlags kinds args (AList.update name x acc))
                 | None \<Rightarrow>
                     (case args of
                        [] \<Rightarrow> (acc, False)
                      | v # args' \<Rightarrow>
                          (case flagValue k v of
                             None \<Rightarrow> (acc, False)
                           | Some x \<Rightarrow> parseFlags kinds args' (AList.update name x acc)))))"

definition flagKinds :: "string \<rightharpoonup> flag_kind" where
  "flagKinds = map_of
     [(''state-dir'', KString), (''config'', KString), (''docker-host'', KString), (''vip-pool'', KString),
      (''vip-lease-grace'', KDuration), (''dns-listen'', KString), (''dns-allow-non-loopback'', KBool),
      (''dns-base-domain'', KString), (''dns-default-instance'', KString), (''dns-ttl'', KUint),
      (''reconcile-interval'', KDuration), (''reconcile-debounce'', KDuration), (''proxy-dial-timeout'', KDuration),
      (''proxy-idle-timeout'', KDuration), (''proxy-shutdown-timeout'', KDuration), (''proxy-max-conns'', KInt),
      (''log-level'', KString), (''state-reset-on-corrupt'', KBool), (''vip-auto-alias'', KBool)]"

definition flagStr :: "(string, flag_value) gomap \<Rightarrow> string \<Rightarrow> (string \<Rightarrow> Config \<Rightarrow> Config) \<Rightarrow> Config \<Rightarrow> Config" where
  "flagStr m name upd c = (case map_of m name of Some (VString v) \<Rightarrow> upd v c | _ \<Rightarrow> c)"

definition flagDur :: "(string, flag_value) gomap \<Rightarrow> string \<Rightarrow> (duration \<Rightarrow> Config \<Rightarrow> Config) \<Rightarrow> Config \<Rightarrow> Config" where
  "flagDur m name upd c = (case map_of m name of Some (VDuration v) \<Rightarrow> upd v c | _ \<Rightarrow> c)"

definition flagBool :: "(string, flag_value) gomap \<Rightarrow> string \<Rightarrow> (bool \<Rightarrow> Config \<Rightarrow> Config) \<Rightarrow> Config \<Rightarrow> Config" where
  "flagBool m name upd c = (case map_of m name of Some (VBool v) \<Rightarrow> upd v c | _ \<Rightarrow> c)"

definition flagTTL :: "(string, flag_value) gomap \<Rightarrow> Config \<Rightarrow> Config" where
  "flagTTL m c = (case map_of m ''dns-ttl'' of Some (VUint v) \<Rightarrow> c\<lparr>Cfg_DNSTTL := ucast v\<rparr> | _ \<Rightarrow> c)"

definition flagMaxConns :: "(string, flag_value) gomap \<Rightarrow> Config \<Rightarrow> Config" where
  "flagMaxConns m c = (case map_of m ''proxy-max-conns'' of Some (VInt v) \<Rightarrow> c\<lparr>Cfg_ProxyMaxConns := v\<rparr> | _ \<Rightarrow> c)"

definition flagSettings :: "(string, flag_value) gomap \<Rightarrow> (Config \<Rightarrow> Config) list" where
  "flagSettings m =
     [flagStr m ''state-dir'' (\<lambda>v c. c\<lparr>Cfg_StateDir := v\<rparr>),
      flagStr m ''config'' (\<lambda>v c. c\<lparr>Cfg_ConfigPath := v\<rparr>),
      flagStr m ''docker-host'' (\<lambda>v c. c\<lparr>Cfg_DockerHost := v\<rparr>),
      flagStr m ''vip-pool'' (\<lambda>v c. c\<lparr>Cfg_VIPPool := v\<rparr>),
      flagDur m ''vip-lease-grace'' (\<lambda>v c. c\<lparr>Cfg_VIPLeaseGrace := v\<rparr>),
      flagStr m ''dns-listen'' (\<lambda>v c. c\<lparr>Cfg_DNSListen := v\<rparr>),
      flagBool m ''dns-allow-non-loopback'' (\<lambda>v c. c\<lparr>Cfg_DNSAllowNonLoopback := v\<rparr>),
      flagStr m ''dns-base-domain'' (\<lambda>v c. c\<lparr>Cfg_DNSBaseDomain := v\<rparr>),
      flagStr m ''dns-default-instance'' (\<lambda>v c. c\<lparr>Cfg_DNSDefaultInstance := v\<rparr>),
      flagTTL m,
      flagDur m ''reconcile-interval'' (\<lambda>v c. c\<lparr>Cfg_ReconcileInterval := v\<rparr>),
      flagDur m ''reconcile-debounce'' (\<lambda>v c. c\<lparr>Cfg_ReconcileDebounce := v\<rparr>),
      flagDur m ''proxy-dial-timeout'' (\<lambda>v c. c\<lparr>Cfg_ProxyDialTimeout := v\<rparr>),
      flagDur m ''proxy-idle-timeout'' (\<lambda>v c. c\<lparr>Cfg_ProxyIdleTimeout := v\<rparr>),
      flagDur m ''proxy-shutdown-timeout'' (\<lambda>v c. c\<lparr>Cfg_ProxyShutdownTimeout := v\<rparr>),
      flagMaxConns m,
      flagStr m ''log-level'' (\<lambda>v c. c\<lparr>Cfg_LogLevel := v\<rparr>),
      flagBool m ''state-reset-on-corrupt'' (\<lambda>v c. c\<lparr>Cfg_StateResetOnCorrupt := v\<rparr>),
      flagBool m ''vip-auto-alias'' (\<lambda>v c. c\<lparr>Cfg_VIPAutoAlias := v\<rparr>)]"

definition applyFlags :: "Config \<Rightarrow> string list \<Rightarrow> config_error + Config" where
  "applyFlags cfg args =
     (case parseFlags flagKinds args [] of
        (m, ok) \<Rightarrow> if ok then Inr (fold (\<lambda>f c. f c) (flagSettings m) cfg) else Inl CfgFlags)"

text \<open>\<open>filterKnown\<close> keeps the flags of some names with their values.\<close>

fun filterKnown :: "string list \<Rightarrow> (string \<Rightarrow> bool) \<Rightarrow> string list" where
  "filterKnown [] allow = []"
| "filterKnown (a # args) allow =
     (if \<not> HasPrefix a ''-'' then filterKnown args allow
      else
        let (name, v) = cutEq (dropWhile (\<lambda>c. c = CHR ''-'') a);
            takesNext = (v = None \<or> v = Some '''') \<and> args \<noteq> [] \<and> \<not> HasPrefix (hd args) ''-''
        in if \<not> allow name then (if takesNext then filterKnown (tl args) allow else filterKnown args allow)
           else if takesNext then a # hd args # filterKnown (tl args) allow
           else a # filterKnown args allow)"

definition discoverConfig :: "cfgenv \<Rightarrow> string list \<Rightarrow> string" where
  "discoverConfig env args =
     (let configPath = X_getenv env ''STACKLANE_CONFIG'';
          (m, _) = parseFlags [''config'' \<mapsto> KString] (filterKnown args (\<lambda>n. n = ''config'')) []
      in case map_of m ''config'' of
           Some (VString v) \<Rightarrow> if v \<noteq> '''' then v else configPath
         | _ \<Rightarrow> configPath)"

section \<open>Loading\<close>

definition expandHome :: "cfgenv \<Rightarrow> Config \<Rightarrow> Config" where
  "expandHome env cfg =
     (if HasPrefix (Cfg_StateDir cfg) ''~/'' then
        (case X_UserHomeDir env of
           Some home \<Rightarrow> cfg\<lparr>Cfg_StateDir := joinPath home (drop 2 (Cfg_StateDir cfg))\<rparr>
         | None \<Rightarrow> cfg)
      else cfg)"

definition Config_Load :: "cfgenv \<Rightarrow> string list \<Rightarrow> config_error + Config" where
  "Config_Load env args =
     (let configPath = discoverConfig env args;
          cfg0 = (Defaults env)\<lparr>Cfg_ConfigPath := configPath\<rparr>
      in case (if configPath \<noteq> '''' then applyFile env cfg0 configPath else Inr cfg0) of
        Inl e \<Rightarrow> Inl e
      | Inr cfg1 \<Rightarrow>
          (case applyFlags (applyEnv env cfg1) args of
             Inl e \<Rightarrow> Inl e
           | Inr cfg2 \<Rightarrow>
               let cfg3 = expandHome env cfg2 in
               (case Config_Validate env cfg3 of Some e \<Rightarrow> Inl e | None \<Rightarrow> Inr cfg3)))"

section \<open>The pool check and the pool\<close>

lemma cfg_lastAddr_eq: "cfg_lastAddr = lastAddr"
  by (simp add: cfg_lastAddr_def lastAddr_def fun_eq_iff)

lemma countAt_in_pool: "in_pool4 p (base + of_nat i) \<Longrightarrow> i \<noteq> 0 \<Longrightarrow> countAt p base i = 1"
  by (simp add: countAt_def in_pool4_def Let_def AddrFrom4_byte_at del: IsLoopback.simps)

lemma pool_block_countUsable:
  assumes "pool_block p base hb"
  shows "\<exists>n. countUsable p = Some n \<and> 2 \<le> n"
proof -
  have b: "block4 p base hb" "2 \<le> hb" "hb \<le> 16" "hb = 32 - Prefix_Bits p" using assms by (auto simp: pool_block_def block4_def)
  let ?f = "countAt p base"
  have "2 < (2 ^ hb :: nat)" using pool_block_two_usable(1) [OF assms, of 2] by simp
  then have "[0..<2 ^ hb] = 0 # 1 # 2 # [3..<2 ^ hb]"
    by (simp add: upt_conv_Cons numeral_2_eq_2 numeral_3_eq_3)
  moreover have "?f i = 1" if "i = 1 \<or> i = 2" for i
    using countAt_in_pool [OF pool_block_two_usable(2) [OF assms that]] that by auto
  from this [of 1] this [of 2] have "?f 1 = 1" "?f 2 = 1" by simp_all
  ultimately have "2 \<le> sum_list (map ?f [0..<2 ^ hb])" by simp
  moreover have "countUsable p = Some (sum_list (map ?f [0..<2 ^ hb]))"
    using b pack4_of_As4 [OF b(1)] by (auto simp: countUsable_def bytes4_def Let_def)
  ultimately show ?thesis by simp
qed

lemma validateVIPPool_None_iff: "validateVIPPool cidr = None \<longleftrightarrow> (\<exists>pfx. pool_cidr cidr pfx)"
proof
  assume "validateVIPPool cidr = None"
  then obtain pfx where "ParsePrefix cidr = Some pfx" "Is4 (Prefix_Addr pfx)" "16 \<le> Prefix_Bits pfx" "Prefix_Bits pfx \<le> 30"
      "Prefix_Contains loopback_prefix (Prefix_Addr (Masked pfx))"
    by (auto simp: validateVIPPool_def Let_def Masked_def split: option.splits if_splits)
  then show "\<exists>pfx. pool_cidr cidr pfx" using masked_pool_cidr by blast
next
  assume "\<exists>pfx. pool_cidr cidr pfx"
  then obtain pfx base hb where p: "pool_cidr cidr pfx" "pool_block (Masked pfx) base hb" using pool_cidr_block by blast
  have b: "block4 (Masked pfx) base hb" using p(2) by (simp add: pool_block_def)
  then have a: "Prefix_Addr (Masked pfx) = Addr4 base" by (simp add: block4_def)
  obtain n where "countUsable (Masked pfx) = Some n" "2 \<le> n" using pool_block_countUsable [OF p(2)] by blast
  moreover have "Prefix_Bits (Masked pfx) = Prefix_Bits pfx" by (simp add: Masked_def)
  ultimately show "validateVIPPool cidr = None"
    using p a by (simp add: validateVIPPool_def pool_cidr_def Let_def cfg_lastAddr_eq lastAddr_block [OF b] pool_block_def
        loopback_prefix_Contains4 del: IsLoopback.simps Prefix_Contains.simps)
qed

section \<open>Which source wins\<close>

lemmas settings_defs = setOpt_def setDur_def envStr_def envDur_def envAllow_def envTTL_def
  flagStr_def flagDur_def flagBool_def flagTTL_def flagMaxConns_def

text \<open>
  What a source says about a setting: the value it gives, as an option.  A variable that is empty or does not parse
  gives none.
\<close>

definition fileOf :: "cfgenv \<Rightarrow> string \<Rightarrow> (fileConfig \<Rightarrow> 'b option) \<Rightarrow> ('b \<Rightarrow> 'a option) \<Rightarrow> 'a option" where
  "fileOf env path field val =
     (if path = '''' then None
      else Option.bind (Option.bind (X_ReadFile env path) unmarshalConfig) (\<lambda>fc. Option.bind (field fc) val))"

definition envOf :: "cfgenv \<Rightarrow> string \<Rightarrow> (string \<Rightarrow> 'a option) \<Rightarrow> 'a option" where
  "envOf env name val = (if X_getenv env name = '''' then None else val (X_getenv env name))"

definition flagOf :: "string list \<Rightarrow> string \<Rightarrow> (flag_value \<Rightarrow> 'a option) \<Rightarrow> 'a option" where
  "flagOf args name val = Option.bind (map_of (fst (parseFlags flagKinds args [])) name) val"

definition allowVal :: "string \<Rightarrow> bool option" where
  "allowVal v =
     (if ToLower (TrimSpace v) \<in> {''1'', ''true'', ''yes'', ''on''} then Some True
      else if ToLower (TrimSpace v) \<in> {''0'', ''false'', ''no'', ''off''} then Some False
      else None)"

definition ttlText :: "string \<Rightarrow> u32 option" where
  "ttlText v = map_option of_nat (ParseUint v 32)"

fun strVal :: "flag_value \<Rightarrow> string option" where
  "strVal (VString v) = Some v" | "strVal _ = None"

fun durVal :: "flag_value \<Rightarrow> duration option" where
  "durVal (VDuration v) = Some v" | "durVal _ = None"

fun boolVal :: "flag_value \<Rightarrow> bool option" where
  "boolVal (VBool v) = Some v" | "boolVal _ = None"

fun ttlVal :: "flag_value \<Rightarrow> u32 option" where
  "ttlVal (VUint v) = Some (ucast v)" | "ttlVal _ = None"

fun intVal :: "flag_value \<Rightarrow> int option" where
  "intVal (VInt v) = Some v" | "intVal _ = None"

definition firstSet :: "'a option list \<Rightarrow> 'a \<Rightarrow> 'a" where
  "firstSet vs d = (case List.find (\<lambda>v. v \<noteq> None) vs of Some (Some v) \<Rightarrow> v | _ \<Rightarrow> d)"

definition pick :: "'a option \<Rightarrow> 'a \<Rightarrow> 'a" where
  "pick v d = (case v of Some x \<Rightarrow> x | None \<Rightarrow> d)"

lemma firstSet_simps [simp]:
  "firstSet [] d = d" "firstSet (Some v # vs) d = v" "firstSet (None # vs) d = firstSet vs d"
  by (simp_all add: firstSet_def)

lemma firstSet_pick: "firstSet (v # vs) d = pick v (firstSet vs d)"
  by (cases v) (simp_all add: pick_def)

text \<open>One assignment as an update that always happens, with the old value where the source gives none.\<close>

lemma pick_update:
  "(case vStateDir of None \<Rightarrow> c | Some x \<Rightarrow> c\<lparr>Cfg_StateDir := x\<rparr>) = c\<lparr>Cfg_StateDir := pick vStateDir (Cfg_StateDir c)\<rparr>"
  "(case vDockerHost of None \<Rightarrow> c | Some x \<Rightarrow> c\<lparr>Cfg_DockerHost := x\<rparr>) = c\<lparr>Cfg_DockerHost := pick vDockerHost (Cfg_DockerHost c)\<rparr>"
  "(case vVIPPool of None \<Rightarrow> c | Some x \<Rightarrow> c\<lparr>Cfg_VIPPool := x\<rparr>) = c\<lparr>Cfg_VIPPool := pick vVIPPool (Cfg_VIPPool c)\<rparr>"
  "(case vVIPLeaseGrace of None \<Rightarrow> c | Some x \<Rightarrow> c\<lparr>Cfg_VIPLeaseGrace := x\<rparr>) = c\<lparr>Cfg_VIPLeaseGrace := pick vVIPLeaseGrace (Cfg_VIPLeaseGrace c)\<rparr>"
  "(case vDNSListen of None \<Rightarrow> c | Some x \<Rightarrow> c\<lparr>Cfg_DNSListen := x\<rparr>) = c\<lparr>Cfg_DNSListen := pick vDNSListen (Cfg_DNSListen c)\<rparr>"
  "(case vDNSAllowNonLoopback of None \<Rightarrow> c | Some x \<Rightarrow> c\<lparr>Cfg_DNSAllowNonLoopback := x\<rparr>) = c\<lparr>Cfg_DNSAllowNonLoopback := pick vDNSAllowNonLoopback (Cfg_DNSAllowNonLoopback c)\<rparr>"
  "(case vDNSBaseDomain of None \<Rightarrow> c | Some x \<Rightarrow> c\<lparr>Cfg_DNSBaseDomain := x\<rparr>) = c\<lparr>Cfg_DNSBaseDomain := pick vDNSBaseDomain (Cfg_DNSBaseDomain c)\<rparr>"
  "(case vDNSDefaultInstance of None \<Rightarrow> c | Some x \<Rightarrow> c\<lparr>Cfg_DNSDefaultInstance := x\<rparr>) = c\<lparr>Cfg_DNSDefaultInstance := pick vDNSDefaultInstance (Cfg_DNSDefaultInstance c)\<rparr>"
  "(case vDNSTTL of None \<Rightarrow> c | Some x \<Rightarrow> c\<lparr>Cfg_DNSTTL := x\<rparr>) = c\<lparr>Cfg_DNSTTL := pick vDNSTTL (Cfg_DNSTTL c)\<rparr>"
  "(case vReconcileInterval of None \<Rightarrow> c | Some x \<Rightarrow> c\<lparr>Cfg_ReconcileInterval := x\<rparr>) = c\<lparr>Cfg_ReconcileInterval := pick vReconcileInterval (Cfg_ReconcileInterval c)\<rparr>"
  "(case vReconcileDebounce of None \<Rightarrow> c | Some x \<Rightarrow> c\<lparr>Cfg_ReconcileDebounce := x\<rparr>) = c\<lparr>Cfg_ReconcileDebounce := pick vReconcileDebounce (Cfg_ReconcileDebounce c)\<rparr>"
  "(case vProxyDialTimeout of None \<Rightarrow> c | Some x \<Rightarrow> c\<lparr>Cfg_ProxyDialTimeout := x\<rparr>) = c\<lparr>Cfg_ProxyDialTimeout := pick vProxyDialTimeout (Cfg_ProxyDialTimeout c)\<rparr>"
  "(case vProxyIdleTimeout of None \<Rightarrow> c | Some x \<Rightarrow> c\<lparr>Cfg_ProxyIdleTimeout := x\<rparr>) = c\<lparr>Cfg_ProxyIdleTimeout := pick vProxyIdleTimeout (Cfg_ProxyIdleTimeout c)\<rparr>"
  "(case vProxyShutdownTimeout of None \<Rightarrow> c | Some x \<Rightarrow> c\<lparr>Cfg_ProxyShutdownTimeout := x\<rparr>) = c\<lparr>Cfg_ProxyShutdownTimeout := pick vProxyShutdownTimeout (Cfg_ProxyShutdownTimeout c)\<rparr>"
  "(case vProxyMaxConns of None \<Rightarrow> c | Some x \<Rightarrow> c\<lparr>Cfg_ProxyMaxConns := x\<rparr>) = c\<lparr>Cfg_ProxyMaxConns := pick vProxyMaxConns (Cfg_ProxyMaxConns c)\<rparr>"
  "(case vLogLevel of None \<Rightarrow> c | Some x \<Rightarrow> c\<lparr>Cfg_LogLevel := x\<rparr>) = c\<lparr>Cfg_LogLevel := pick vLogLevel (Cfg_LogLevel c)\<rparr>"
  "(case vStateResetOnCorrupt of None \<Rightarrow> c | Some x \<Rightarrow> c\<lparr>Cfg_StateResetOnCorrupt := x\<rparr>) = c\<lparr>Cfg_StateResetOnCorrupt := pick vStateResetOnCorrupt (Cfg_StateResetOnCorrupt c)\<rparr>"
  "(case vVIPAutoAlias of None \<Rightarrow> c | Some x \<Rightarrow> c\<lparr>Cfg_VIPAutoAlias := x\<rparr>) = c\<lparr>Cfg_VIPAutoAlias := pick vVIPAutoAlias (Cfg_VIPAutoAlias c)\<rparr>"
  "(case vConfigPath of None \<Rightarrow> c | Some x \<Rightarrow> c\<lparr>Cfg_ConfigPath := x\<rparr>) = c\<lparr>Cfg_ConfigPath := pick vConfigPath (Cfg_ConfigPath c)\<rparr>"
  by (cases c; simp add: pick_def split: option.split)+

lemma applySettings_Cons_Inr:
  "applySettings (f # fs) c = Inr c' \<longleftrightarrow> (\<exists>c1. f c = Inr c1 \<and> applySettings fs c1 = Inr c')"
  by (auto split: sum.splits)

lemma setOpt_Inr: "setOpt v upd c = Inr c' \<longleftrightarrow> c' = (case v of None \<Rightarrow> c | Some x \<Rightarrow> upd x c)"
  by (auto simp: setOpt_def)

lemma setDur_Inr:
  "setDur name v upd c = Inr c' \<longleftrightarrow>
     (v \<noteq> None \<longrightarrow> Option.bind v ParseDuration \<noteq> None) \<and> c' = (case Option.bind v ParseDuration of None \<Rightarrow> c | Some d \<Rightarrow> upd d c)"
  by (auto simp: setDur_def split: option.splits)

lemma bind_Some_id: "Option.bind v Some = v"
  by (cases v) simp_all

lemma fileSettings_record:
  assumes "applySettings (fileSettings fc) c = Inr c'"
  shows "c' = c\<lparr>Cfg_StateDir := pick (Option.bind (FC_StateDir fc) Some) (Cfg_StateDir c),
       Cfg_DockerHost := pick (Option.bind (FC_DockerHost fc) Some) (Cfg_DockerHost c),
       Cfg_VIPPool := pick (Option.bind (FC_VIPPool fc) Some) (Cfg_VIPPool c),
       Cfg_VIPLeaseGrace := pick (Option.bind (FC_VIPLeaseGrace fc) ParseDuration) (Cfg_VIPLeaseGrace c),
       Cfg_DNSListen := pick (Option.bind (FC_DNSListen fc) Some) (Cfg_DNSListen c),
       Cfg_DNSAllowNonLoopback := pick (Option.bind (FC_DNSAllowNonLoopback fc) Some) (Cfg_DNSAllowNonLoopback c),
       Cfg_DNSBaseDomain := pick (Option.bind (FC_DNSBaseDomain fc) Some) (Cfg_DNSBaseDomain c),
       Cfg_DNSDefaultInstance := pick (Option.bind (FC_DNSDefaultInstance fc) Some) (Cfg_DNSDefaultInstance c),
       Cfg_DNSTTL := pick (Option.bind (FC_DNSTTL fc) Some) (Cfg_DNSTTL c),
       Cfg_ReconcileInterval := pick (Option.bind (FC_ReconcileInterval fc) ParseDuration) (Cfg_ReconcileInterval c),
       Cfg_ReconcileDebounce := pick (Option.bind (FC_ReconcileDebounce fc) ParseDuration) (Cfg_ReconcileDebounce c),
       Cfg_ProxyDialTimeout := pick (Option.bind (FC_ProxyDialTimeout fc) ParseDuration) (Cfg_ProxyDialTimeout c),
       Cfg_ProxyIdleTimeout := pick (Option.bind (FC_ProxyIdleTimeout fc) ParseDuration) (Cfg_ProxyIdleTimeout c),
       Cfg_ProxyShutdownTimeout := pick (Option.bind (FC_ProxyShutdownTimeout fc) ParseDuration) (Cfg_ProxyShutdownTimeout c),
       Cfg_ProxyMaxConns := pick (Option.bind (FC_ProxyMaxConns fc) Some) (Cfg_ProxyMaxConns c),
       Cfg_LogLevel := pick (Option.bind (FC_LogLevel fc) Some) (Cfg_LogLevel c),
       Cfg_StateResetOnCorrupt := pick (Option.bind (FC_StateResetOnCorrupt fc) Some) (Cfg_StateResetOnCorrupt c),
       Cfg_VIPAutoAlias := pick (Option.bind (FC_VIPAutoAlias fc) Some) (Cfg_VIPAutoAlias c)\<rparr>"
  using assms
  by (simp add: fileSettings_def applySettings_Cons_Inr setOpt_Inr setDur_Inr pick_update bind_Some_id del: applySettings.simps(2))

lemma env_assignment:
  "envStr env n upd c = (case envOf env n Some of None \<Rightarrow> c | Some x \<Rightarrow> upd x c)"
  "envDur env n updd c = (case envOf env n ParseDuration of None \<Rightarrow> c | Some x \<Rightarrow> updd x c)"
  "envStr env n envAllow c = (case envOf env n allowVal of None \<Rightarrow> c | Some x \<Rightarrow> c\<lparr>Cfg_DNSAllowNonLoopback := x\<rparr>)"
  "envStr env n envTTL c = (case envOf env n ttlText of None \<Rightarrow> c | Some x \<Rightarrow> c\<lparr>Cfg_DNSTTL := x\<rparr>)"
  by (simp_all add: settings_defs envOf_def allowVal_def ttlText_def Let_def split: option.splits)

lemma env_update:
  "envStr env n (\<lambda>v c. c\<lparr>Cfg_StateDir := v\<rparr>) c = c\<lparr>Cfg_StateDir := pick (envOf env n Some) (Cfg_StateDir c)\<rparr>"
  "envStr env n (\<lambda>v c. c\<lparr>Cfg_DockerHost := v\<rparr>) c = c\<lparr>Cfg_DockerHost := pick (envOf env n Some) (Cfg_DockerHost c)\<rparr>"
  "envStr env n (\<lambda>v c. c\<lparr>Cfg_VIPPool := v\<rparr>) c = c\<lparr>Cfg_VIPPool := pick (envOf env n Some) (Cfg_VIPPool c)\<rparr>"
  "envStr env n (\<lambda>v c. c\<lparr>Cfg_DNSListen := v\<rparr>) c = c\<lparr>Cfg_DNSListen := pick (envOf env n Some) (Cfg_DNSListen c)\<rparr>"
  "envStr env n (\<lambda>v c. c\<lparr>Cfg_DNSBaseDomain := v\<rparr>) c = c\<lparr>Cfg_DNSBaseDomain := pick (envOf env n Some) (Cfg_DNSBaseDomain c)\<rparr>"
  "envStr env n (\<lambda>v c. c\<lparr>Cfg_DNSDefaultInstance := v\<rparr>) c = c\<lparr>Cfg_DNSDefaultInstance := pick (envOf env n Some) (Cfg_DNSDefaultInstance c)\<rparr>"
  "envStr env n (\<lambda>v c. c\<lparr>Cfg_LogLevel := v\<rparr>) c = c\<lparr>Cfg_LogLevel := pick (envOf env n Some) (Cfg_LogLevel c)\<rparr>"
  "envDur env n (\<lambda>v c. c\<lparr>Cfg_VIPLeaseGrace := v\<rparr>) c = c\<lparr>Cfg_VIPLeaseGrace := pick (envOf env n ParseDuration) (Cfg_VIPLeaseGrace c)\<rparr>"
  "envDur env n (\<lambda>v c. c\<lparr>Cfg_ReconcileInterval := v\<rparr>) c = c\<lparr>Cfg_ReconcileInterval := pick (envOf env n ParseDuration) (Cfg_ReconcileInterval c)\<rparr>"
  "envDur env n (\<lambda>v c. c\<lparr>Cfg_ReconcileDebounce := v\<rparr>) c = c\<lparr>Cfg_ReconcileDebounce := pick (envOf env n ParseDuration) (Cfg_ReconcileDebounce c)\<rparr>"
  "envStr env n envAllow c = c\<lparr>Cfg_DNSAllowNonLoopback := pick (envOf env n allowVal) (Cfg_DNSAllowNonLoopback c)\<rparr>"
  "envStr env n envTTL c = c\<lparr>Cfg_DNSTTL := pick (envOf env n ttlText) (Cfg_DNSTTL c)\<rparr>"
  by (simp_all add: env_assignment(3,4)) (simp_all add: env_assignment(1,2) pick_update)

lemma applyEnv_record:
  "applyEnv env c = c\<lparr>Cfg_StateDir := pick (envOf env ''STACKLANE_STATE_DIR'' Some) (Cfg_StateDir c),
       Cfg_DockerHost := pick (envOf env ''DOCKER_HOST'' Some) (Cfg_DockerHost c),
       Cfg_VIPPool := pick (envOf env ''STACKLANE_VIP_POOL'' Some) (Cfg_VIPPool c),
       Cfg_VIPLeaseGrace := pick (envOf env ''STACKLANE_VIP_LEASE_GRACE'' ParseDuration) (Cfg_VIPLeaseGrace c),
       Cfg_DNSListen := pick (envOf env ''STACKLANE_DNS_LISTEN'' Some) (Cfg_DNSListen c),
       Cfg_DNSAllowNonLoopback := pick (envOf env ''STACKLANE_DNS_ALLOW_NON_LOOPBACK'' allowVal) (Cfg_DNSAllowNonLoopback c),
       Cfg_DNSBaseDomain := pick (envOf env ''STACKLANE_DNS_BASE_DOMAIN'' Some) (Cfg_DNSBaseDomain c),
       Cfg_DNSDefaultInstance := pick (envOf env ''STACKLANE_DNS_DEFAULT_INSTANCE'' Some) (Cfg_DNSDefaultInstance c),
       Cfg_DNSTTL := pick (envOf env ''STACKLANE_DNS_TTL'' ttlText) (Cfg_DNSTTL c),
       Cfg_ReconcileInterval := pick (envOf env ''STACKLANE_RECONCILE_INTERVAL'' ParseDuration) (Cfg_ReconcileInterval c),
       Cfg_ReconcileDebounce := pick (envOf env ''STACKLANE_RECONCILE_DEBOUNCE'' ParseDuration) (Cfg_ReconcileDebounce c),
       Cfg_LogLevel := pick (envOf env ''STACKLANE_LOG_LEVEL'' Some) (Cfg_LogLevel c)\<rparr>"
  by (simp add: applyEnv_def envSettings_def env_update)

lemma flag_assignment:
  "flagStr m n upd c = (case Option.bind (map_of m n) strVal of None \<Rightarrow> c | Some x \<Rightarrow> upd x c)"
  "flagDur m n updd c = (case Option.bind (map_of m n) durVal of None \<Rightarrow> c | Some x \<Rightarrow> updd x c)"
  "flagBool m n updb c = (case Option.bind (map_of m n) boolVal of None \<Rightarrow> c | Some x \<Rightarrow> updb x c)"
  "flagTTL m c = (case Option.bind (map_of m ''dns-ttl'') ttlVal of None \<Rightarrow> c | Some x \<Rightarrow> c\<lparr>Cfg_DNSTTL := x\<rparr>)"
  "flagMaxConns m c = (case Option.bind (map_of m ''proxy-max-conns'') intVal of None \<Rightarrow> c | Some x \<Rightarrow> c\<lparr>Cfg_ProxyMaxConns := x\<rparr>)"
  by (simp_all add: settings_defs split: option.split flag_value.split)

lemma flag_update:
  "flagStr m n (\<lambda>v c. c\<lparr>Cfg_StateDir := v\<rparr>) c = c\<lparr>Cfg_StateDir := pick (Option.bind (map_of m n) strVal) (Cfg_StateDir c)\<rparr>"
  "flagStr m n (\<lambda>v c. c\<lparr>Cfg_DockerHost := v\<rparr>) c = c\<lparr>Cfg_DockerHost := pick (Option.bind (map_of m n) strVal) (Cfg_DockerHost c)\<rparr>"
  "flagStr m n (\<lambda>v c. c\<lparr>Cfg_VIPPool := v\<rparr>) c = c\<lparr>Cfg_VIPPool := pick (Option.bind (map_of m n) strVal) (Cfg_VIPPool c)\<rparr>"
  "flagDur m n (\<lambda>v c. c\<lparr>Cfg_VIPLeaseGrace := v\<rparr>) c = c\<lparr>Cfg_VIPLeaseGrace := pick (Option.bind (map_of m n) durVal) (Cfg_VIPLeaseGrace c)\<rparr>"
  "flagStr m n (\<lambda>v c. c\<lparr>Cfg_DNSListen := v\<rparr>) c = c\<lparr>Cfg_DNSListen := pick (Option.bind (map_of m n) strVal) (Cfg_DNSListen c)\<rparr>"
  "flagBool m n (\<lambda>v c. c\<lparr>Cfg_DNSAllowNonLoopback := v\<rparr>) c = c\<lparr>Cfg_DNSAllowNonLoopback := pick (Option.bind (map_of m n) boolVal) (Cfg_DNSAllowNonLoopback c)\<rparr>"
  "flagStr m n (\<lambda>v c. c\<lparr>Cfg_DNSBaseDomain := v\<rparr>) c = c\<lparr>Cfg_DNSBaseDomain := pick (Option.bind (map_of m n) strVal) (Cfg_DNSBaseDomain c)\<rparr>"
  "flagStr m n (\<lambda>v c. c\<lparr>Cfg_DNSDefaultInstance := v\<rparr>) c = c\<lparr>Cfg_DNSDefaultInstance := pick (Option.bind (map_of m n) strVal) (Cfg_DNSDefaultInstance c)\<rparr>"
  "flagDur m n (\<lambda>v c. c\<lparr>Cfg_ReconcileInterval := v\<rparr>) c = c\<lparr>Cfg_ReconcileInterval := pick (Option.bind (map_of m n) durVal) (Cfg_ReconcileInterval c)\<rparr>"
  "flagDur m n (\<lambda>v c. c\<lparr>Cfg_ReconcileDebounce := v\<rparr>) c = c\<lparr>Cfg_ReconcileDebounce := pick (Option.bind (map_of m n) durVal) (Cfg_ReconcileDebounce c)\<rparr>"
  "flagDur m n (\<lambda>v c. c\<lparr>Cfg_ProxyDialTimeout := v\<rparr>) c = c\<lparr>Cfg_ProxyDialTimeout := pick (Option.bind (map_of m n) durVal) (Cfg_ProxyDialTimeout c)\<rparr>"
  "flagDur m n (\<lambda>v c. c\<lparr>Cfg_ProxyIdleTimeout := v\<rparr>) c = c\<lparr>Cfg_ProxyIdleTimeout := pick (Option.bind (map_of m n) durVal) (Cfg_ProxyIdleTimeout c)\<rparr>"
  "flagDur m n (\<lambda>v c. c\<lparr>Cfg_ProxyShutdownTimeout := v\<rparr>) c = c\<lparr>Cfg_ProxyShutdownTimeout := pick (Option.bind (map_of m n) durVal) (Cfg_ProxyShutdownTimeout c)\<rparr>"
  "flagStr m n (\<lambda>v c. c\<lparr>Cfg_LogLevel := v\<rparr>) c = c\<lparr>Cfg_LogLevel := pick (Option.bind (map_of m n) strVal) (Cfg_LogLevel c)\<rparr>"
  "flagBool m n (\<lambda>v c. c\<lparr>Cfg_StateResetOnCorrupt := v\<rparr>) c = c\<lparr>Cfg_StateResetOnCorrupt := pick (Option.bind (map_of m n) boolVal) (Cfg_StateResetOnCorrupt c)\<rparr>"
  "flagBool m n (\<lambda>v c. c\<lparr>Cfg_VIPAutoAlias := v\<rparr>) c = c\<lparr>Cfg_VIPAutoAlias := pick (Option.bind (map_of m n) boolVal) (Cfg_VIPAutoAlias c)\<rparr>"
  "flagStr m n (\<lambda>v c. c\<lparr>Cfg_ConfigPath := v\<rparr>) c = c\<lparr>Cfg_ConfigPath := pick (Option.bind (map_of m n) strVal) (Cfg_ConfigPath c)\<rparr>"
  "flagTTL m c = c\<lparr>Cfg_DNSTTL := pick (Option.bind (map_of m ''dns-ttl'') ttlVal) (Cfg_DNSTTL c)\<rparr>"
  "flagMaxConns m c = c\<lparr>Cfg_ProxyMaxConns := pick (Option.bind (map_of m ''proxy-max-conns'') intVal) (Cfg_ProxyMaxConns c)\<rparr>"
  by (simp_all add: flag_assignment pick_update)

lemma flagSettings_record:
  "fold (\<lambda>f c. f c) (flagSettings m) c = c\<lparr>Cfg_StateDir := pick (Option.bind (map_of m ''state-dir'') strVal) (Cfg_StateDir c),
       Cfg_ConfigPath := pick (Option.bind (map_of m ''config'') strVal) (Cfg_ConfigPath c),
       Cfg_DockerHost := pick (Option.bind (map_of m ''docker-host'') strVal) (Cfg_DockerHost c),
       Cfg_VIPPool := pick (Option.bind (map_of m ''vip-pool'') strVal) (Cfg_VIPPool c),
       Cfg_VIPLeaseGrace := pick (Option.bind (map_of m ''vip-lease-grace'') durVal) (Cfg_VIPLeaseGrace c),
       Cfg_DNSListen := pick (Option.bind (map_of m ''dns-listen'') strVal) (Cfg_DNSListen c),
       Cfg_DNSAllowNonLoopback := pick (Option.bind (map_of m ''dns-allow-non-loopback'') boolVal) (Cfg_DNSAllowNonLoopback c),
       Cfg_DNSBaseDomain := pick (Option.bind (map_of m ''dns-base-domain'') strVal) (Cfg_DNSBaseDomain c),
       Cfg_DNSDefaultInstance := pick (Option.bind (map_of m ''dns-default-instance'') strVal) (Cfg_DNSDefaultInstance c),
       Cfg_DNSTTL := pick (Option.bind (map_of m ''dns-ttl'') ttlVal) (Cfg_DNSTTL c),
       Cfg_ReconcileInterval := pick (Option.bind (map_of m ''reconcile-interval'') durVal) (Cfg_ReconcileInterval c),
       Cfg_ReconcileDebounce := pick (Option.bind (map_of m ''reconcile-debounce'') durVal) (Cfg_ReconcileDebounce c),
       Cfg_ProxyDialTimeout := pick (Option.bind (map_of m ''proxy-dial-timeout'') durVal) (Cfg_ProxyDialTimeout c),
       Cfg_ProxyIdleTimeout := pick (Option.bind (map_of m ''proxy-idle-timeout'') durVal) (Cfg_ProxyIdleTimeout c),
       Cfg_ProxyShutdownTimeout := pick (Option.bind (map_of m ''proxy-shutdown-timeout'') durVal) (Cfg_ProxyShutdownTimeout c),
       Cfg_ProxyMaxConns := pick (Option.bind (map_of m ''proxy-max-conns'') intVal) (Cfg_ProxyMaxConns c),
       Cfg_LogLevel := pick (Option.bind (map_of m ''log-level'') strVal) (Cfg_LogLevel c),
       Cfg_StateResetOnCorrupt := pick (Option.bind (map_of m ''state-reset-on-corrupt'') boolVal) (Cfg_StateResetOnCorrupt c),
       Cfg_VIPAutoAlias := pick (Option.bind (map_of m ''vip-auto-alias'') boolVal) (Cfg_VIPAutoAlias c)\<rparr>"
  by (simp add: flagSettings_def flag_update)

lemma Config_Load_cases:
  assumes "Config_Load env args = Inr cfg"
  obtains cfg1 where
    "(if discoverConfig env args = '''' then Inr ((Defaults env)\<lparr>Cfg_ConfigPath := discoverConfig env args\<rparr>)
      else applyFile env ((Defaults env)\<lparr>Cfg_ConfigPath := discoverConfig env args\<rparr>) (discoverConfig env args)) = Inr cfg1"
    "cfg = expandHome env (fold (\<lambda>f c. f c) (flagSettings (fst (parseFlags flagKinds args []))) (applyEnv env cfg1))"
    "Config_Validate env cfg = None"
proof -
  from assms obtain cfg1 cfg2 where
    "(if discoverConfig env args = '''' then Inr ((Defaults env)\<lparr>Cfg_ConfigPath := discoverConfig env args\<rparr>)
      else applyFile env ((Defaults env)\<lparr>Cfg_ConfigPath := discoverConfig env args\<rparr>) (discoverConfig env args)) = Inr cfg1"
    "applyFlags (applyEnv env cfg1) args = Inr cfg2" "Config_Validate env (expandHome env cfg2) = None" "cfg = expandHome env cfg2"
    by (auto simp: Config_Load_def Let_def split: sum.splits option.splits if_splits)
  moreover from this(2) have "cfg2 = fold (\<lambda>f c. f c) (flagSettings (fst (parseFlags flagKinds args []))) (applyEnv env cfg1)"
    by (auto simp: applyFlags_def split: prod.splits if_splits)
  ultimately show thesis using that by blast
qed

lemma applyFile_record:
  assumes "(if path = '''' then Inr c else applyFile env c path) = Inr c'"
  shows "c' = c\<lparr>Cfg_StateDir := pick (fileOf env path FC_StateDir Some) (Cfg_StateDir c),
       Cfg_DockerHost := pick (fileOf env path FC_DockerHost Some) (Cfg_DockerHost c),
       Cfg_VIPPool := pick (fileOf env path FC_VIPPool Some) (Cfg_VIPPool c),
       Cfg_VIPLeaseGrace := pick (fileOf env path FC_VIPLeaseGrace ParseDuration) (Cfg_VIPLeaseGrace c),
       Cfg_DNSListen := pick (fileOf env path FC_DNSListen Some) (Cfg_DNSListen c),
       Cfg_DNSAllowNonLoopback := pick (fileOf env path FC_DNSAllowNonLoopback Some) (Cfg_DNSAllowNonLoopback c),
       Cfg_DNSBaseDomain := pick (fileOf env path FC_DNSBaseDomain Some) (Cfg_DNSBaseDomain c),
       Cfg_DNSDefaultInstance := pick (fileOf env path FC_DNSDefaultInstance Some) (Cfg_DNSDefaultInstance c),
       Cfg_DNSTTL := pick (fileOf env path FC_DNSTTL Some) (Cfg_DNSTTL c),
       Cfg_ReconcileInterval := pick (fileOf env path FC_ReconcileInterval ParseDuration) (Cfg_ReconcileInterval c),
       Cfg_ReconcileDebounce := pick (fileOf env path FC_ReconcileDebounce ParseDuration) (Cfg_ReconcileDebounce c),
       Cfg_ProxyDialTimeout := pick (fileOf env path FC_ProxyDialTimeout ParseDuration) (Cfg_ProxyDialTimeout c),
       Cfg_ProxyIdleTimeout := pick (fileOf env path FC_ProxyIdleTimeout ParseDuration) (Cfg_ProxyIdleTimeout c),
       Cfg_ProxyShutdownTimeout := pick (fileOf env path FC_ProxyShutdownTimeout ParseDuration) (Cfg_ProxyShutdownTimeout c),
       Cfg_ProxyMaxConns := pick (fileOf env path FC_ProxyMaxConns Some) (Cfg_ProxyMaxConns c),
       Cfg_LogLevel := pick (fileOf env path FC_LogLevel Some) (Cfg_LogLevel c),
       Cfg_StateResetOnCorrupt := pick (fileOf env path FC_StateResetOnCorrupt Some) (Cfg_StateResetOnCorrupt c),
       Cfg_VIPAutoAlias := pick (fileOf env path FC_VIPAutoAlias Some) (Cfg_VIPAutoAlias c)\<rparr>"
proof (cases "path = ''''")
  case True
  then show ?thesis using assms by (cases c) (simp add: fileOf_def pick_def)
next
  case False
  with assms obtain data fc where d: "X_ReadFile env path = Some data" "unmarshalConfig data = Some fc"
    "applySettings (fileSettings fc) c = Inr c'"
    by (auto simp: applyFile_def split: option.splits)
  have f: "fileOf env path field val = Option.bind (field fc) val" for field val using False d(1,2) by (simp add: fileOf_def)
  show ?thesis unfolding f by (rule fileSettings_record [OF d(3)])
qed

section \<open>What a validated configuration guarantees\<close>

lemma Config_Validate_None_iff:
  "Config_Validate env c = None \<longleftrightarrow>
     Cfg_StateDir c \<noteq> '''' \<and> (\<exists>pfx. pool_cidr (Cfg_VIPPool c) pfx) \<and> 0 < Cfg_VIPLeaseGrace c \<and> Cfg_DNSListen c \<noteq> ''''
     \<and> (\<exists>ip. X_ResolveUDPAddr env (Cfg_DNSListen c) = Some (Some ip)
          \<and> (Cfg_DNSAllowNonLoopback c \<or> IsLoopback (Unmap ip) \<and> \<not> IsUnspecified (Unmap ip)))
     \<and> TrimSpace (Cfg_DNSBaseDomain c) \<noteq> ''''
     \<and> CHR ''.'' \<notin> set (Cfg_DNSDefaultInstance c) \<and> CHR ''/'' \<notin> set (Cfg_DNSDefaultInstance c)
     \<and> Cfg_DNSTTL c \<noteq> 0 \<and> 0 < Cfg_ReconcileInterval c \<and> 0 \<le> Cfg_ReconcileDebounce c \<and> 0 < Cfg_ProxyDialTimeout c
     \<and> 0 < Cfg_ProxyIdleTimeout c \<and> 0 < Cfg_ProxyShutdownTimeout c \<and> 0 < Cfg_ProxyMaxConns c \<and> Cfg_LogLevel c \<noteq> ''''
     \<and> \<not> Cfg_VIPAutoAlias c"
proof -
  have v: "(case validateVIPPool p of Some e \<Rightarrow> Some (CfgVIPPool e) | None \<Rightarrow> r) = None \<longleftrightarrow> (\<exists>pfx. pool_cidr p pfx) \<and> r = None" for p r
    using validateVIPPool_None_iff [of p] by (auto split: option.splits)
  have h: "(case X_ResolveUDPAddr env l of None \<Rightarrow> Some CfgDNSListenResolve
       | Some ip \<Rightarrow> (case validateDNSListenHost ip allow of Some e \<Rightarrow> Some e | None \<Rightarrow> r)) = None \<longleftrightarrow>
     (\<exists>ip. X_ResolveUDPAddr env l = Some (Some ip) \<and> (allow \<or> IsLoopback (Unmap ip) \<and> \<not> IsUnspecified (Unmap ip))) \<and> r = None" for l allow r
    by (auto simp: validateDNSListenHost_def split: option.splits if_splits)
  have i: "(if a then Some e else r) = None \<longleftrightarrow> \<not> a \<and> r = None" for a e and r :: "config_error option" by simp
  show ?thesis unfolding Config_Validate_def v h i by (auto simp: not_le not_less)
qed

lemma Cfg_DNSTTL_keeps [simp]: "Cfg_DNSTTL (expandHome env c) = Cfg_DNSTTL c"
  by (simp add: expandHome_def split: option.splits)

lemma flagSettings_TTL:
  "Cfg_DNSTTL (fold (\<lambda>f c. f c) (flagSettings m) c) = pick (Option.bind (map_of m ''dns-ttl'') ttlVal) (Cfg_DNSTTL c)"
  by (simp add: flagSettings_record)

section \<open>An example environment\<close>

definition example_env :: cfgenv where
  "example_env =
     \<lparr>X_UserHomeDir = Some ''/home/dev'', X_getenv = (\<lambda>n. if n = ''STACKLANE_DNS_BASE_DOMAIN'' then ''lane.test'' else ''''),
      X_ReadFile = (\<lambda>_. None),
      X_ResolveUDPAddr = (\<lambda>s. case SplitHostPort s of None \<Rightarrow> None | Some (h, _) \<Rightarrow> map_option Some (ParseAddr h))\<rparr>"

definition example_args :: "string list" where
  "example_args = [''--vip-pool'', ''127.77.0.13/29'', ''-dns-ttl=4294967301'', ''--reconcile-debounce'', ''20s'']"

lemma fractionNanos_Nil: "fractionNanos [] unit = 0"
  by (simp add: fractionNanos_def case_prod_unfold)

lemma twenty_seconds: "ParseDuration ''20s'' = Some (20 * second)"
  by (simp add: ParseDuration_def durationUnits.simps fractionNanos_Nil is_unit_char_def is_digit_def undec_def digit_val_def unitMap_def)

lemma example_flags:
  "parseFlags flagKinds example_args [] =
     ([(''vip-pool'', VString ''127.77.0.13/29''), (''dns-ttl'', VUint 4294967301), (''reconcile-debounce'', VDuration (20 * second))], True)"
proof -
  have "flagValue KString v = Some (VString v)" for v by (simp add: flagValue_def)
  moreover have "flagValue KUint ''4294967301'' = Some (VUint 4294967301)" by code_simp
  moreover have "flagValue KDuration ''20s'' = Some (VDuration (20 * second))" by (simp add: flagValue_def twenty_seconds)
  moreover have "flagKinds ''vip-pool'' = Some KString" "flagKinds ''dns-ttl'' = Some KUint" "flagKinds ''reconcile-debounce'' = Some KDuration"
    by (simp_all add: flagKinds_def)
  moreover have "cutEq ''vip-pool'' = (''vip-pool'', None)" "cutEq ''dns-ttl=4294967301'' = (''dns-ttl'', Some ''4294967301'')"
    "cutEq ''reconcile-debounce'' = (''reconcile-debounce'', None)" by code_simp+
  ultimately show ?thesis by (simp add: example_args_def)
qed

definition example_config :: Config where
  "example_config =
     \<lparr>Cfg_StateDir = ''/home/dev/.stacklane'', Cfg_DockerHost = '''', Cfg_VIPPool = ''127.77.0.13/29'', Cfg_VIPLeaseGrace = 24 * 3600 * second,
      Cfg_DNSListen = ''127.0.0.1:5353'', Cfg_DNSAllowNonLoopback = False, Cfg_DNSBaseDomain = ''lane.test'',
      Cfg_DNSDefaultInstance = '''', Cfg_DNSTTL = 5, Cfg_ReconcileInterval = 15 * second,
      Cfg_ReconcileDebounce = 20 * second, Cfg_ProxyDialTimeout = 3 * second, Cfg_ProxyIdleTimeout = 300 * second,
      Cfg_ProxyShutdownTimeout = 5 * second, Cfg_ProxyMaxConns = 1024, Cfg_LogLevel = ''info'',
      Cfg_StateResetOnCorrupt = False, Cfg_VIPAutoAlias = False, Cfg_ConfigPath = ''''\<rparr>"

lemma example_config_valid: "Config_Validate example_env example_config = None"
proof -
  have "validateVIPPool ''127.77.0.13/29'' = None" using ParsePool_Inr [OF ParsePool_example] by (simp add: validateVIPPool_None_iff)
  moreover have "SplitHostPort ''127.0.0.1:5353'' = Some (''127.0.0.1'', ''5353'')" by code_simp
  moreover have "ParseAddr ''127.0.0.1'' = Some (Addr4 0x7F000001)" by code_simp
  ultimately have "X_ResolveUDPAddr example_env ''127.0.0.1:5353'' = Some (Some (Addr4 0x7F000001))"
    "validateVIPPool ''127.77.0.13/29'' = None" by (simp_all add: example_env_def)
  moreover have "IsLoopback (Unmap (Addr4 0x7F000001)) \<and> \<not> IsUnspecified (Unmap (Addr4 0x7F000001))" by (simp add: byte_at_def)
  moreover have "TrimSpace ''lane.test'' \<noteq> ''''" by (simp add: TrimSpace_def is_space_def)
  ultimately show ?thesis
    unfolding Config_Validate_None_iff validateVIPPool_None_iff by (simp add: example_config_def del: Unmap.simps)
qed

lemma example_Load: "Config_Load example_env example_args = Inr example_config"
proof -
  have d: "discoverConfig example_env example_args = ''''" by code_simp
  have "applyEnv example_env c = c\<lparr>Cfg_DNSBaseDomain := ''lane.test''\<rparr>" for c
    by (simp add: applyEnv_def envSettings_def settings_defs example_env_def Let_def)
  moreover have "joinPath ''/home/dev'' ''.stacklane'' = ''/home/dev/.stacklane''" by code_simp
  then have "Defaults example_env = example_config\<lparr>Cfg_VIPPool := ''127.77.0.0/16'', Cfg_DNSBaseDomain := ''stacklane.test'', Cfg_ReconcileDebounce := 250000000\<rparr>"
    by (simp add: Defaults_def example_config_def example_env_def)
  moreover have "ucast (4294967301 :: 64 word) = (5 :: u32)" by simp
  ultimately have "applyFlags (applyEnv example_env ((Defaults example_env)\<lparr>Cfg_ConfigPath := ''''\<rparr>)) example_args = Inr example_config"
    by (simp add: applyFlags_def example_flags flagSettings_def settings_defs) (simp add: example_config_def)
  moreover have "expandHome example_env example_config = example_config" by (simp add: expandHome_def example_config_def)
  ultimately show ?thesis
    using example_config_valid by (simp add: Config_Load_def d)
qed

section \<open>Properties\<close>

text \<open>
  C35 (equivalence).  The check of the VIP pool in the configuration and the parser of the pool
  accept the same CIDRs, although they count the usable addresses differently: a configuration
  that validates never fails later when the pool is built.
\<close>

theorem validateVIPPool_iff_ParsePool: "validateVIPPool cidr = None \<longleftrightarrow> (\<exists>pl. ParsePool cidr = Inr pl)"
  using validateVIPPool_None_iff ParsePool_Inr ParsePool_accepted pool_cidr_block by metis

text \<open>
  C36 (functional).  The precedence of the sources, for every setting: a flag wins over an environment
  variable that is set and parses, that over the configuration file, that over the default.  The
  timeouts and the limit of the proxy, the reset and the alias flag have no variable.  Afterwards a state directory that
  starts with a tilde is expanded.
\<close>

theorem Config_Load_precedence:
  assumes "Config_Load env args = Inr cfg" "path = discoverConfig env args"
  shows "cfg = expandHome env
    \<lparr>Cfg_StateDir = firstSet [flagOf args ''state-dir'' strVal, envOf env ''STACKLANE_STATE_DIR'' Some, fileOf env path FC_StateDir Some] (Cfg_StateDir (Defaults env)),
     Cfg_DockerHost = firstSet [flagOf args ''docker-host'' strVal, envOf env ''DOCKER_HOST'' Some, fileOf env path FC_DockerHost Some] '''',
     Cfg_VIPPool = firstSet [flagOf args ''vip-pool'' strVal, envOf env ''STACKLANE_VIP_POOL'' Some, fileOf env path FC_VIPPool Some] ''127.77.0.0/16'',
     Cfg_VIPLeaseGrace = firstSet [flagOf args ''vip-lease-grace'' durVal, envOf env ''STACKLANE_VIP_LEASE_GRACE'' ParseDuration, fileOf env path FC_VIPLeaseGrace ParseDuration] (24 * 3600 * second),
     Cfg_DNSListen = firstSet [flagOf args ''dns-listen'' strVal, envOf env ''STACKLANE_DNS_LISTEN'' Some, fileOf env path FC_DNSListen Some] ''127.0.0.1:5353'',
     Cfg_DNSAllowNonLoopback = firstSet [flagOf args ''dns-allow-non-loopback'' boolVal, envOf env ''STACKLANE_DNS_ALLOW_NON_LOOPBACK'' allowVal, fileOf env path FC_DNSAllowNonLoopback Some] False,
     Cfg_DNSBaseDomain = firstSet [flagOf args ''dns-base-domain'' strVal, envOf env ''STACKLANE_DNS_BASE_DOMAIN'' Some, fileOf env path FC_DNSBaseDomain Some] ''stacklane.test'',
     Cfg_DNSDefaultInstance = firstSet [flagOf args ''dns-default-instance'' strVal, envOf env ''STACKLANE_DNS_DEFAULT_INSTANCE'' Some, fileOf env path FC_DNSDefaultInstance Some] '''',
     Cfg_DNSTTL = firstSet [flagOf args ''dns-ttl'' ttlVal, envOf env ''STACKLANE_DNS_TTL'' ttlText, fileOf env path FC_DNSTTL Some] 5,
     Cfg_ReconcileInterval = firstSet [flagOf args ''reconcile-interval'' durVal, envOf env ''STACKLANE_RECONCILE_INTERVAL'' ParseDuration, fileOf env path FC_ReconcileInterval ParseDuration] (15 * second),
     Cfg_ReconcileDebounce = firstSet [flagOf args ''reconcile-debounce'' durVal, envOf env ''STACKLANE_RECONCILE_DEBOUNCE'' ParseDuration, fileOf env path FC_ReconcileDebounce ParseDuration] 250000000,
     Cfg_ProxyDialTimeout = firstSet [flagOf args ''proxy-dial-timeout'' durVal, fileOf env path FC_ProxyDialTimeout ParseDuration] (3 * second),
     Cfg_ProxyIdleTimeout = firstSet [flagOf args ''proxy-idle-timeout'' durVal, fileOf env path FC_ProxyIdleTimeout ParseDuration] (300 * second),
     Cfg_ProxyShutdownTimeout = firstSet [flagOf args ''proxy-shutdown-timeout'' durVal, fileOf env path FC_ProxyShutdownTimeout ParseDuration] (5 * second),
     Cfg_ProxyMaxConns = firstSet [flagOf args ''proxy-max-conns'' intVal, fileOf env path FC_ProxyMaxConns Some] 1024,
     Cfg_LogLevel = firstSet [flagOf args ''log-level'' strVal, envOf env ''STACKLANE_LOG_LEVEL'' Some, fileOf env path FC_LogLevel Some] ''info'',
     Cfg_StateResetOnCorrupt = firstSet [flagOf args ''state-reset-on-corrupt'' boolVal, fileOf env path FC_StateResetOnCorrupt Some] False,
     Cfg_VIPAutoAlias = firstSet [flagOf args ''vip-auto-alias'' boolVal, fileOf env path FC_VIPAutoAlias Some] False,
     Cfg_ConfigPath = firstSet [flagOf args ''config'' strVal] path\<rparr>"
  using assms(1)
proof (cases rule: Config_Load_cases)
  case (1 cfg1)
  note cf = applyFile_record [OF 1(1)]
  have vars: "applyEnv env c = c2 \<Longrightarrow> c = cfg1 \<Longrightarrow> applyEnv env cfg1 = c2" for c c2 by simp
  note env = vars [OF applyEnv_record cf [symmetric], simplified Defaults_def, simplified]
  show ?thesis
    unfolding 1(2) env flagSettings_record assms(2) flagOf_def by (simp add: firstSet_pick Defaults_def)
qed

theorem Config_Load_precedence_witness:
  "\<exists>cfg. Config_Load example_env example_args = Inr cfg \<and> Cfg_VIPPool cfg = ''127.77.0.13/29''
     \<and> Cfg_DNSListen cfg = ''127.0.0.1:5353'' \<and> Cfg_DNSBaseDomain cfg = ''lane.test'' \<and> Cfg_ReconcileDebounce cfg = 20 * second"
proof -
  have h: "Cfg_VIPPool (expandHome env c) = Cfg_VIPPool c" "Cfg_DNSListen (expandHome env c) = Cfg_DNSListen c"
    "Cfg_DNSBaseDomain (expandHome env c) = Cfg_DNSBaseDomain c" "Cfg_ReconcileDebounce (expandHome env c) = Cfg_ReconcileDebounce c" for env c
    by (simp_all add: expandHome_def split: option.splits)
  have f: "flagOf example_args ''vip-pool'' strVal = Some ''127.77.0.13/29''" "flagOf example_args ''dns-listen'' strVal = None"
    "flagOf example_args ''dns-base-domain'' strVal = None" "flagOf example_args ''reconcile-debounce'' durVal = Some (20 * second)"
    by (simp_all add: flagOf_def example_flags)
  have "envOf example_env ''STACKLANE_DNS_LISTEN'' Some = None" "envOf example_env ''STACKLANE_DNS_BASE_DOMAIN'' Some = Some ''lane.test''"
    "fileOf example_env p FC_DNSListen Some = None" for p
    by (simp_all add: envOf_def fileOf_def example_env_def)
  then show ?thesis using example_Load arg_cong [OF Config_Load_precedence [OF example_Load refl], of Cfg_VIPPool]
      arg_cong [OF Config_Load_precedence [OF example_Load refl], of Cfg_DNSListen]
      arg_cong [OF Config_Load_precedence [OF example_Load refl], of Cfg_DNSBaseDomain]
      arg_cong [OF Config_Load_precedence [OF example_Load refl], of Cfg_ReconcileDebounce]
    unfolding h Config.select_convs by (simp add: f)
qed

text \<open>
  What \<open>Load\<close> returns is fit to run: the pool can be built, the DNS address is a
  loopback IP unless the escape hatch is set, and no duration or limit that has to be positive
  is zero or negative.
\<close>

theorem Config_Load_safe:
  assumes "Config_Load env args = Inr cfg"
  shows "(\<exists>pl. ParsePool (Cfg_VIPPool cfg) = Inr pl)
    \<and> (\<exists>ip. X_ResolveUDPAddr env (Cfg_DNSListen cfg) = Some (Some ip) \<and> (Cfg_DNSAllowNonLoopback cfg \<or> IsLoopback (Unmap ip)))
    \<and> 0 < Cfg_VIPLeaseGrace cfg \<and> 0 < Cfg_ReconcileInterval cfg \<and> 0 \<le> Cfg_ReconcileDebounce cfg \<and> Cfg_DNSTTL cfg \<noteq> 0
    \<and> 0 < Cfg_ProxyDialTimeout cfg \<and> 0 < Cfg_ProxyIdleTimeout cfg \<and> 0 < Cfg_ProxyShutdownTimeout cfg \<and> 0 < Cfg_ProxyMaxConns cfg"
  using assms
proof (cases rule: Config_Load_cases)
  case (1 cfg1)
  note v = 1(3) [unfolded Config_Validate_None_iff]
  moreover have "\<exists>pl. ParsePool (Cfg_VIPPool cfg) = Inr pl" using v ParsePool_accepted pool_cidr_block by metis
  ultimately show ?thesis by blast
qed

theorem Config_Load_safe_witness:
  "\<exists>cfg pl. Config_Load example_env example_args = Inr cfg \<and> ParsePool (Cfg_VIPPool cfg) = Inr pl"
  using example_Load Config_Load_safe by blast

text \<open>
  The flag \<open>dns-ttl\<close> is a 64-bit number that is cut to its lower 32 bits: a value
  of 2 ^ 32 or more is not refused but taken modulo 2 ^ 32.
\<close>

theorem dns_ttl_truncated:
  assumes "Config_Load env args = Inr cfg"
    and "map_of (fst (parseFlags flagKinds args [])) ''dns-ttl'' = Some (VUint n)"
  shows "unat (Cfg_DNSTTL cfg) = unat n mod 2 ^ 32"
  using assms(1)
proof (cases rule: Config_Load_cases)
  case (1 cfg1)
  then have "Cfg_DNSTTL cfg = ucast n" using assms(2) by (simp add: flagSettings_TTL pick_def)
  then show ?thesis by (simp add: unsigned_ucast_eq take_bit_eq_mod)
qed

theorem dns_ttl_truncated_witness:
  "\<exists>cfg. Config_Load example_env example_args = Inr cfg \<and> unat (Cfg_DNSTTL cfg) = 5"
proof -
  note c = example_Load
  have "map_of (fst (parseFlags flagKinds example_args [])) ''dns-ttl'' = Some (VUint 4294967301)" by (simp add: example_flags)
  from dns_ttl_truncated [OF c this] c show ?thesis by auto
qed

end
