(* ===== verification/Control.thy ===== *)
theory Control
  imports Engine Configuration
begin

text \<open>
  Package \<open>internal/app\<close>, the control socket: the handlers of \<open>/status\<close> and \<open>/resolve\<close>, the JSON of their
  answers, and the commands \<open>status\<close> and \<open>resolve\<close> that ask them and print the answers.  \<open>net/url\<close>'s query
  encoding is modelled; the HTTP client is a function from a URL to a code and a body.
\<close>

section \<open>The control socket\<close>

text \<open>
  What a handler writes: an error text (\<open>http.Error\<close>) or a value that is encoded as JSON, with the
  status code.  The JSON objects of \<open>/resolve\<close> are Go maps from strings to strings.
\<close>

datatype 'a http_resp = HttpText nat string | HttpJSON nat 'a

definition StatusOK :: nat where "StatusOK = 200"
definition StatusMethodNotAllowed :: nat where "StatusMethodNotAllowed = 405"
definition StatusBadRequest :: nat where "StatusBadRequest = 400"
definition StatusNotFound :: nat where "StatusNotFound = 404"

lemmas http_codes = StatusOK_def StatusMethodNotAllowed_def StatusBadRequest_def StatusNotFound_def

record publicStatusBody =
  PS_Daemon :: string
  PS_DNSListen :: string
  PS_BaseDomain :: string
  PS_VIPPool :: string
  PS_Stacks :: "StatusStack list"

definition publicStatus :: "StatusSnapshot \<Rightarrow> publicStatusBody" where
  "publicStatus snap =
     \<lparr>PS_Daemon = St_Daemon snap, PS_DNSListen = St_DNSListen snap, PS_BaseDomain = St_BaseDomain snap,
      PS_VIPPool = St_VIPPool snap, PS_Stacks = St_Stacks snap\<rparr>"

definition statusHandler :: "Config \<Rightarrow> string \<Rightarrow> Engine \<Rightarrow> string \<Rightarrow> publicStatusBody http_resp" where
  "statusHandler cfg dnsAddr e method =
     (if method \<noteq> ''GET'' then HttpText StatusMethodNotAllowed ''method not allowed''
      else
        let snap = Engine_Snapshot e;
            snap1 = (if St_DNSListen snap = '''' then snap\<lparr>St_DNSListen := dnsAddr\<rparr> else snap);
            snap2 = (if St_VIPPool snap1 = '''' then snap1\<lparr>St_VIPPool := Cfg_VIPPool cfg\<rparr> else snap1)
        in HttpJSON StatusOK (publicStatus snap2))"

text \<open>The queries of \<open>net/url\<close>: escaping, unescaping and the first value of a key.\<close>

definition hex_upper :: "nat \<Rightarrow> char" where
  "hex_upper n = (if n < 10 then digit_char n else char_of (55 + n))"

definition unreserved :: "char \<Rightarrow> bool" where
  "unreserved c \<longleftrightarrow> (CHR ''a'' \<le> c \<and> c \<le> CHR ''z'') \<or> (CHR ''A'' \<le> c \<and> c \<le> CHR ''Z'') \<or> is_digit c
     \<or> c \<in> {CHR ''-'', CHR ''_'', CHR ''.'', CHR ''~''}"

definition escapeChar :: "char \<Rightarrow> string" where
  "escapeChar c =
     (if unreserved c then [c]
      else if c = CHR '' '' then ''+''
      else [CHR ''%'', hex_upper (of_char c div 16), hex_upper (of_char c mod 16)])"

definition queryEscape :: "string \<Rightarrow> string" where
  "queryEscape s = concat (map escapeChar s)"

fun queryUnescape :: "string \<Rightarrow> string option" where
  "queryUnescape [] = Some []"
| "queryUnescape (c # cs) =
     (if c = CHR ''%'' then
        (case cs of
           a # b # rest \<Rightarrow>
             if is_hex a \<and> is_hex b
             then map_option (\<lambda>s. char_of (hex_val a * 16 + hex_val b) # s) (queryUnescape rest) else None
         | _ \<Rightarrow> None)
      else map_option (\<lambda>s. (if c = CHR ''+'' then CHR '' '' else c) # s) (queryUnescape cs))"

definition queryPair :: "string \<Rightarrow> (string \<times> string) option" where
  "queryPair p =
     (if CHR '';'' \<in> set p \<or> p = '''' then None
      else case cutEq p of (k, v) \<Rightarrow>
        Option.bind (queryUnescape k) (\<lambda>k'. map_option (Pair k') (queryUnescape (case v of Some x \<Rightarrow> x | None \<Rightarrow> ''''))))"

definition queryGet :: "string \<Rightarrow> string \<Rightarrow> string" where
  "queryGet rawQuery key =
     (case map_of (List.map_filter queryPair (splitOn (CHR ''&'') rawQuery)) key of Some v \<Rightarrow> v | None \<Rightarrow> '''')"

definition resolveHandler :: "Engine \<Rightarrow> string \<Rightarrow> string \<Rightarrow> (string, string) gomap http_resp" where
  "resolveHandler e method rawQuery =
     (if method \<noteq> ''GET'' then HttpText StatusMethodNotAllowed ''method not allowed''
      else
        let name = queryGet rawQuery ''name'' in
        if name = '''' then HttpText StatusBadRequest ''{\"error\":\"name required\"}''
        else case ResolveVIP e name of
          None \<Rightarrow> HttpJSON StatusNotFound [(''name'', name), (''error'', ''not found'')]
        | Some vip \<Rightarrow> HttpJSON StatusOK [(''name'', name), (''vip'', vip)])"

section \<open>The JSON of the answers\<close>

text \<open>A string field that is left out when it is empty.\<close>

definition omitempty :: "string \<Rightarrow> string \<Rightarrow> (string \<times> json) list" where
  "omitempty k v = (if v = [] then [] else [(k, JStr v)])"

definition endpointJSON :: "StatusEndpoint \<Rightarrow> json" where
  "endpointJSON ep =
     JObj ([(''fqdn'', JStr (SE_FQDN ep)), (''public_port'', JNum (dec (unat (SE_PublicPort ep)))), (''target'', JStr (SE_Target ep)),
        (''container_id'', JStr (SE_ContainerID ep)), (''service'', JStr (SE_Service ep))]
       @ omitempty ''protocol'' (SE_Protocol ep) @ omitempty ''vip'' (SE_VIP ep))"

text \<open>The engine leaves the endpoints of a stack without any at nil, which is \<open>null\<close>.\<close>

definition stackJSON :: "StatusStack \<Rightarrow> json" where
  "stackJSON s =
     JObj ([(''key'', JStr (SS_Key s)), (''vip'', JStr (SS_VIP s))] @ omitempty ''lease'' (SS_Lease s)
       @ [(''endpoints'', if SS_Endpoints s = [] then JNull else JArr (map endpointJSON (SS_Endpoints s)))])"

definition statusJSON :: "publicStatusBody \<Rightarrow> json" where
  "statusJSON b =
     JObj ([(''daemon'', JStr (PS_Daemon b)), (''dns_listen'', JStr (PS_DNSListen b)), (''base_domain'', JStr (PS_BaseDomain b))]
       @ omitempty ''vip_pool'' (PS_VIPPool b) @ [(''stacks'', JArr (map stackJSON (PS_Stacks b)))])"

definition mapJSON :: "(string, string) gomap \<Rightarrow> json" where
  "mapJSON m = JObj (map (\<lambda>(k, v). (k, JStr v)) (sort_key fst m))"












record resolveResult =
  RV_Name :: string
  RV_VIP :: string

definition unmarshalResolve :: "string \<Rightarrow> resolveResult option" where
  "unmarshalResolve body =
     (case parseJSON body of
        None \<Rightarrow> None
      | Some j \<Rightarrow> decodeStruct
          [structField ''name'' RV_Name (\<lambda>y. RV_Name_update (\<lambda>_. y)) decodeString,
           structField ''vip'' RV_VIP (\<lambda>y. RV_VIP_update (\<lambda>_. y)) decodeString] j \<lparr>RV_Name = [], RV_VIP = []\<rparr>)"


section \<open>The socket\<close>

text \<open>
  The socket's two handlers behind the mux, as status code and body.  \<open>http.Error\<close> and the JSON encoder end
  their text with a newline; the status is indented.
\<close>

definition line :: "string \<Rightarrow> string" where "line s = s @ [CHR 0x0A]"

fun render :: "('a \<Rightarrow> string) \<Rightarrow> 'a http_resp \<Rightarrow> nat \<times> string" where
  "render enc (HttpText code msg) = (code, line msg)"
| "render enc (HttpJSON code v) = (code, enc v)"

definition serveControl :: "Config \<Rightarrow> string \<Rightarrow> Engine \<Rightarrow> string \<Rightarrow> string \<Rightarrow> nat \<times> string" where
  "serveControl cfg dnsAddr e method url =
     (let path = takeWhile (\<lambda>c. c \<noteq> CHR ''?'') url; rawQuery = drop (Suc (length path)) url in
      if path = ''/status'' then render (\<lambda>b. line (marshalIndentJSON (statusJSON b))) (statusHandler cfg dnsAddr e method)
      else if path = ''/resolve'' then render (\<lambda>m. line (marshalJSON (mapJSON m))) (resolveHandler e method rawQuery)
      else (StatusNotFound, line ''404 page not found''))"

section \<open>The commands\<close>

definition SockPath :: "string \<Rightarrow> string" where
  "SockPath stateDir = joinPath stateDir ''stacklane.sock''"

text \<open>
  A command's exit code, standard output and standard error.  \<open>stat\<close> says whether the socket is
  there; \<open>client\<close> is the HTTP client that dials it, for a URL an error or the code with an error or the bytes
  of reading the body; \<open>jsonErr\<close> is the text of the error for a body that cannot be decoded.
\<close>

type_synonym cmd_result = "nat \<times> string \<times> string"
type_synonym http_client = "string \<Rightarrow> string + (nat \<times> (string + string))"

definition getJSON :: "http_client \<Rightarrow> string \<Rightarrow> string + (nat \<times> string)" where
  "getJSON client path =
     (case client (''http://unix'' @ path) of
        Inl err \<Rightarrow> Inl err
      | Inr (code, body) \<Rightarrow> (case body of Inl err \<Rightarrow> Inl err | Inr b \<Rightarrow> Inr (code, b)))"

text \<open>The client of a running daemon: a request to the socket is answered by the daemon's handlers.\<close>

definition controlClient :: "Config \<Rightarrow> string \<Rightarrow> Engine \<Rightarrow> http_client" where
  "controlClient cfg dnsAddr e url = Inr (map_prod id Inr (serveControl cfg dnsAddr e ''GET'' (TrimPrefix url ''http://unix'')))"





definition app_Resolve :: "string \<Rightarrow> bool \<Rightarrow> http_client \<Rightarrow> (string \<Rightarrow> string) \<Rightarrow> string \<Rightarrow> cmd_result" where
  "app_Resolve stateDir stat client jsonErr name =
     (if stateDir = '''' then (1, '''', line ''state-dir is required'')
      else if name = '''' then (1, '''', line ''usage: stacklane resolve <name>'')
      else if \<not> stat then (1, '''', line (''daemon not running (no socket '' @ SockPath stateDir @ '')''))
      else case getJSON client (''/resolve?name='' @ queryEscape name) of
        Inl err \<Rightarrow> (1, '''', line (''resolve: '' @ err))
      | Inr (code, body) \<Rightarrow>
          if code = StatusNotFound then (1, '''', line (''not found: '' @ name))
          else if code \<noteq> StatusOK then (1, '''', line (''resolve: http '' @ dec code @ '': '' @ body))
          else case unmarshalResolve body of
            None \<Rightarrow> (1, '''', line (''resolve: decode: '' @ jsonErr body))
          | Some res \<Rightarrow> (0, line (RV_Name res @ '' -> '' @ RV_VIP res), ''''))"

section \<open>Queries\<close>

lemma hex_upper_digit: "n < 16 \<Longrightarrow> is_hex (hex_upper n) \<and> hex_val (hex_upper n) = n"
proof -
  assume "n < 16"
  then have "n \<in> set [0..<16]" by simp
  then show ?thesis by (simp add: upt_rec) (elim disjE; simp add: hex_upper_def digit_char_def is_hex_def hex_val_def is_digit_def digit_val_def less_eq_char_def)
qed

lemma unreserved_plain: "unreserved c \<Longrightarrow> c \<notin> {CHR ''%'', CHR ''+'', CHR ''&'', CHR '';'', CHR ''='', CHR ''?''}"
  by (auto simp: unreserved_def is_digit_def less_eq_char_def)

lemma is_hex_plain: "is_hex c \<Longrightarrow> c \<notin> {CHR ''%'', CHR ''&'', CHR '';'', CHR ''=''}"
  by (auto simp: is_hex_def is_digit_def less_eq_char_def)

lemma escapeChar_plain: "set (escapeChar c) \<inter> {CHR ''&'', CHR '';'', CHR ''=''} = {}"
proof -
  have "of_char c div 16 < (16 :: nat)" "of_char c mod 16 < (16 :: nat)" using nat_of_char_less_256 [of c] by (auto simp del: nat_of_char_less_256)
  then have "is_hex (hex_upper (of_char c div 16))" "is_hex (hex_upper (of_char c mod 16))"
    using hex_upper_digit by blast+
  then show ?thesis using unreserved_plain [of c] by (auto simp: escapeChar_def dest: is_hex_plain)
qed

lemma queryUnescape_escapeChar: "queryUnescape (escapeChar c @ r) = map_option (Cons c) (queryUnescape r)"
proof -
  have n: "of_char c div 16 < (16 :: nat)" "of_char c mod 16 < (16 :: nat)" using nat_of_char_less_256 [of c] by (auto simp del: nat_of_char_less_256)
  have "char_of (of_char c div 16 * 16 + of_char c mod 16 :: nat) = c" by simp
  then show ?thesis using unreserved_plain [of c] hex_upper_digit [OF n(1)] hex_upper_digit [OF n(2)]
    by (auto simp: escapeChar_def)
qed

lemma queryUnescape_escape: "queryUnescape (queryEscape s) = Some s"
  by (induction s) (simp_all add: queryEscape_def queryUnescape_escapeChar del: queryUnescape.simps(2))

lemma splitOn_single: "c \<notin> set s \<Longrightarrow> splitOn c s = [s]"
  by (induction s) auto

lemma queryGet_escape: "queryGet (''name='' @ queryEscape n) ''name'' = n"
proof -
  let ?q = "''name='' @ queryEscape n"
  have plain: "set (queryEscape n) \<inter> {CHR ''&'', CHR '';'', CHR ''=''} = {}"
    using escapeChar_plain by (fastforce simp: queryEscape_def)
  then have "splitOn (CHR ''&'') ?q = [?q]" by (intro splitOn_single) auto
  moreover have "queryPair ?q = Some (''name'', n)"
    using plain queryUnescape_escape [of n] by (auto simp: queryPair_def cutEq_def)
  ultimately show ?thesis by (simp add: queryGet_def List.map_filter_simps)
qed

section \<open>Answers are read back\<close>




lemma toValidUTF8_Nil [simp]: "toValidUTF8 [] = []"
  by (simp add: toValidUTF8.simps)

text \<open>The names of the fields are ASCII.\<close>

lemma valid_names [simp]:
  "toValidUTF8 ''fqdn'' = ''fqdn''" "toValidUTF8 ''public_port'' = ''public_port''" "toValidUTF8 ''target'' = ''target''"
  "toValidUTF8 ''container_id'' = ''container_id''" "toValidUTF8 ''service'' = ''service''" "toValidUTF8 ''protocol'' = ''protocol''"
  "toValidUTF8 ''vip'' = ''vip''" "toValidUTF8 ''key'' = ''key''" "toValidUTF8 ''lease'' = ''lease''"
  "toValidUTF8 ''endpoints'' = ''endpoints''" "toValidUTF8 ''daemon'' = ''daemon''" "toValidUTF8 ''dns_listen'' = ''dns_listen''"
  "toValidUTF8 ''base_domain'' = ''base_domain''" "toValidUTF8 ''vip_pool'' = ''vip_pool''" "toValidUTF8 ''stacks'' = ''stacks''"
  "toValidUTF8 ''name'' = ''name''" "toValidUTF8 ''error'' = ''error''"
  by (rule toValidUTF8_ascii, auto)+







lemma unmarshalResolve_Marshal:
  "unmarshalResolve (line (marshalJSON (mapJSON [(''name'', n), (''vip'', v)]))) = Some \<lparr>RV_Name = toValidUTF8 n, RV_VIP = toValidUTF8 v\<rparr>"
proof -
  have m: "mapJSON [(''name'', n), (''vip'', v)] = JObj [(''name'', JStr n), (''vip'', JStr v)]" by (simp add: mapJSON_def)
  have "parseJSON (marshalJSON (JObj [(''name'', JStr n), (''vip'', JStr v)]) @ [CHR 0x0A])
      = Some (validJSON (JObj [(''name'', JStr n), (''vip'', JStr v)]))"
    by (rule parse_print(1)) (simp_all add: is_ws_def maxNestingDepth_def)
  then show ?thesis unfolding m
    by (simp add: unmarshalResolve_def line_def lookupField_def structField_def)
qed

section \<open>Properties\<close>

lemma getJSON_control [simp]:
  "getJSON (controlClient cfg dnsAddr e) path = Inr (serveControl cfg dnsAddr e ''GET'' path)"
  by (simp add: getJSON_def controlClient_def TrimPrefix_def map_prod_def split: prod.split)

text \<open>
  C30 (roundtrip).  \<open>stacklane resolve\<close> against the daemon's control socket: the name, whatever bytes
  it is made of, survives the query string, and the command prints what the engine resolves it to and
  exits 0, or reports that it is not found and exits 1.  The answer is JSON, so bytes of the name that are not
  UTF-8 are printed as U+FFFD.
\<close>

theorem resolve_command:
  assumes "stateDir \<noteq> ''''" "name \<noteq> ''''"
  shows "app_Resolve stateDir True (controlClient cfg dnsAddr e) jsonErr name =
    (case ResolveVIP e name of
       Some vip \<Rightarrow> (0, line (toValidUTF8 name @ '' -> '' @ toValidUTF8 vip), '''')
     | None \<Rightarrow> (1, '''', line (''not found: '' @ name)))"
proof -
  let ?q = "''name='' @ queryEscape name"
  have "serveControl cfg dnsAddr e ''GET'' (''/resolve?'' @ ?q) = render (\<lambda>m. line (marshalJSON (mapJSON m))) (resolveHandler e ''GET'' ?q)"
    by (simp add: serveControl_def Let_def)
  moreover have "resolveHandler e ''GET'' ?q = (case ResolveVIP e name of
      Some vip \<Rightarrow> HttpJSON StatusOK [(''name'', name), (''vip'', vip)]
    | None \<Rightarrow> HttpJSON StatusNotFound [(''name'', name), (''error'', ''not found'')])"
    using assms(2) queryGet_escape [of name] by (simp add: resolveHandler_def)
  ultimately show ?thesis
    using assms unmarshalResolve_Marshal by (auto simp: app_Resolve_def http_codes split: option.split)
qed

definition lane_engine :: Engine where
  "lane_engine = (NewEngine example_deps)\<lparr>E_snapshot :=
     \<lparr>St_Daemon = ''ok'', St_DNSListen = [], St_BaseDomain = ''lane.test'', St_VIPPool = [],
      St_Stacks = [\<lparr>SS_Key = ''shop'', SS_VIP = ''127.77.0.9'', SS_Lease = ''active'', SS_Endpoints =
        [\<lparr>SE_FQDN = ''web.shop.lane.test'', SE_PublicPort = 80, SE_Target = ''127.0.0.1:4001'', SE_ContainerID = ''a1'',
          SE_Service = ''s'', SE_Protocol = ''tcp'', SE_VIP = []\<rparr>]\<rparr>,
        \<lparr>SS_Key = ''old'', SS_VIP = ''127.77.0.10'', SS_Lease = [], SS_Endpoints = []\<rparr>],
      St_Endpoints = [], St_Resolve = [(''shop.lane.test'', ''127.77.0.9'')], St_Leases = []\<rparr>\<rparr>"

theorem resolve_command_witness:
  "app_Resolve ''/s'' True (controlClient example_config '''' lane_engine) (\<lambda>_. '''') ''Shop.lane.test.''
     = (0, line ''Shop.lane.test. -> 127.77.0.9'', '''')
   \<and> app_Resolve ''/s'' True (controlClient example_config '''' lane_engine) (\<lambda>_. '''') ''a b&c''
     = (1, '''', line ''not found: a b&c'')"
proof -
  note r = resolve_command [of "''/s''" _ example_config "''''" lane_engine "\<lambda>_. ''''"]
  have "normalizeName ''Shop.lane.test.'' = ''shop.lane.test''" "normalizeName ''a b&c'' = ''a b&c''"
    "normalizeName ''shop.lane.test'' = ''shop.lane.test''" by code_simp+
  then have "ResolveVIP lane_engine ''Shop.lane.test.'' = Some ''127.77.0.9''" "ResolveVIP lane_engine ''a b&c'' = None"
    by (simp_all add: ResolveVIP_def Engine_Snapshot_def lane_engine_def)
  moreover have "toValidUTF8 ''Shop.lane.test.'' = ''Shop.lane.test.''" "toValidUTF8 ''127.77.0.9'' = ''127.77.0.9''"
    by (rule toValidUTF8_ascii, auto)+
  ultimately show ?thesis using r [of "''Shop.lane.test.''"] r [of "''a b&c''"] by simp
qed



end
