(* ===== verification/Serve.thy ===== *)
theory Serve
  imports System Control
begin

text \<open>
  Package \<open>internal/app\<close>: the start of the daemon (\<open>Serve\<close> up to the launch of the engine) and its
  end, the states of a running daemon, and the lock that keeps a second daemon off the state
  directory.  What the operating system answers during the start is a record.
\<close>

section \<open>Starting the daemon\<close>

text \<open>
  The advisory file locks of the machine: the open files with their paths, and the open file that holds the
  lock of a path.  \<open>lock_faults\<close> are the system calls of \<open>acquireDaemonLock\<close> that fail, other than a lock that is
  held.
\<close>

record file_locks =
  FL_open :: "(nat \<times> string) list"
  FL_held :: "(string \<times> nat) list"
  FL_next :: nat

record lock_faults =
  LF_open :: bool
  LF_chmod :: bool
  LF_flock :: bool

record daemonLock =
  DL_f :: "nat option"

record serve_env =
  SV_mkdir :: bool
  SV_chmod :: bool
  SV_lock :: lock_faults
  SV_loadFault :: "load_fault option"
  SV_removeErr :: bool
  SV_optsDocker :: bool
  SV_moby :: "moby_opt list \<Rightarrow> string + unit"
  SV_listenUDP :: "string option"
  SV_listenTCP :: bool
  SV_serveOk :: bool
  SV_sock :: bool
  SV_sockChmod :: bool

datatype serve_error =
    SvConfig config_error
  | SvStateDir
  | SvChmod
  | SvLockOpen
  | SvLockChmod
  | SvAlreadyRunning
  | SvLock
  | SvReset
  | SvLoad store_error
  | SvPool pool_error
  | SvDocker string
  | SvDNS dns_error
  | SvDNSStart dns_error
  | SvSocket
  | SvSocketChmod

text \<open>\<open>errors.Is(err, state.ErrCorrupt)\<close> on the errors of \<open>Load\<close>.\<close>

fun is_corrupt :: "store_error \<Rightarrow> bool" where
  "is_corrupt StStat = False"
| "is_corrupt (StPermission m) = False"
| "is_corrupt StRead = False"
| "is_corrupt StSymlink = True"
| "is_corrupt StEmptyFile = True"
| "is_corrupt StInvalidJSON = True"
| "is_corrupt StVersionMissing = True"
| "is_corrupt StVersionZero = True"
| "is_corrupt (StUnknownVersion v) = True"
| "is_corrupt (StEmptyKey i) = True"
| "is_corrupt (StDupKey k) = True"
| "is_corrupt (StEmptyVIP i) = True"
| "is_corrupt (StInvalidVIP i) = True"
| "is_corrupt (StNotIPv4 i) = True"
| "is_corrupt (StDupVIP v) = True"
| "is_corrupt (StCreatedAt i) = True"
| "is_corrupt (StLastSeenAt i) = True"
| "is_corrupt (StLastActiveAt i) = True"
| "is_corrupt e = False"

text \<open>
  \<open>flock\<close> with \<open>LOCK_EX\<close> and \<open>LOCK_NB\<close> fails while another open file holds the lock of the path; closing a
  file gives its lock up.  The process id that is written into the file is left out.  A path stands for the file
  it names: two spellings of one directory (a relative path, a symbolic link) count as two files here.
\<close>

definition openFile :: "string \<Rightarrow> file_locks \<Rightarrow> file_locks \<times> nat" where
  "openFile path t = (t\<lparr>FL_open := (FL_next t, path) # FL_open t, FL_next := Suc (FL_next t)\<rparr>, FL_next t)"

definition unlockFile :: "nat \<Rightarrow> file_locks \<Rightarrow> file_locks" where
  "unlockFile f t = t\<lparr>FL_held := filter (\<lambda>(p, h). h \<noteq> f) (FL_held t)\<rparr>"

definition closeFile :: "nat \<Rightarrow> file_locks \<Rightarrow> file_locks" where
  "closeFile f t = (unlockFile f t)\<lparr>FL_open := filter (\<lambda>(g, p). g \<noteq> f) (FL_open t)\<rparr>"

definition acquireDaemonLock :: "lock_faults \<Rightarrow> string \<Rightarrow> file_locks \<Rightarrow> file_locks \<times> (serve_error + daemonLock)" where
  "acquireDaemonLock lf path t =
     (if LF_open lf then (t, Inl SvLockOpen)
      else let (t1, f) = openFile path t in
        if LF_chmod lf then (closeFile f t1, Inl SvLockChmod)
        else if map_of (FL_held t1) path \<noteq> None then (closeFile f t1, Inl SvAlreadyRunning)
        else if LF_flock lf then (closeFile f t1, Inl SvLock)
        else (t1\<lparr>FL_held := (path, f) # FL_held t1\<rparr>, Inr \<lparr>DL_f = Some f\<rparr>))"

definition daemonLock_Close :: "daemonLock option \<Rightarrow> file_locks \<Rightarrow> file_locks" where
  "daemonLock_Close l t =
     (case Option.bind l DL_f of None \<Rightarrow> t | Some f \<Rightarrow> closeFile f (unlockFile f t))"

text \<open>The state file at startup: fail closed, or remove it if it is corrupt and this is asked for.\<close>

definition startupState :: "serve_env \<Rightarrow> bool \<Rightarrow> string \<Rightarrow> fsys \<Rightarrow> serve_error + fsys" where
  "startupState sv reset path fs =
     (case Load path (SV_loadFault sv) fs of
        Inr _ \<Rightarrow> Inr fs
      | Inl err \<Rightarrow>
          if reset \<and> is_corrupt err then
            (if SV_removeErr sv then Inl SvReset else Inr (remove_file path fs))
          else Inl (SvLoad err))"

definition proxyConfig :: "Config \<Rightarrow> Pool \<Rightarrow> Proxy.Config" where
  "proxyConfig cfg pool =
     \<lparr>PC_DialTimeout = Cfg_ProxyDialTimeout cfg, PC_IdleTimeout = Cfg_ProxyIdleTimeout cfg,
      PC_ShutdownTimeout = Cfg_ProxyShutdownTimeout cfg, PC_MaxConns = Cfg_ProxyMaxConns cfg,
      PC_VIPPool = Some (Pool_Prefix pool), PC_IsAllowedVIP = Some (Pool_Contains pool)\<rparr>"

definition engineDeps :: "Config \<Rightarrow> Pool \<Rightarrow> string \<Rightarrow> Deps" where
  "engineDeps cfg pool dnsListen =
     \<lparr>D_Docker = True, D_Alloc = Some \<lparr>A_Allocate = PoolAllocator_Allocate (NewAllocator pool), A_ReleaseExpired = ReleaseExpired\<rparr>,
      D_BaseDomain = Cfg_DNSBaseDomain cfg, D_DefaultInstance = Cfg_DNSDefaultInstance cfg, D_DNSTTL = Cfg_DNSTTL cfg,
      D_DNSListen = dnsListen, D_VIPPool = Cfg_VIPPool cfg, D_VIPLeaseGrace = Cfg_VIPLeaseGrace cfg,
      D_ReconcileInterval = Cfg_ReconcileInterval cfg, D_ReconcileDebounce = Cfg_ReconcileDebounce cfg,
      D_ReconcileTimeout = 30 * second\<rparr>"

datatype slog_level = LevelDebug | LevelInfo | LevelWarn | LevelError

definition newLogger :: "string \<Rightarrow> slog_level" where
  "newLogger level =
     (let l = ToLower level in
      if l = ''debug'' then LevelDebug
      else if l = ''warn'' \<or> l = ''warning'' then LevelWarn
      else if l = ''error'' then LevelError
      else LevelInfo)"

type_synonym system = "Engine \<times> (JSONStore, mdns \<times> Server, ManagerImpl) world"

text \<open>The Docker client: the one of the options, or a new one.\<close>

definition dockerClient :: "serve_env \<Rightarrow> string \<Rightarrow> string option" where
  "dockerClient sv host =
     (if SV_optsDocker sv then None
      else case NewClient (SV_moby sv) host of Inl err \<Rightarrow> Some err | Inr _ \<Rightarrow> None)"

text \<open>\<open>Serve\<close> once it has the lock.\<close>

definition serveLocked :: "serve_env \<Rightarrow> mdns \<Rightarrow> Config \<Rightarrow> fsys \<Rightarrow> serve_error + system" where
  "serveLocked sv md cfg fs =
     (let storePath = joinPath (Cfg_StateDir cfg) ''state.json'' in
      case startupState sv (Cfg_StateResetOnCorrupt cfg) storePath fs of Inl e \<Rightarrow> Inl e | Inr fs' \<Rightarrow>
      (case ParsePool (Cfg_VIPPool cfg) of Inl e \<Rightarrow> Inl (SvPool e) | Inr pool \<Rightarrow>
      case dockerClient sv (Cfg_DockerHost cfg) of Some e \<Rightarrow> Inl (SvDocker e) | None \<Rightarrow>
      case NewServer md (Cfg_DNSListen cfg) (Cfg_DNSBaseDomain cfg) of Inl e \<Rightarrow> Inl (SvDNS e) | Inr srv0 \<Rightarrow>
      (case Start (SV_listenUDP sv) (SV_listenTCP sv) (SV_serveOk sv) srv0 of
         (_, Some e) \<Rightarrow> Inl (SvDNSStart e)
       | (srv, None) \<Rightarrow>
           if \<not> SV_sock sv then Inl SvSocket
           else if \<not> SV_sockChmod sv then Inl SvSocketChmod
           else Inr (NewEngine (engineDeps cfg pool (ListenAddr srv)),
                     \<lparr>W_store = Some \<lparr>JS_path = storePath, JS_fs = fs'\<rparr>,
                      W_dns = Some (md, srv), W_proxy = Some (NewManager (proxyConfig cfg pool))\<rparr>))))"

text \<open>
  The start of \<open>Serve\<close>, with the locks of the machine before and after it.  The deferred \<open>lock.Close\<close> runs
  when a later step fails.
\<close>

definition lockPath :: "Config \<Rightarrow> string" where
  "lockPath cfg = joinPath (Cfg_StateDir cfg) ''daemon.lock''"

definition serveStart ::
  "cfgenv \<Rightarrow> serve_env \<Rightarrow> mdns \<Rightarrow> Config \<Rightarrow> fsys \<Rightarrow> file_locks \<Rightarrow> file_locks \<times> (serve_error + daemonLock \<times> system)" where
  "serveStart env sv md cfg fs t =
     (case Config_Validate env cfg of Some e \<Rightarrow> (t, Inl (SvConfig e)) | None \<Rightarrow>
      if \<not> SV_mkdir sv then (t, Inl SvStateDir)
      else if \<not> SV_chmod sv then (t, Inl SvChmod)
      else case acquireDaemonLock (SV_lock sv) (lockPath cfg) t of
        (t', Inl e) \<Rightarrow> (t', Inl e)
      | (t', Inr lock) \<Rightarrow>
          (case serveLocked sv md cfg fs of
             Inl e \<Rightarrow> (daemonLock_Close (Some lock) t', Inl e)
           | Inr sys \<Rightarrow> (t', Inr (lock, sys))))"

text \<open>
  The end of \<open>Serve\<close>: the \<open>select\<close> sees the context, the engine or the control server first; the
  deferred calls then shut the proxy manager and the DNS server down and close the lock, the last one
  deferred first.  \<open>ctxErr\<close> is the error of the context at the return.
\<close>

datatype serve_exit = ExitCtx | ExitEngine | ExitHttp "string option"

definition serveStop ::
  "serve_exit \<Rightarrow> string option \<Rightarrow> shutdown_wait \<Rightarrow> bool option \<Rightarrow> daemonLock \<Rightarrow> file_locks \<Rightarrow> system \<Rightarrow> file_locks \<times> system \<times> string option" where
  "serveStop ex ctxErr pw dw lock t = (\<lambda>(e, w).
     let w1 = w\<lparr>W_proxy := map_option (\<lambda>m. fst (Manager_Shutdown pw m)) (W_proxy w)\<rparr>;
         w2 = w1\<lparr>W_dns := map_option (\<lambda>(md, s). (md, fst (Shutdown dw s))) (W_dns w1)\<rparr>
     in (daemonLock_Close (Some lock) t, (e, w2), case ex of ExitHttp (Some err) \<Rightarrow> Some (''control server: '' @ err) | _ \<Rightarrow> ctxErr))"

section \<open>The zone of the server\<close>

text \<open>A base domain without surrounding white space and escapes.\<close>

definition plain_base :: "string \<Rightarrow> bool" where
  "plain_base b \<longleftrightarrow> b \<noteq> '''' \<and> TrimSpace b = b \<and> CHR 0x5C \<notin> set b"

lemma CanonicalName_slugs:
  assumes "mdns_ok md" "plain_base b" "slug_name x"
  shows "CanonicalName md (x @ ''.'' @ b) = x @ ''.'' @ CanonicalName md b"
proof -
  have x: "ToLower x = x" "CHR 0x5C \<notin> set x"
    using assms(3) slug_name_char by (auto simp: slug_name_def ToLower_def map_idI)
  have "HasSuffix (x @ ''.'' @ b) ''.'' \<longleftrightarrow> HasSuffix b ''.''"
    using assms(2) by (simp add: suffix_char_iff plain_base_def)
  then have "Fqdn md (x @ ''.'' @ b) = x @ ''.'' @ Fqdn md b"
    using assms(1,2) x(2) by (simp add: mdns_ok_def plain_base_def)
  then show ?thesis using assms(1) x(1) by (simp add: mdns_ok_def ToLower_def lower_char_def)
qed

lemma server_zone_ok:
  assumes "mdns_ok md" "plain_base b" "Srv_baseDomain s = CanonicalName md (Fqdn md b)"
  shows "zone_ok (rec_ok md s) (CanonicalName md) b"
proof -
  have base: "Srv_baseDomain s = CanonicalName md b" using assms(1,3) by (simp add: canon_key_eq)
  have "inZone s (canon_key md (x @ ''.'' @ b))" if "slug_name x" for x
    using CanonicalName_slugs [OF assms(1,2) that] by (simp add: canon_key_eq [OF assms(1)] inZone_def base suffix_def)
  then show ?thesis using CanonicalName_slugs [OF assms(1,2)]
    by (auto simp: zone_ok_def rec_ok_def EqualFold_def simp del: append_Cons)
qed

section \<open>The daemon\<close>

text \<open>
  The states of a running daemon: \<open>Serve\<close> has started it, the engine runs its loop on the
  collaborators of \<open>Serve\<close>, with any faults of the file system, any answers of \<open>net.Listen\<close> and
  Docker, and a clock between the years 1 and 9999.
\<close>

definition cycle_ok :: "cycle \<Rightarrow> bool" where
  "cycle_ok cy \<longleftrightarrow> rfc_time (Cy_now cy) \<and> (\<forall>i. rfc_time (Cy_clk cy i))"

type_synonym sys_run = "(JSONStore, mdns \<times> Server, ManagerImpl) run_state"
type_synonym sys_select = "(JSONStore, mdns \<times> Server, ManagerImpl) run_case"

definition sys_ops :: "(JSONStore, mdns \<times> Server, ManagerImpl) impls \<Rightarrow> bool" where
  "sys_ops I \<longleftrightarrow> (\<exists>lf sf listen. I = sysImpls lf sf listen)"

fun sys_case :: "sys_select \<Rightarrow> bool" where
  "sys_case (CaseTrigger I cy) \<longleftrightarrow> sys_ops I \<and> cycle_ok cy"
| "sys_case (CaseDebounce I cy) \<longleftrightarrow> sys_ops I \<and> cycle_ok cy"
| "sys_case _ \<longleftrightarrow> True"

inductive daemon :: "system \<Rightarrow> sys_run \<Rightarrow> bool" for sys where
  started: "sys_ops I \<Longrightarrow> cycle_ok cy \<Longrightarrow> daemon sys (runStart I cy t sys)"
| selects: "daemon sys s \<Longrightarrow> sys_case c \<Longrightarrow> runSelect t c s = Some s' \<Longrightarrow> daemon sys s'"

definition sys_inv :: "mdns \<Rightarrow> Pool \<Rightarrow> system \<Rightarrow> bool" where
  "sys_inv md pool sys \<longleftrightarrow>
     (\<exists>e js srv m. sys = (e, \<lparr>W_store = Some js, W_dns = Some (md, srv), W_proxy = Some m\<rparr>)
       \<and> ctl_wf (md, srv) \<and> mgr_inv m \<and> \<not> Mgr_shutting m
       \<and> (\<forall>v. Pool_Contains pool v \<longrightarrow> vip_allowed (Mgr_cfg m) v)
       \<and> wf_pool pool \<and> D_Alloc (E_deps e) = Some \<lparr>A_Allocate = Allocate pool, A_ReleaseExpired = ReleaseExpired\<rparr>
       \<and> zone_ok (rec_ok md srv) (CanonicalName md) (D_BaseDomain (E_deps e))
       \<and> durable (store_Load js) (lookupA md srv) (serves m))"

text \<open>A startup that succeeds, in one piece.\<close>

lemma serveLocked_Inr:
  assumes "serveLocked sv md cfg fs = Inr sys"
  obtains fs' pool srv0 srv where
    "startupState sv (Cfg_StateResetOnCorrupt cfg) (joinPath (Cfg_StateDir cfg) ''state.json'') fs = Inr fs'"
    "ParsePool (Cfg_VIPPool cfg) = Inr pool" "NewServer md (Cfg_DNSListen cfg) (Cfg_DNSBaseDomain cfg) = Inr srv0"
    "Start (SV_listenUDP sv) (SV_listenTCP sv) (SV_serveOk sv) srv0 = (srv, None)"
    "sys = (NewEngine (engineDeps cfg pool (ListenAddr srv)),
       \<lparr>W_store = Some \<lparr>JS_path = joinPath (Cfg_StateDir cfg) ''state.json'', JS_fs = fs'\<rparr>,
        W_dns = Some (md, srv), W_proxy = Some (NewManager (proxyConfig cfg pool))\<rparr>)"
  using assms by (auto simp: serveLocked_def Let_def split: option.splits if_splits sum.splits prod.splits)

lemma serveStart_Inr:
  assumes "serveStart env sv md cfg fs t = (t', Inr (lock, sys))"
  shows "Config_Validate env cfg = None" "acquireDaemonLock (SV_lock sv) (lockPath cfg) t = (t', Inr lock)"
    "serveLocked sv md cfg fs = Inr sys"
  using assms by (auto simp: serveStart_def split: option.splits if_splits sum.splits prod.splits)

lemma startupState_Inr:
  assumes "startupState sv reset path fs = Inr fs'"
  shows "fs' = fs \<and> (\<exists>snap. Load path (SV_loadFault sv) fs = Inr snap)
    \<or> reset \<and> fs' = remove_file path fs \<and> (\<exists>e. Load path (SV_loadFault sv) fs = Inl e \<and> is_corrupt e)"
  using assms by (auto simp: startupState_def split: sum.splits if_splits)

lemma Start_keeps:
  "Start u t v s = (s', e) \<Longrightarrow> Srv_records s' = Srv_records s \<and> Srv_baseDomain s' = Srv_baseDomain s"
  by (auto simp: Start_def Let_def split: if_splits option.splits)

text \<open>What the daemon relies on at its start: the two libraries, the domain, a state file that can be written again.\<close>

definition start_ok :: "mdns \<Rightarrow> Config \<Rightarrow> fsys \<Rightarrow> bool" where
  "start_ok md cfg fs \<longleftrightarrow> mdns_ok md \<and> plain_base (Cfg_DNSBaseDomain cfg)
     \<and> (\<forall>snap. Load (joinPath (Cfg_StateDir cfg) ''state.json'') None fs = Inr snap \<longrightarrow> list_all storable (Snap_Leases snap))"

lemma startup_storable:
  assumes "startupState sv reset path fs = Inr fs'" "Load path None fs' = Inr snap"
    and "\<And>snap. Load path None fs = Inr snap \<Longrightarrow> list_all storable (Snap_Leases snap)"
  shows "list_all storable (Snap_Leases snap)"
  using startupState_Inr [OF assms(1)]
proof (elim disjE conjE)
  assume "fs' = remove_file path fs"
  then have "map_of fs' path = None" by simp
  then show ?thesis using assms(2) by (auto simp: Load_def)
qed (use assms in auto)

lemma serveStart_sys_inv:
  assumes "start_ok md cfg fs" "serveStart env sv md cfg fs t = (t', Inr (lock, sys))"
  shows "\<exists>pool. sys_inv md pool sys"
  using serveStart_Inr(3) [OF assms(2)]
proof (rule serveLocked_Inr)
  fix fs' pool srv0 srv
  assume st: "startupState sv (Cfg_StateResetOnCorrupt cfg) (joinPath (Cfg_StateDir cfg) ''state.json'') fs = Inr fs'"
    and pool: "ParsePool (Cfg_VIPPool cfg) = Inr pool"
    and ns: "NewServer md (Cfg_DNSListen cfg) (Cfg_DNSBaseDomain cfg) = Inr srv0"
    and up: "Start (SV_listenUDP sv) (SV_listenTCP sv) (SV_serveOk sv) srv0 = (srv, None)"
    and sys: "sys = (NewEngine (engineDeps cfg pool (ListenAddr srv)),
       \<lparr>W_store = Some \<lparr>JS_path = joinPath (Cfg_StateDir cfg) ''state.json'', JS_fs = fs'\<rparr>,
        W_dns = Some (md, srv), W_proxy = Some (NewManager (proxyConfig cfg pool))\<rparr>)"
  have ok: "mdns_ok md" "plain_base (Cfg_DNSBaseDomain cfg)" using assms(1) by (simp_all add: start_ok_def)
  have srv: "Srv_records srv = []" "Srv_baseDomain srv = CanonicalName md (Fqdn md (Cfg_DNSBaseDomain cfg))"
    using ns ok(2) Start_keeps [OF up] by (auto simp: NewServer_def Let_def plain_base_def split: if_splits)
  have "srv_inv srv" using NewServer_inv [OF ns] Start_inv [of srv0] up by (metis fst_conv)
  moreover have "durable (store_Load \<lparr>JS_path = joinPath (Cfg_StateDir cfg) ''state.json'', JS_fs = fs'\<rparr>)
      (lookupA md srv) (serves (NewManager (proxyConfig cfg pool)))"
    using startup_storable [OF st] assms(1) srv(1)
    by (auto simp: durable_def lookupA_def serves_def NewManager_def store_Load_def start_ok_def)
  moreover have "zone_ok (rec_ok md srv) (CanonicalName md) (Cfg_DNSBaseDomain cfg)"
    using server_zone_ok [OF ok(1,2) srv(2)] .
  moreover have "E_deps (NewEngine (engineDeps cfg pool (ListenAddr srv))) = depsDefaults (engineDeps cfg pool (ListenAddr srv))"
    by (simp add: NewEngine_def Let_def)
  moreover have "vip_allowed (withDefaults (proxyConfig cfg pool)) v" if "Pool_Contains pool v" for v
    using that ParsePool_usable_facts(3,4) [OF pool, of v] by (auto simp: vip_allowed_def withDefaults_def proxyConfig_def in_pool4_def)
  ultimately have "sys_inv md pool sys"
    using ok NewManager_inv ParsePool_wf_pool [OF pool]
    by (simp add: sys_inv_def sys ctl_wf_def NewManager_def depsDefaults_def engineDeps_def plain_base_def)
  then show "\<exists>pool. sys_inv md pool sys" ..
qed

text \<open>A cycle changes neither the name functions nor the proxy's configuration.\<close>

lemma reconcileOnce_keeps:
  assumes "sys_ops I"
  shows "map_option fst (W_dns (snd (reconcileOnce I cy (e, w)))) = map_option fst (W_dns w)
    \<and> map_option Mgr_cfg (W_proxy (snd (reconcileOnce I cy (e, w)))) = map_option Mgr_cfg (W_proxy w)"
proof (rule reconcileOnce_cases [of I cy e w])
  fix snap' desired w' status
  assume a: "apply_desired I desired snap' (applyCfg (E_deps e)) w = (w', status)"
    and r: "reconcileOnce I cy (e, w) = (countPass (e\<lparr>E_snapshot := fillStatus I (E_deps e) w' status\<rparr>), w')"
  obtain lf sf listen where I: "I = sysImpls lf sf listen" using assms by (auto simp: sys_ops_def)
  have k: "fst (fst (ctl_SetRecords d recs)) = fst d" for d recs by (simp add: ctl_SetRecords_def split: prod.splits)
  have adv: "map_option fst (W_dns (advertise I desired c v)) = map_option fst (W_dns v)
    \<and> map_option Mgr_cfg (W_proxy (advertise I desired c v)) = map_option Mgr_cfg (W_proxy v)" for c v
    by (simp add: I advertise_def Let_def option.map_comp comp_def k)
  have "w' = advertise I desired (applyCfg (E_deps e)) w \<or> (\<exists>st. w' = w\<lparr>W_store := st\<rparr>)
    \<or> (\<exists>st. w' = advertise I desired (applyCfg (E_deps e)) (w\<lparr>W_store := st\<rparr>))"
    using a unfolding apply_desired_def Let_def by (auto split: option.splits prod.splits)
  then have "map_option fst (W_dns w') = map_option fst (W_dns w) \<and> map_option Mgr_cfg (W_proxy w') = map_option Mgr_cfg (W_proxy w)"
    using adv by (elim disjE exE) simp_all
  then show ?thesis using r by simp
qed simp

lemma reconcileOnce_sys_inv:
  assumes "sys_inv md pool sys" "sys_ops I" "cycle_ok cy"
  shows "sys_inv md pool (reconcileOnce I cy sys)"
proof -
  obtain lf sf listen where I: "I = sysImpls lf sf listen" using assms(2) by (auto simp: sys_ops_def)
  obtain e js srv m where s: "sys = (e, \<lparr>W_store = Some js, W_dns = Some (md, srv), W_proxy = Some m\<rparr>)"
    and inv: "ctl_wf (md, srv)" "mgr_inv m" "\<not> Mgr_shutting m" "wf_pool pool"
      "D_Alloc (E_deps e) = Some \<lparr>A_Allocate = Allocate pool, A_ReleaseExpired = ReleaseExpired\<rparr>"
      "zone_ok (rec_ok md srv) (CanonicalName md) (D_BaseDomain (E_deps e))"
      "durable (store_Load js) (lookupA md srv) (serves m)"
    and allowed: "\<forall>v. Pool_Contains pool v \<longrightarrow> vip_allowed (Mgr_cfg m) v"
    using assms(1) unfolding sys_inv_def by blast
  show ?thesis
  proof (rule stacklane.cycle_durable [where I = I and e = e and cy = cy and s = js and d = "(md, srv)" and m = m and p = pool and f = sf and listen = listen])
    fix js' d' m'
    assume r: "snd (reconcileOnce I cy (e, \<lparr>W_store = Some js, W_dns = Some (md, srv), W_proxy = Some m\<rparr>))
        = \<lparr>W_store = Some js', W_dns = Some d', W_proxy = Some m'\<rparr>"
      "ctl_wf d'" "mgr_inv m'" "\<not> Mgr_shutting m'"
      "zone_ok (rec_ok (fst d') (snd d')) (CanonicalName (fst d')) (D_BaseDomain (E_deps e))"
      "durable (store_Load js') (lookupA (fst d') (snd d')) (serves m')"
    have "fst d' = md" and cfg: "Mgr_cfg m' = Mgr_cfg m"
      using reconcileOnce_keeps [OF assms(2), of cy e "\<lparr>W_store = Some js, W_dns = Some (md, srv), W_proxy = Some m\<rparr>"] r(1) by simp_all
    then obtain srv' where d': "d' = (md, srv')" by (metis prod.collapse)
    have "reconcileOnce I cy sys = (fst (reconcileOnce I cy sys), \<lparr>W_store = Some js', W_dns = Some (md, srv'), W_proxy = Some m'\<rparr>)"
      using r(1) by (metis s prod.collapse d')
    moreover have "E_deps (fst (reconcileOnce I cy sys)) = E_deps e" by (simp add: s)
    ultimately show ?thesis using r inv(4,5) allowed unfolding sys_inv_def d' fst_conv snd_conv cfg [symmetric] by metis
  qed (use inv assms(3) in \<open>simp_all add: I sysImpls_load cycle_ok_def\<close>)
qed

text \<open>The invariant holds in every state of the daemon.\<close>

lemma daemon_inv:
  assumes "daemon sys s" "sys_inv md pool sys"
  shows "sys_inv md pool (R_engine s, R_world s)"
  using assms
proof (induction rule: daemon.induct)
  case (started I cy t)
  then show ?case using reconcileOnce_sys_inv [of md pool sys I cy] by (simp add: runStart_def Let_def case_prod_unfold)
next
  case (selects s c t s')
  from selects.hyps(3) selects.IH [OF selects.prems] selects.hyps(2) show ?case
    by (cases rule: runSelect_cases)
      (auto simp: runReconcile_def scheduleDebounced_def Let_def case_prod_unfold dest: reconcileOnce_sys_inv)
qed

section \<open>Several daemons\<close>

text \<open>
  The daemons that run on a machine, each with its lock and its configuration.  They start, with any
  faults, end by returning from \<open>Serve\<close>, or are killed, when the system closes their files.
\<close>

inductive machine :: "file_locks \<Rightarrow> (daemonLock \<times> Config) list \<Rightarrow> bool" where
  boot: "machine \<lparr>FL_open = [], FL_held = [], FL_next = n\<rparr> []"
| starts: "machine t ds \<Longrightarrow> serveStart env sv md cfg fs t = (t', Inr (lock, sys)) \<Longrightarrow> machine t' ((lock, cfg) # ds)"
| fails: "machine t ds \<Longrightarrow> serveStart env sv md cfg fs t = (t', Inl e) \<Longrightarrow> machine t' ds"
| ends: "machine t ds \<Longrightarrow> d \<in> set ds \<Longrightarrow> serveStop ex ctxErr pw dw (fst d) t sys = (t', sys', err)
    \<Longrightarrow> machine t' (filter (\<lambda>x. x \<noteq> d) ds)"
| killed: "machine t ds \<Longrightarrow> d \<in> set ds \<Longrightarrow> DL_f (fst d) = Some f \<Longrightarrow> machine (closeFile f t) (filter (\<lambda>x. x \<noteq> d) ds)"

text \<open>The open files and the locks are those of the running daemons, one for each.\<close>

definition lock_inv :: "file_locks \<Rightarrow> (daemonLock \<times> Config) list \<Rightarrow> bool" where
  "lock_inv t ds \<longleftrightarrow>
     FL_held t = map (\<lambda>(l, cfg). (lockPath cfg, the (DL_f l))) ds \<and> FL_open t = map (\<lambda>(l, cfg). (the (DL_f l), lockPath cfg)) ds
     \<and> distinct (map (lockPath \<circ> snd) ds) \<and> distinct (map (\<lambda>d. the (DL_f (fst d))) ds)
     \<and> (\<forall>d\<in>set ds. \<exists>f<FL_next t. DL_f (fst d) = Some f)"

lemma lock_inv_files: "lock_inv t ds \<Longrightarrow> d \<in> set ds \<Longrightarrow> \<exists>f<FL_next t. DL_f (fst d) = Some f"
  by (simp add: lock_inv_def)

lemma lock_inv_held: "lock_inv t ds \<Longrightarrow> map_of (FL_held t) p = None \<longleftrightarrow> p \<notin> (lockPath \<circ> snd) ` set ds"
  by (force simp: lock_inv_def map_of_eq_None_iff)

lemma lock_inv_next: "lock_inv t ds \<Longrightarrow> lock_inv (t\<lparr>FL_next := Suc (FL_next t)\<rparr>) ds"
  by (fastforce simp: lock_inv_def)

text \<open>A file that was opened and closed again leaves nothing behind.\<close>

lemma lock_inv_close_fresh:
  assumes "lock_inv t ds"
  shows "closeFile (FL_next t) (t\<lparr>FL_open := (FL_next t, p) # FL_open t, FL_next := Suc (FL_next t)\<rparr>) = t\<lparr>FL_next := Suc (FL_next t)\<rparr>"
proof -
  have "the (DL_f l) \<noteq> FL_next t" if "(l, cfg) \<in> set ds" for l cfg using lock_inv_files [OF assms that] by auto
  then have "filter (\<lambda>(p, h). h \<noteq> FL_next t) (FL_held t) = FL_held t" "filter (\<lambda>(g, p). g \<noteq> FL_next t) (FL_open t) = FL_open t"
    using assms by (force simp: lock_inv_def filter_id_conv)+
  then show ?thesis by (simp add: closeFile_def unlockFile_def)
qed

lemma acquire_lock_inv:
  assumes "lock_inv t ds" "acquireDaemonLock lf (lockPath cfg) t = (t', r)"
  shows "case r of Inl e \<Rightarrow> lock_inv t' ds | Inr l \<Rightarrow> lock_inv t' ((l, cfg) # ds)"
proof (cases r)
  case (Inl e)
  then have "t' = t \<or> t' = t\<lparr>FL_next := Suc (FL_next t)\<rparr>"
    using assms(2) by (auto simp: acquireDaemonLock_def openFile_def lock_inv_close_fresh [OF assms(1)] split: if_splits)
  then show ?thesis using Inl assms(1) lock_inv_next by auto
next
  case (Inr l)
  then have l: "l = \<lparr>DL_f = Some (FL_next t)\<rparr>" and n: "map_of (FL_held t) (lockPath cfg) = None"
    and t': "t' = t\<lparr>FL_open := (FL_next t, lockPath cfg) # FL_open t, FL_next := Suc (FL_next t), FL_held := (lockPath cfg, FL_next t) # FL_held t\<rparr>"
    using assms(2) by (auto simp: acquireDaemonLock_def openFile_def split: if_splits)
  have "FL_next t \<noteq> the (DL_f (fst d))" if "d \<in> set ds" for d using lock_inv_files [OF assms(1) that] by auto
  moreover have "lockPath cfg \<notin> (lockPath \<circ> snd) ` set ds" using n lock_inv_held [OF assms(1)] by blast
  moreover have "\<exists>f<Suc (FL_next t). DL_f (fst d) = Some f" if "d \<in> set ds" for d
    using lock_inv_files [OF assms(1) that] less_SucI by blast
  ultimately have "lock_inv t' ((l, cfg) # ds)" using assms(1) by (auto simp: lock_inv_def l t')
  then show ?thesis using Inr by simp
qed

lemma close_lock_inv:
  assumes "lock_inv t ds" "d \<in> set ds" "DL_f (fst d) = Some f"
  shows "lock_inv (closeFile f t) (filter (\<lambda>x. x \<noteq> d) ds)"
proof -
  have inj: "the (DL_f (fst x)) = f \<longleftrightarrow> x = d" if "x \<in> set ds" for x
    using assms that by (metis (mono_tags, lifting) lock_inv_def distinct_map inj_onD option.sel)
  have "filter (\<lambda>(p, h). h \<noteq> f) (FL_held t) = map (\<lambda>(l, cfg). (lockPath cfg, the (DL_f l))) (filter (\<lambda>x. x \<noteq> d) ds)"
    "filter (\<lambda>(g, p). g \<noteq> f) (FL_open t) = map (\<lambda>(l, cfg). (the (DL_f l), lockPath cfg)) (filter (\<lambda>x. x \<noteq> d) ds)"
    using assms(1) inj by (auto simp: lock_inv_def filter_map comp_def case_prod_unfold intro!: map_cong filter_cong)
  then show ?thesis using assms(1) by (auto simp: lock_inv_def closeFile_def unlockFile_def distinct_map_filter)
qed

lemma daemonLock_Close_Some: "DL_f l = Some f \<Longrightarrow> daemonLock_Close (Some l) t = closeFile f t"
  by (simp add: daemonLock_Close_def closeFile_def unlockFile_def)

lemma serveStart_lock_inv:
  assumes "lock_inv t ds" "serveStart env sv md cfg fs t = (t', r)"
  shows "case r of Inl e \<Rightarrow> lock_inv t' ds | Inr (l, sys) \<Rightarrow> lock_inv t' ((l, cfg) # ds)"
proof (cases "acquireDaemonLock (SV_lock sv) (lockPath cfg) t")
  case a: (Pair t1 r1)
  have k: "lock_inv (daemonLock_Close (Some l) t1) ds" if l: "lock_inv t1 ((l, cfg) # ds)" for l
  proof -
    obtain f where f: "DL_f l = Some f" using lock_inv_files [OF l, of "(l, cfg)"] by auto
    have "filter (\<lambda>x. x \<noteq> (l, cfg)) ((l, cfg) # ds) = ds"
      using l by (force simp: lock_inv_def filter_id_conv)
    then show ?thesis using close_lock_inv [OF l, of "(l, cfg)" f] f by (simp add: daemonLock_Close_Some)
  qed
  show ?thesis
    using assms acquire_lock_inv [OF assms(1) a] a k
    by (auto simp: serveStart_def split: option.splits if_splits sum.splits)
qed

lemma machine_inv: "machine t ds \<Longrightarrow> lock_inv t ds"
proof (induction rule: machine.induct)
  case (ends t ds d ex ctxErr pw dw sys t' sys' err)
  obtain f where f: "DL_f (fst d) = Some f" using lock_inv_files [OF ends.IH ends.hyps(2)] by blast
  moreover have "t' = daemonLock_Close (Some (fst d)) t"
    using ends.hyps(3) by (auto simp: serveStop_def Let_def case_prod_unfold)
  ultimately show ?case using close_lock_inv [OF ends.IH ends.hyps(2) f] by (simp add: daemonLock_Close_Some)
qed (auto simp: lock_inv_def [of _ "[]"] dest: serveStart_lock_inv intro: close_lock_inv)

section \<open>An example\<close>

definition example_serve :: serve_env where
  "example_serve =
     \<lparr>SV_mkdir = True, SV_chmod = True, SV_lock = \<lparr>LF_open = False, LF_chmod = False, LF_flock = False\<rparr>, SV_loadFault = None, SV_removeErr = False,
      SV_optsDocker = False, SV_moby = \<lambda>opts. Inr (),
      SV_listenUDP = Some ''127.0.0.1:5353'', SV_listenTCP = True, SV_serveOk = True, SV_sock = True, SV_sockChmod = True\<rparr>"

definition no_locks :: file_locks where
  "no_locks = \<lparr>FL_open = [], FL_held = [], FL_next = 3\<rparr>"

definition example_locks :: file_locks where
  "example_locks =
     \<lparr>FL_open = [(3, ''/home/dev/.stacklane/daemon.lock'')], FL_held = [(''/home/dev/.stacklane/daemon.lock'', 3)], FL_next = 4\<rparr>"

definition example_srv :: Server where
  "example_srv =
     \<lparr>Srv_baseDomain = ''lane.test.'', Srv_baseLabel = ''lane.test'', Srv_pc = Some True, Srv_tl = Some True,
      Srv_addr = ''127.0.0.1:5353'', Srv_listen = ''127.0.0.1:5353'', Srv_records = [], Srv_serial = 1,
      Srv_started = True, Srv_shutdown = False\<rparr>"

definition example_js :: JSONStore where
  "example_js = \<lparr>JS_path = ''/home/dev/.stacklane/state.json'', JS_fs = []\<rparr>"

definition example_engine :: Engine where
  "example_engine = NewEngine (engineDeps example_config example_pool ''127.0.0.1:5353'')"

definition example_sys :: system where
  "example_sys =
     (example_engine, \<lparr>W_store = Some example_js, W_dns = Some (plain_mdns, example_srv),
        W_proxy = Some (NewManager (proxyConfig example_config example_pool))\<rparr>)"

lemma example_config_fields:
  "Cfg_StateDir example_config = ''/home/dev/.stacklane''" "Cfg_VIPPool example_config = ''127.77.0.13/29''"
  "Cfg_DNSListen example_config = ''127.0.0.1:5353''" "Cfg_DNSBaseDomain example_config = ''lane.test''"
  "Cfg_DNSDefaultInstance example_config = ''''" "Cfg_DNSTTL example_config = 5" "Cfg_VIPLeaseGrace example_config = 24 * 3600 * second"
  "\<not> Cfg_StateResetOnCorrupt example_config"
  by (simp_all add: example_config_def)

lemma example_lockPath: "lockPath example_config = ''/home/dev/.stacklane/daemon.lock''"
  unfolding lockPath_def example_config_fields by code_simp

lemma example_start:
  "serveStart example_env example_serve plain_mdns example_config [] no_locks = (example_locks, Inr (\<lparr>DL_f = Some 3\<rparr>, example_sys))"
proof -
  have p: "joinPath ''/home/dev/.stacklane'' ''state.json'' = ''/home/dev/.stacklane/state.json''" by code_simp
  have n: "CanonicalName plain_mdns (Fqdn plain_mdns ''lane.test'') = ''lane.test.''" by code_simp
  have t: "TrimSpace ''lane.test'' = ''lane.test''" "TrimSuffix ''lane.test.'' ''.'' = ''lane.test''" by code_simp+
  show ?thesis
    by (simp add: serveStart_def serveLocked_def dockerClient_def NewClient_def example_config_valid acquireDaemonLock_def openFile_def
        no_locks_def example_locks_def example_lockPath startupState_def Load_def example_config_fields example_serve_def ParsePool_example NewServer_def Start_def t n p Let_def
        example_sys_def example_js_def example_srv_def example_engine_def ListenAddr_def)
qed

lemma example_start_ok: "start_ok plain_mdns example_config []"
proof -
  have "TrimSpace ''lane.test'' = ''lane.test''" by code_simp
  then show ?thesis
    using plain_mdns_ok by (auto simp: start_ok_def plain_base_def example_config_fields Load_def)
qed

section \<open>Properties\<close>



text \<open>
  C28 (safety).  One daemon for a state directory: whatever daemons start, fail, end and are killed, no two
  that run have the same lock file, hence none shares its state file with another.  While one runs, every
  further start on its directory fails, and fails without closing its lock; the files that are open are
  those of the running daemons, so that a start that fails leaves no descriptor and no lock behind; and once
  no daemon runs on the directory any more, its lock can be taken again.
\<close>

theorem daemon_exclusive:
  assumes "machine t ds"
  shows "distinct (map (\<lambda>(l, cfg). lockPath cfg) ds) \<and> map snd (FL_open t) = map (\<lambda>(l, cfg). lockPath cfg) ds
    \<and> (if lockPath cfg \<in> (\<lambda>(l, cfg). lockPath cfg) ` set ds
       then \<exists>e t'. serveStart env sv md cfg fs t = (t', Inl e) \<and> FL_held t' = FL_held t
       else \<exists>t' l. acquireDaemonLock \<lparr>LF_open = False, LF_chmod = False, LF_flock = False\<rparr> (lockPath cfg) t = (t', Inr l))"
proof -
  note inv = machine_inv [OF assms]
  have lp: "(\<lambda>(l, cfg). lockPath cfg) = lockPath \<circ> snd" by auto
  have "map snd (FL_open t) = map (lockPath \<circ> snd) ds" "distinct (map (lockPath \<circ> snd) ds)"
    using inv by (auto simp: lock_inv_def)
  moreover have "\<exists>e t'. serveStart env sv md cfg fs t = (t', Inl e) \<and> FL_held t' = FL_held t"
    if "lockPath cfg \<in> (lockPath \<circ> snd) ` set ds"
  proof -
    have h: "map_of (FL_held t) (lockPath cfg) \<noteq> None" using lock_inv_held [OF inv] that by blast
    obtain t' r where r: "serveStart env sv md cfg fs t = (t', r)" by fastforce
    then obtain e where "r = Inl e" using h
      by (auto simp: serveStart_def acquireDaemonLock_def openFile_def split: option.splits if_splits)
    moreover from this have "FL_held t' = FL_held t"
      using serveStart_lock_inv [OF inv r] inv by (simp add: lock_inv_def)
    ultimately show ?thesis using r by blast
  qed
  moreover have "\<exists>t' l. acquireDaemonLock \<lparr>LF_open = False, LF_chmod = False, LF_flock = False\<rparr> (lockPath cfg) t = (t', Inr l)"
    if "lockPath cfg \<notin> (lockPath \<circ> snd) ` set ds"
    using that lock_inv_held [OF inv] by (simp add: acquireDaemonLock_def openFile_def)
  ultimately show ?thesis unfolding lp by simp
qed

theorem daemon_exclusive_witness:
  "map_of (FL_held example_locks) (lockPath example_config) = Some 3
   \<and> (\<exists>e t'. serveStart example_env example_serve plain_mdns example_config [] example_locks = (t', Inl e) \<and> FL_held t' = FL_held example_locks)"
proof -
  have m: "machine example_locks [(\<lparr>DL_f = Some 3\<rparr>, example_config)]"
    using starts [OF boot [of 3] example_start [unfolded no_locks_def]] .
  show ?thesis
    using daemon_exclusive [OF m, of example_config example_env example_serve plain_mdns "[]"] by (simp add: example_locks_def example_lockPath)
qed

end
