(* ===== verification/Publish.thy ===== *)
theory Publish
  imports Serve
begin

text \<open>
  What the daemon shows to its clients: the answers of its DNS server, its resolve map and the
  listeners of its proxy, in every state and after a cycle that was not cut short.
\<close>

section \<open>The daemon as a whole\<close>

lemma serveDNS_A_leased:
  assumes "mdns_ok md" "RR_A n ttl v \<in> set (M_Answer (serveDNS md srv r))"
  shows "v = nsIP srv \<or> (\<exists>n. lookupA md srv n = Some v)"
  using assms by (auto simp: reply_simps mdns_ok_def Let_def lookupA_def soaRR_def split: list.splits option.splits if_splits)

lemma listener_served:
  assumes "mgr_inv m" "map_of (Mgr_listeners m) k = Some ml"
  shows "Is4 (ML_vip ml) \<and> serves m (ML_vip ml) (ML_port ml) \<noteq> None"
proof -
  have "listener_ok (Mgr_cfg m) k ml" using assms unfolding mgr_inv_def by blast
  then show ?thesis using assms(2) unfolding listener_ok_def by (auto simp: serves_def vip_allowed_def)
qed

lemma serves_listener:
  assumes "mgr_inv m" "Is4 v" "serves m v p \<noteq> None"
  shows "\<exists>k ml. map_of (Mgr_listeners m) k = Some ml \<and> ML_vip ml = v"
proof -
  obtain ml where ml: "map_of (Mgr_listeners m) (listenerKey v p ProtocolTCP) = Some ml" using assms(3) by (auto simp: serves_def)
  then have "listener_ok (Mgr_cfg m) (listenerKey v p ProtocolTCP) ml" using assms(1) unfolding mgr_inv_def by blast
  then have "ML_vip ml = v" using listenerKey_inject [OF assms(2), of "ML_vip ml"] by (auto simp: listener_ok_def vip_allowed_def)
  with ml show ?thesis by blast
qed

section \<open>What a good cycle publishes\<close>

text \<open>
  A cycle that is not cut short: the leases load, Docker answers, and the new leases are saved.
\<close>

definition good_cycle :: "save_fault option \<Rightarrow> cycle \<Rightarrow> system \<Rightarrow> DesiredState \<Rightarrow> bool" where
  "good_cycle sf cy sys desired \<longleftrightarrow>
     (\<exists>js snap containers snap'. W_store (snd sys) = Some js \<and> store_Load js = Inr snap
       \<and> listContainers (E_deps (fst sys)) cy = Inr containers
       \<and> BuildDesired containers (releaseExpired (E_deps (fst sys)) (Cy_now cy) snap) (map_option A_Allocate (D_Alloc (E_deps (fst sys))))
           (buildCfg (E_deps (fst sys))) (Cy_clk cy) (Cy_now cy) = (snap', desired)
       \<and> snd (store_Save sf js snap') = None)"

lemma good_cycle_publishes:
  assumes "sys_inv md pool sys" "cycle_ok cy" "good_cycle sf cy sys desired" "sys' = reconcileOnce (sysImpls None sf listen) cy sys"
    and "base = D_BaseDomain (E_deps (fst sys))"
  obtains srv m snap' ws m0 where "W_dns (snd sys') = Some (md, srv)" "W_proxy (snd sys') = Some m" "mdns_ok md"
    "\<And>r. r \<in> set (buildDNSRecords desired base (D_DNSTTL (E_deps (fst sys)))) \<Longrightarrow>
       lookupA md srv (Rec_Name r) = Some (Rec_VIP r) \<and> inZone srv (CanonicalName md (Rec_Name r))"
    "St_Resolve (E_snapshot (fst sys')) = resolveMap desired base"
    "desired_ok (Pool_Contains pool) ws snap' desired" "\<forall>c\<in>set ws. wf_cand (buildCfg (E_deps (fst sys))) c"
    "m = fst (Reconcile listen (sortEndpoints (govals (Endpoints desired))) m0)" "mgr_inv m0" "\<not> Mgr_shutting m0"
    "\<And>v. Pool_Contains pool v \<Longrightarrow> vip_allowed (Mgr_cfg m0) v"
proof -
  obtain e js srv0 m0 where s: "sys = (e, \<lparr>W_store = Some js, W_dns = Some (md, srv0), W_proxy = Some m0\<rparr>)"
    and inv: "ctl_wf (md, srv0)" "mgr_inv m0" "\<not> Mgr_shutting m0" "wf_pool pool"
      "D_Alloc (E_deps e) = Some \<lparr>A_Allocate = Allocate pool, A_ReleaseExpired = ReleaseExpired\<rparr>"
      "zone_ok (rec_ok md srv0) (CanonicalName md) (D_BaseDomain (E_deps e))"
    and allowed: "\<forall>v. Pool_Contains pool v \<longrightarrow> vip_allowed (Mgr_cfg m0) v"
    using assms(1) unfolding sys_inv_def by blast
  obtain snap containers snap' where g: "store_Load js = Inr snap" "listContainers (E_deps e) cy = Inr containers"
    "BuildDesired containers (releaseExpired (E_deps e) (Cy_now cy) snap) (map_option A_Allocate (D_Alloc (E_deps e)))
       (buildCfg (E_deps e)) (Cy_clk cy) (Cy_now cy) = (snap', desired)" "snd (store_Save sf js snap') = None"
    using assms(3) unfolding good_cycle_def s by auto
  have bd: "BuildDesired containers (fst (ReleaseExpired snap (Cy_now cy) (D_VIPLeaseGrace (E_deps e)))) (Some (Allocate pool))
       (buildCfg (E_deps e)) (Cy_clk cy) (Cy_now cy) = (snap', desired)" using g(3) inv(5) by (simp add: releaseExpired_def)
  have base: "base = D_BaseDomain (E_deps e)" using assms(5) s by simp
  note c = stacklane.cycle_publishes [of "sysImpls None sf listen" sf listen _ js "(md, srv0)" m0 pool e base snap cy containers snap' desired,
      OF _ _ _ refl inv(1-5) _ base _ g(1,2) bd g(4)]
  obtain d' where d': "W_dns (snd sys') = Some d'"
    "W_proxy (snd sys') = Some (fst (Reconcile listen (sortEndpoints (govals (Endpoints desired))) m0))"
    "\<And>r. r \<in> set (buildDNSRecords desired base (D_DNSTTL (E_deps e))) \<Longrightarrow> lookupA (fst d') (snd d') (Rec_Name r) = Some (Rec_VIP r)"
    using c(1) inv(6) g(1) unfolding assms(4) s base by (simp only: sysImpls_simps sysImpls_load_None fst_conv snd_conv) blast
  have "sys_inv md pool sys'"
    using reconcileOnce_sys_inv [OF assms(1) _ assms(2)] unfolding assms(4) sys_ops_def by blast
  then have wf: "d' = (md, snd d')" "ctl_wf d'" using d'(1) unfolding sys_inv_def by auto
  show thesis
  proof (rule that [of "snd d'" _ "winners (collectCandidates containers (buildCfg (E_deps e)))" snap' m0])
    fix r
    assume "r \<in> set (buildDNSRecords desired base (D_DNSTTL (E_deps (fst sys))))"
    then have l: "lookupA md (snd d') (Rec_Name r) = Some (Rec_VIP r)" using d'(3) wf(1) s by (metis fst_conv)
    with wf(2) show "lookupA md (snd d') (Rec_Name r) = Some (Rec_VIP r) \<and> inZone (snd d') (CanonicalName md (Rec_Name r))"
      by (auto simp: ctl_wf_def lookupA_def srv_inv_def)
  next
    show "St_Resolve (E_snapshot (fst sys')) = resolveMap desired base"
      using c(2) inv(6) g(1) unfolding assms(4) s base by simp
    show "desired_ok (Pool_Contains pool) (winners (collectCandidates containers (buildCfg (E_deps e)))) snap' desired"
      using c(3) inv(6) g(1) unfolding base by simp
  qed (use d' wf inv allowed in \<open>auto simp: s wf_winners ctl_wf_def\<close>)
qed

lemma lookupA_query:
  assumes "mdns_ok md" "lookupA md srv n = Some v" "inZone srv (CanonicalName md n)"
    and "M_Question r = q # qs" "Q_Qtype q = TypeA" "CanonicalName md (Q_Name q) = CanonicalName md n"
  shows "M_Rcode (serveDNS md srv r) = RcodeSuccess \<and> (\<exists>ttl. M_Answer (serveDNS md srv r) = [RR_A (Q_Name q) ttl v])"
  using serveDNS_A(1) [OF assms(1,4,5)] assms(2,3,6) by (simp add: lookupA_def)

lemma ResolveVIP_map: "map_of (St_Resolve (E_snapshot e)) (normalizeName n) = Some v \<Longrightarrow> ResolveVIP e n = Some v"
  by (simp add: ResolveVIP_def Engine_Snapshot_def)

text \<open>The server answers every A query for the name, in any spelling, with one A record, the address.\<close>

definition answersA :: "mdns \<Rightarrow> Server \<Rightarrow> string \<Rightarrow> addr \<Rightarrow> bool" where
  "answersA md srv n v \<longleftrightarrow>
     (\<forall>r q qs. M_Question r = q # qs \<and> Q_Qtype q = TypeA \<and> CanonicalName md (Q_Name q) = CanonicalName md n \<longrightarrow>
        M_Rcode (serveDNS md srv r) = RcodeSuccess \<and> (\<exists>ttl. M_Answer (serveDNS md srv r) = [RR_A (Q_Name q) ttl v]))"

lemma answersA_I: "mdns_ok md \<Longrightarrow> lookupA md srv n = Some v \<Longrightarrow> inZone srv (CanonicalName md n) \<Longrightarrow> answersA md srv n v"
  unfolding answersA_def using lookupA_query by blast

text \<open>An endpoint of the desired state is one that the proxy takes.\<close>

lemma desired_valid_ep:
  assumes "desired_ok (Pool_Contains pool) ws snap' desired" "\<forall>c\<in>set ws. wf_cand bc c"
    and "map_of (Endpoints desired) mk = Some ep" "Ep_TargetBind ep \<noteq> 0" "\<And>v. Pool_Contains pool v \<Longrightarrow> vip_allowed cfg v"
  shows "valid_ep cfg ep"
  using desired_endpoint [OF assms(1-3)] desired_stack(2) [OF assms(1)] assms(4,5) by (auto simp: valid_ep_def)

lemma Reconcile_routes:
  assumes "mgr_inv m0" "\<not> Mgr_shutting m0" "ep \<in> set eps" "valid_ep (Mgr_cfg m0) ep"
    and "\<And>ep'. ep' \<in> set eps \<Longrightarrow> Ep_VIP ep' = Ep_VIP ep \<Longrightarrow> Ep_PublicPort ep' = Ep_PublicPort ep \<Longrightarrow> ep' = ep"
    and "listen (JoinHostPort (Addr_String (Ep_VIP ep)) (dec (unat (Ep_PublicPort ep)))) = Some ip" "\<not> IsUnspecified ip"
  shows "serves (fst (Reconcile listen eps m0)) (Ep_VIP ep) (Ep_PublicPort ep) = Some (backend_of ep)"
proof -
  have v4: "Is4 (Ep_VIP ep)" using assms(4) by (simp add: valid_ep_def vip_allowed_def)
  obtain b where b: "serves (fst (Reconcile listen eps m0)) (Ep_VIP ep) (Ep_PublicPort ep) = Some b"
    using tcp_manager.reconcile_starts [where listen = listen, OF assms(1-4,6,7)] by blast
  from tcp_manager.reconcile_sound [OF assms(1,2) v4 b] assms(5) show ?thesis using b by auto
qed

lemma desired_routed:
  assumes "desired_ok (Pool_Contains pool) ws snap' desired" "\<forall>c\<in>set ws. wf_cand bc c"
    and "map_of (Endpoints desired) mk = Some ep" "Ep_TargetBind ep \<noteq> 0" "\<And>v. Pool_Contains pool v \<Longrightarrow> vip_allowed (Mgr_cfg m0) v"
    and "mgr_inv m0" "\<not> Mgr_shutting m0"
    and "\<And>mk' ep'. map_of (Endpoints desired) mk' = Some ep' \<Longrightarrow> Ep_VIP ep' = Ep_VIP ep \<Longrightarrow> Ep_PublicPort ep' = Ep_PublicPort ep \<Longrightarrow> ep' = ep"
    and "listen (JoinHostPort (Addr_String (Ep_VIP ep)) (dec (unat (Ep_PublicPort ep)))) = Some ip" "\<not> IsUnspecified ip"
  shows "serves (fst (Reconcile listen (sortEndpoints (govals (Endpoints desired))) m0)) (Ep_VIP ep) (Ep_PublicPort ep)
    = Some \<lparr>BT_host = loopback4, BT_port = Ep_TargetBind ep\<rparr>"
proof -
  have "distinct (gokeys (Endpoints desired))" using build_invD(3) assms(1) unfolding desired_ok_def by blast
  then have "ep' = ep" if "ep' \<in> set (sortEndpoints (govals (Endpoints desired)))" "Ep_VIP ep' = Ep_VIP ep"
      "Ep_PublicPort ep' = Ep_PublicPort ep" for ep'
    using that assms(8) by (auto simp: sortEndpoints_def intro: map_of_is_SomeI)
  moreover have "ep \<in> set (sortEndpoints (govals (Endpoints desired)))"
    using map_of_SomeD [OF assms(3)] by (force simp: sortEndpoints_def)
  ultimately have "serves (fst (Reconcile listen (sortEndpoints (govals (Endpoints desired))) m0)) (Ep_VIP ep) (Ep_PublicPort ep)
      = Some (backend_of ep)"
    using Reconcile_routes [where listen = listen, OF assms(6,7) _ desired_valid_ep [OF assms(1-5)] _ assms(9,10)] by blast
  moreover have "Ep_TargetHost ep = loopback4" using desired_endpoint [OF assms(1-3)] by blast
  ultimately show ?thesis by (simp add: backend_of_def)
qed

text \<open>An endpoint that has the name of a stack belongs to another stack, with another VIP.\<close>

lemma endpoint_clash_vip:
  assumes "desired_ok P ws snap' desired" "\<forall>c\<in>set ws. wf_cand bc c"
    and "map_of (Endpoints desired) mk = Some ep" "map_of (Stacks desired) k = Some st"
    and "Ep_FQDN ep = stackName (BC_BaseDomain bc) st"
  shows "Ep_VIP ep \<noteq> Stack_VIP st"
proof
  assume eq: "Ep_VIP ep = Stack_VIP st"
  obtain c st' where c: "c \<in> set ws" "map_of (Stacks desired) (Meta_StackKey (cand_meta c)) = Some st'" "ep = mkEndpoint c (Stack_VIP st')"
    using desired_ok_endpointD [OF assms(1,3)] by metis
  have "k = Meta_StackKey (cand_meta c)"
    using desired_stack(3) [OF assms(1,4)] desired_stack(3) [OF assms(1) c(2)] eq c(3) lease_inv_inj_map [OF desired_ok_lease_inv [OF assms(1)]]
    by (simp add: mkEndpoint_def)
  then have st: "st' = st" "MakeStackKey (Stack_ProjectSlug st) (Stack_InstanceSlug st) = Meta_StackKey (cand_meta c)"
    using assms(4) c(2) desired_ok_stackD [OF assms(1,4)] by (auto simp: stack_ok_def)
  have wf: "wf_cand bc c" using assms(2) c(1) by blast
  then have m: "wf_meta (cand_meta c)" "cand_epFQDN c = fst (BuildFQDNs (Meta_EndpointName (cand_meta c)) (Meta_ProjectSlug (cand_meta c))
      (Meta_InstanceSlug (cand_meta c)) (BC_BaseDomain bc))" unfolding wf_cand_def Let_def by (metis fst_conv)+
  then have "Stack_ProjectSlug st = Meta_ProjectSlug (cand_meta c) \<and> Stack_InstanceSlug st = Meta_InstanceSlug (cand_meta c)"
    using st(2) desired_ok_stackD [OF assms(1,4)] by (simp add: wf_meta_def stack_ok_def MakeStackKey_inject)
  then have "Ep_FQDN ep = Meta_EndpointName (cand_meta c) @ ''.'' @ stackName (BC_BaseDomain bc) st"
    using m(2) c(3) by (simp add: mkEndpoint_def stackName_def BuildFQDNs_def)
  then have "length (Ep_FQDN ep) > length (stackName (BC_BaseDomain bc) st)" by simp
  then show False using assms(5) by simp
qed

lemma good_cycle_routes_facts:
  assumes "sys_inv md pool sys" "cycle_ok cy"
    and "good_cycle sf cy sys desired" "map_of (Endpoints desired) mk = Some ep" "Ep_TargetBind ep \<noteq> 0"
    and "\<forall>st\<in>ran (map_of (Stacks desired)). stackName (D_BaseDomain (E_deps (fst sys))) st \<noteq> Ep_FQDN ep"
    and "\<forall>ep'\<in>ran (map_of (Endpoints desired)). Ep_VIP ep' = Ep_VIP ep \<and> Ep_PublicPort ep' = Ep_PublicPort ep \<longrightarrow> ep' = ep"
    and "listen (JoinHostPort (Addr_String (Ep_VIP ep)) (dec (unat (Ep_PublicPort ep)))) = Some ip" "\<not> IsUnspecified ip"
    and "reconcileOnce (sysImpls None sf listen) cy sys = (e', w')"
  shows "\<exists>srv m. W_dns w' = Some (md, srv) \<and> W_proxy w' = Some m
    \<and> answersA md srv (Ep_FQDN ep) (Ep_VIP ep) \<and> ResolveVIP e' (Ep_FQDN ep) = Some (Addr_String (Ep_VIP ep))
    \<and> serves m (Ep_VIP ep) (Ep_PublicPort ep) = Some \<lparr>BT_host = loopback4, BT_port = Ep_TargetBind ep\<rparr>"
proof -
  let ?base = "D_BaseDomain (E_deps (fst sys))"
  show ?thesis
  proof (rule good_cycle_publishes [OF assms(1-3) assms(10) [symmetric] refl], unfold fst_conv snd_conv)
    fix srv m snap' ws m0
    assume w: "W_dns w' = Some (md, srv)" "W_proxy w' = Some m" "mdns_ok md"
      and dns: "\<And>r. r \<in> set (buildDNSRecords desired ?base (D_DNSTTL (E_deps (fst sys)))) \<Longrightarrow>
        lookupA md srv (Rec_Name r) = Some (Rec_VIP r) \<and> inZone srv (CanonicalName md (Rec_Name r))"
      and res: "St_Resolve (E_snapshot e') = resolveMap desired ?base"
      and ok: "desired_ok (Pool_Contains pool) ws snap' desired" "\<forall>c\<in>set ws. wf_cand (buildCfg (E_deps (fst sys))) c"
      and m: "m = fst (Reconcile listen (sortEndpoints (govals (Endpoints desired))) m0)" "mgr_inv m0" "\<not> Mgr_shutting m0"
        "\<And>v. Pool_Contains pool v \<Longrightarrow> vip_allowed (Mgr_cfg m0) v"
    obtain r where "r \<in> set (buildDNSRecords desired ?base (D_DNSTTL (E_deps (fst sys))))" "Rec_Name r = Ep_FQDN ep" "Rec_VIP r = Ep_VIP ep"
      using desired_dns_endpoint [where base = ?base, OF ok assms(4)] assms(6) by (meson ranI)
    with dns [of r] have "answersA md srv (Ep_FQDN ep) (Ep_VIP ep)" using answersA_I [OF w(3), of srv "Ep_FQDN ep"] by simp
    moreover have "ResolveVIP e' (Ep_FQDN ep) = Some (Addr_String (Ep_VIP ep))"
      using resolve_endpoint [OF ok assms(4), of ?base] by (simp add: ResolveVIP_map res)
    moreover have "serves m (Ep_VIP ep) (Ep_PublicPort ep) = Some \<lparr>BT_host = loopback4, BT_port = Ep_TargetBind ep\<rparr>"
      unfolding m(1) using assms(7) by (intro desired_routed [where listen = listen, OF ok assms(4,5) m(4,2,3) _ assms(8,9)]) (auto intro: ranI)
    ultimately show ?thesis using w by blast
  qed
qed

section \<open>An example\<close>

text \<open>The endpoint \<open>blue\<close> of the stack \<open>shop\<close>, and the endpoint \<open>web\<close> of its instance \<open>blue\<close>.\<close>

definition blue_container :: Container where
  "blue_container =
     (example_container ''b2'' ''shop'' ''web'' 4002)\<lparr>C_Labels := (InstanceKey, ''blue'') # example_labels ''shop'' ''web''\<rparr>"

definition inventory :: "Container list" where
  "inventory = [example_container ''a1'' ''shop'' ''blue'' 4001, blue_container]"

definition empty_snap :: Snapshot where
  "empty_snap = \<lparr>Snap_Version = SchemaVersion, Snap_Leases = []\<rparr>"

definition lane_cfg :: BuildConfig where
  "lane_cfg = \<lparr>BC_BaseDomain = ''lane.test'', BC_DefaultInstance = ''''\<rparr>"

definition lane_built :: "Snapshot \<times> DesiredState" where
  "lane_built = BuildDesired inventory empty_snap (Some (Allocate example_pool)) lane_cfg (\<lambda>_. second) second"

definition lane_snap :: Snapshot where
  "lane_snap = \<lparr>Snap_Version = SchemaVersion, Snap_Leases =
     [\<lparr>Lease_StackKey = ''shop'', Lease_VIP = Addr4 0x7F4D0009, Lease_CreatedAt = second, Lease_LastSeenAt = second, Lease_LastActiveAt = second\<rparr>,
      \<lparr>Lease_StackKey = ''shop/blue'', Lease_VIP = Addr4 0x7F4D000A, Lease_CreatedAt = second, Lease_LastSeenAt = second, Lease_LastActiveAt = second\<rparr>]\<rparr>"

definition blue_ep :: Endpoint where
  "blue_ep =
     \<lparr>Ep_StackKey = ''shop'', Ep_Name = ''blue'', Ep_FQDN = ''blue.shop.lane.test'', Ep_Protocol = ''tcp'', Ep_VIP = Addr4 0x7F4D0009,
      Ep_PublicPort = 80, Ep_TargetPort = 80, Ep_TargetHost = Addr4 0x7F000001, Ep_TargetBind = 4001, Ep_ContainerID = ''a1'', Ep_ServiceName = ''s''\<rparr>"

definition web_ep :: Endpoint where
  "web_ep =
     \<lparr>Ep_StackKey = ''shop/blue'', Ep_Name = ''web'', Ep_FQDN = ''web.blue.shop.lane.test'', Ep_Protocol = ''tcp'', Ep_VIP = Addr4 0x7F4D000A,
      Ep_PublicPort = 80, Ep_TargetPort = 80, Ep_TargetHost = Addr4 0x7F000001, Ep_TargetBind = 4002, Ep_ContainerID = ''b2'', Ep_ServiceName = ''s''\<rparr>"

definition blue_stack :: Stack where
  "blue_stack = (example_stack ''shop'' (Addr4 0x7F4D000A))\<lparr>Stack_Key := ''shop/blue'', Stack_InstanceSlug := ''blue''\<rparr>"

definition lane_desired :: DesiredState where
  "lane_desired =
     \<lparr>Stacks = [(''shop'', example_stack ''shop'' (Addr4 0x7F4D0009)), (''shop/blue'', blue_stack)],
      Endpoints = [(''blue.shop.lane.test|80|tcp'', blue_ep), (''web.blue.shop.lane.test|80|tcp'', web_ep)]\<rparr>"

lemma lane_built_eq: "lane_built = (lane_snap, lane_desired)"
  by code_simp

lemma lane_saves: "snd (store_Save None example_js lane_snap) = None"
proof -
  have "snd (Save (JS_path example_js) None lane_snap (JS_fs example_js)) = None"
    by (rule Save_succeeds) (simp_all add: lane_snap_def example_js_def lease_inv_def wf_lease_def)
  then show ?thesis by (simp add: store_Save_def case_prod_unfold)
qed

lemma lane_released: "fst (ReleaseExpired empty_snap second (24 * 3600 * second)) = empty_snap"
  by code_simp

text \<open>The daemon starts while Docker is down; its second cycle finds the inventory.\<close>

definition docker_down :: cycle where
  "docker_down = \<lparr>Cy_now = 0, Cy_clk = (\<lambda>_. 0), Cy_list = Inl ''down''\<rparr>"

definition docker_up :: cycle where
  "docker_up = \<lparr>Cy_now = second, Cy_clk = (\<lambda>_. second), Cy_list = Inr inventory\<rparr>"

definition lane_run :: sys_run where
  "lane_run = runStart (sysImpls None None (\<lambda>_. None)) docker_down 0 example_sys"

lemma lane_daemon: "daemon example_sys lane_run"
  unfolding lane_run_def by (rule daemon.started) (auto simp: sys_ops_def cycle_ok_def docker_down_def rfc_time_def)

lemma lane_run_state:
  "R_engine lane_run = countPass example_engine" "R_world lane_run = snd example_sys"
  by (simp_all add: lane_run_def runStart_def example_sys_def reconcileOnce_def Let_def listContainers_def docker_down_def
      example_engine_def NewEngine_def engineDeps_def depsDefaults_def loadLeases_def store_Load_def Load_def example_js_def)

lemma lane_deps:
  "D_Docker (E_deps example_engine)" "D_Alloc (E_deps example_engine) = Some \<lparr>A_Allocate = Allocate example_pool, A_ReleaseExpired = ReleaseExpired\<rparr>"
  "D_BaseDomain (E_deps example_engine) = ''lane.test''" "D_VIPLeaseGrace (E_deps example_engine) = 24 * 3600 * second"
  "buildCfg (E_deps example_engine) = lane_cfg"
  by (simp_all add: example_engine_def NewEngine_def engineDeps_def depsDefaults_def example_config_fields Let_def buildCfg_def lane_cfg_def)

lemma docker_up_ok: "cycle_ok docker_up"
  by (simp add: cycle_ok_def docker_up_def rfc_time_def)

lemma lane_good: "good_cycle None docker_up (R_engine lane_run, R_world lane_run) lane_desired"
proof -
  have "store_Load example_js = Inr empty_snap" by (simp add: store_Load_def Load_def example_js_def empty_snap_def)
  moreover have "listContainers (E_deps example_engine) docker_up = Inr inventory" by (simp add: listContainers_def lane_deps docker_up_def)
  moreover have "BuildDesired inventory (releaseExpired (E_deps example_engine) second empty_snap)
      (map_option A_Allocate (D_Alloc (E_deps example_engine))) (buildCfg (E_deps example_engine)) (\<lambda>_. second) second = (lane_snap, lane_desired)"
    using lane_built_eq by (simp add: lane_built_def releaseExpired_def lane_deps lane_released [simplified])
  ultimately show ?thesis
    using lane_saves by (auto simp: good_cycle_def lane_run_state example_sys_def docker_up_def)
qed

definition lane_listen :: "string \<Rightarrow> addr option" where
  "lane_listen a = Some (Addr4 0x7F4D000A)"

text \<open>The state after that cycle, started by the trigger.\<close>

definition lane_up :: sys_run where
  "lane_up = runReconcile (sysImpls None None lane_listen) docker_up (lane_run\<lparr>R_trigger := False\<rparr>)"

lemma lane_up_daemon: "daemon example_sys lane_up"
proof (rule daemon.selects [OF lane_daemon])
  show "sys_case (CaseTrigger (sysImpls None None lane_listen) docker_up)" using docker_up_ok by (auto simp: sys_ops_def)
  show "runSelect 0 (CaseTrigger (sysImpls None None lane_listen) docker_up) lane_run = Some lane_up"
    by (simp add: runSelect.simps lane_up_def lane_run_def example_sys_def runStart_def case_prod_unfold Let_def)
qed

lemma web_ep_facts:
  "map_of (Endpoints lane_desired) ''web.blue.shop.lane.test|80|tcp'' = Some web_ep" "Ep_TargetBind web_ep \<noteq> 0"
  "\<forall>st\<in>ran (map_of (Stacks lane_desired)). stackName (D_BaseDomain (E_deps (R_engine lane_run))) st \<noteq> Ep_FQDN web_ep"
  "\<forall>ep'\<in>ran (map_of (Endpoints lane_desired)). Ep_VIP ep' = Ep_VIP web_ep \<and> Ep_PublicPort ep' = Ep_PublicPort web_ep \<longrightarrow> ep' = web_ep"
  "lane_listen (JoinHostPort (Addr_String (Ep_VIP web_ep)) (dec (unat (Ep_PublicPort web_ep)))) = Some (Addr4 0x7F4D000A)"
  "\<not> IsUnspecified (Addr4 0x7F4D000A)"
  by (simp_all add: lane_desired_def stackName_def BuildFQDNs_def example_stack_def blue_stack_def web_ep_def blue_ep_def
      lane_run_state lane_deps lane_listen_def)

end
