(* ===== verification/Cycle.thy ===== *)
theory Cycle
  imports Publish
begin

text \<open>
  The states inside a reconcile cycle.  DNS and proxy serve clients while the engine saves the leases,
  sets the records and reconciles the listeners one after another, so what a client or a crash can meet is not
  only the states between two cycles.  The worlds that a cycle goes through are listed here in their
  order, and shown to end in the world that \<open>reconcileOnce\<close> returns.
\<close>

section \<open>The proxy manager\<close>

text \<open>
  The critical section of \<open>Reconcile\<close>: the stale listeners are stopped one after another, then the others are
  updated or started one after another.
\<close>

definition removeStates :: "(string, Endpoint) gomap \<Rightarrow> ManagerImpl \<Rightarrow> ManagerImpl list" where
  "removeStates desired m =
     (let stale = filter (\<lambda>(key, _). map_of desired key = None) (Mgr_listeners m) in
      map (\<lambda>i. m\<lparr>Mgr_listeners := filter (\<lambda>(key, _). map_of desired key \<noteq> None \<or> key \<notin> set (gokeys (take i stale))) (Mgr_listeners m),
                 Mgr_stopped := Mgr_stopped m @ map (\<lambda>(_, ml). stopListenerLocked ml) (take i stale)\<rparr>)
        [0..<Suc (length stale)])"

fun addStates :: "(string \<Rightarrow> addr option) \<Rightarrow> (string, Endpoint) gomap \<Rightarrow> ManagerImpl \<times> proxy_error option \<Rightarrow> ManagerImpl list" where
  "addStates listen [] me = [fst me]"
| "addStates listen (e # rest) me = fst me # addStates listen rest (addOrUpdate listen [e] me)"

definition reconcileStates :: "(string \<Rightarrow> addr option) \<Rightarrow> Endpoint list \<Rightarrow> ManagerImpl \<Rightarrow> ManagerImpl list" where
  "reconcileStates listen eps m =
     (if Mgr_shutting m then [m]
      else let (desired, err) = collectDesired (Mgr_cfg m) eps ([], None) in
        removeStates desired m @ addStates listen desired (removeStale desired m, err))"

section \<open>The cycle\<close>

type_synonym sys_world = "(JSONStore, mdns \<times> Server, ManagerImpl) world"

definition advertiseStates :: "(string \<Rightarrow> addr option) \<Rightarrow> DesiredState \<Rightarrow> applyConfig \<Rightarrow> sys_world \<Rightarrow> sys_world list" where
  "advertiseStates listen desired cfg w =
     (let recs = buildDNSRecords desired (AC_BaseDomain cfg) (AC_DNSTTL cfg);
          w1 = w\<lparr>W_dns := map_option (\<lambda>dn. fst (ctl_SetRecords dn recs)) (W_dns w)\<rparr>;
          eps = sortEndpoints (govals (Endpoints desired))
      in w # w1 # (case W_proxy w1 of None \<Rightarrow> [] | Some m \<Rightarrow> map (\<lambda>m'. w1\<lparr>W_proxy := Some m'\<rparr>) (reconcileStates listen eps m)))"

definition applyStates :: "save_fault option \<Rightarrow> (string \<Rightarrow> addr option) \<Rightarrow> DesiredState \<Rightarrow> Snapshot \<Rightarrow> applyConfig \<Rightarrow> sys_world \<Rightarrow> sys_world list" where
  "applyStates sf listen desired snap cfg w =
     (case W_store w of
        None \<Rightarrow> advertiseStates listen desired cfg w
      | Some js \<Rightarrow>
          (case Save (JS_path js) sf snap (JS_fs js) of
             (states, err) \<Rightarrow>
               map (\<lambda>fs. w\<lparr>W_store := Some (js\<lparr>JS_fs := fs\<rparr>)\<rparr>) states
               @ (if err = None then advertiseStates listen desired cfg (w\<lparr>W_store := Some (js\<lparr>JS_fs := last states\<rparr>)\<rparr>) else [])))"

definition cycleStates :: "load_fault option \<Rightarrow> save_fault option \<Rightarrow> (string \<Rightarrow> addr option) \<Rightarrow> cycle \<Rightarrow> system \<Rightarrow> sys_world list" where
  "cycleStates lf sf listen cy = (\<lambda>(e, w).
     let d = E_deps e; now = Cy_now cy in
     case loadLeases (sysImpls lf sf listen) w of
       Inl _ \<Rightarrow> [w]
     | Inr snap \<Rightarrow>
         (case listContainers d cy of
            Inl _ \<Rightarrow> [w]
          | Inr containers \<Rightarrow>
              let (snap', desired) = BuildDesired containers (releaseExpired d now snap) (map_option A_Allocate (D_Alloc d))
                    (buildCfg d) (Cy_clk cy) now
              in w # applyStates sf listen desired snap' (applyCfg d) w))"

text \<open>What the engine works on when a cycle begins: the system as started, or as the last \<open>select\<close> left it.\<close>

definition rests :: "system \<Rightarrow> system \<Rightarrow> bool" where
  "rests sys x \<longleftrightarrow> x = sys \<or> (\<exists>s. daemon sys s \<and> x = (R_engine s, R_world s))"

section \<open>The last state is the result\<close>

lemma addOrUpdate_unroll: "addOrUpdate listen (e # rest) me = addOrUpdate listen rest (addOrUpdate listen [e] me)"
  by (cases e; cases me) (simp split: option.split sum.split)

lemma last_addStates: "last (addStates listen d me) = fst (addOrUpdate listen d me)"
proof (induction d arbitrary: me)
  case Nil
  show ?case by (cases me) simp
next
  case (Cons e d)
  have "addStates listen d me' \<noteq> []" for me' by (cases d) simp_all
  with Cons show ?case by (simp only: addStates.simps last.simps if_False addOrUpdate_unroll [of listen e d])
qed

lemma addStates_not_Nil [simp]: "addStates listen d me \<noteq> []"
  by (cases d) simp_all

lemma last_reconcileStates: "last (reconcileStates listen eps m) = fst (Reconcile listen eps m)"
  by (simp add: reconcileStates_def Reconcile_def reconcileLocked_def last_addStates Let_def case_prod_unfold)

lemma reconcileStates_not_Nil [simp]: "reconcileStates listen eps m \<noteq> []"
  by (simp add: reconcileStates_def Let_def case_prod_unfold)

lemma last_advertiseStates: "last (advertiseStates listen desired cfg w) = advertise (sysImpls lf sf listen) desired cfg w"
  by (simp add: advertiseStates_def advertise_def Let_def last_map last_reconcileStates split: option.split)

lemma last_applyStates: "last (applyStates sf listen desired snap cfg w) = fst (apply_desired (sysImpls lf sf listen) desired snap cfg w)"
proof (cases "W_store w")
  case None
  then show ?thesis using last_advertiseStates [of listen desired cfg w lf sf] by (simp add: applyStates_def apply_desired_def Let_def)
next
  case (Some js)
  obtain states err where s: "Save (JS_path js) sf snap (JS_fs js) = (states, err)" by fastforce
  have "advertiseStates listen desired cfg v \<noteq> []" for v by (simp add: advertiseStates_def Let_def)
  then show ?thesis
    using Some s Save_states(1) [OF s] last_advertiseStates [of listen desired cfg _ lf sf]
    by (auto simp: applyStates_def apply_desired_def store_Save_def Let_def last_map last_append split: option.split)
qed

lemma applyStates_not_Nil [simp]: "applyStates sf listen desired snap cfg w \<noteq> []"
proof (cases "W_store w")
  case (Some js)
  obtain states err where "Save (JS_path js) sf snap (JS_fs js) = (states, err)" by fastforce
  then show ?thesis using Some Save_states(1) by (simp add: applyStates_def)
qed (simp add: applyStates_def advertiseStates_def Let_def)

lemma last_cycleStates: "last (cycleStates lf sf listen cy (e, w)) = snd (reconcileOnce (sysImpls lf sf listen) cy (e, w))"
  by (simp add: cycleStates_def reconcileOnce_def last_applyStates [of sf listen _ _ _ w lf] Let_def split: sum.split prod.split)

lemma first_cycleStates: "w \<in> set (cycleStates lf sf listen cy (e, w))"
  by (simp add: cycleStates_def Let_def case_prod_unfold split: sum.split)

section \<open>Listeners during \<open>Reconcile\<close>\<close>

text \<open>
  A listener that is there in between was there before or is there at the end, with the same VIP: none
  comes and goes.
\<close>

definition kept_in :: "ManagerImpl \<Rightarrow> ManagerImpl \<Rightarrow> bool" where
  "kept_in m m' \<longleftrightarrow> (\<forall>k ml. map_of (Mgr_listeners m) k = Some ml \<longrightarrow>
     (\<exists>ml'. map_of (Mgr_listeners m') k = Some ml' \<and> ML_vip ml' = ML_vip ml))"

lemma kept_in_refl: "kept_in m m"
  by (simp add: kept_in_def)

lemma kept_in_trans: "kept_in m1 m2 \<Longrightarrow> kept_in m2 m3 \<Longrightarrow> kept_in m1 m3"
  unfolding kept_in_def by metis

lemma addOrUpdate_kept: "kept_in (fst me) (fst (addOrUpdate listen d me))"
proof (induction d arbitrary: me)
  case Nil
  show ?case by (cases me) (simp add: kept_in_refl)
next
  case (Cons e d)
  have "kept_in (fst me) (fst (addOrUpdate listen [e] me))"
    by (cases e; cases me) (auto simp: kept_in_def update_conv' split: option.split sum.split)
  then show ?case using Cons [of "addOrUpdate listen [e] me"] kept_in_trans unfolding addOrUpdate_unroll [of listen e d] by blast
qed

lemma addStates_kept: "m' \<in> set (addStates listen d me) \<Longrightarrow> kept_in m' (fst (addOrUpdate listen d me))"
proof (induction d arbitrary: me)
  case Nil
  then show ?case by (cases me) (simp add: kept_in_refl)
next
  case (Cons e d)
  then consider "m' = fst me" | "m' \<in> set (addStates listen d (addOrUpdate listen [e] me))" by auto
  then show ?case
  proof cases
    case 1
    then show ?thesis using addOrUpdate_kept by blast
  next
    case 2
    then show ?thesis using Cons.IH by (simp only: addOrUpdate_unroll [of listen e d])
  qed
qed

lemma map_of_filter_Some:
  assumes "distinct (gokeys m)" "map_of (filter P m) k = Some x"
  shows "map_of m k = Some x"
  using assms by (meson map_of_SomeD map_of_is_SomeI filter_is_subset subsetD)

lemma reconcileStates_kept:
  assumes "m' \<in> set (reconcileStates listen eps m)" "mgr_inv m"
  shows "kept_in m' m \<or> kept_in m' (fst (Reconcile listen eps m))"
proof (cases "Mgr_shutting m")
  case True
  then show ?thesis using assms(1) by (simp add: reconcileStates_def kept_in_refl)
next
  case False
  obtain d err where d: "collectDesired (Mgr_cfg m) eps ([], None) = (d, err)" by fastforce
  have dist: "distinct (gokeys (Mgr_listeners m))" using assms(2) by (simp add: mgr_inv_def)
  from assms(1) False d consider "m' \<in> set (removeStates d m)" | "m' \<in> set (addStates listen d (removeStale d m, err))"
    by (auto simp: reconcileStates_def)
  then show ?thesis
  proof cases
    case 1
    then obtain P where "Mgr_listeners m' = filter P (Mgr_listeners m)" by (auto simp: removeStates_def Let_def)
    then show ?thesis using map_of_filter_Some [OF dist] by (auto simp: kept_in_def)
  next
    case 2
    then show ?thesis using addStates_kept False d by (auto simp: Reconcile_def reconcileLocked_def)
  qed
qed

section \<open>What is advertised during a cycle\<close>

text \<open>
  The worlds of a cycle, as parts of the world \<open>w0\<close> before it and the world \<open>w1\<close> after it: the store is that of one of
  them, seen through \<open>Load\<close>, and only with the new store are there the new records, and with the new records new listeners.
\<close>

lemma applyStates_parts:
  assumes w0: "w0 = \<lparr>W_store = Some js, W_dns = Some c, W_proxy = Some m\<rparr>" and m: "mgr_inv m"
    and w: "w \<in> set (applyStates sf listen desired snap cfg w0)"
    and w1: "fst (apply_desired (sysImpls lf sf listen) desired snap cfg w0) = \<lparr>W_store = Some js1, W_dns = Some c1, W_proxy = Some m1\<rparr>"
  obtains js' c' m' where "w = \<lparr>W_store = Some js', W_dns = Some c', W_proxy = Some m'\<rparr>"
    "store_Load js' = store_Load js \<and> c' = c \<and> m' = m
     \<or> store_Load js' = store_Load js1 \<and> c' \<in> {c, c1} \<and> (kept_in m' m \<or> kept_in m' m1)"
proof -
  obtain states err where s: "Save (JS_path js) sf snap (JS_fs js) = (states, err)" by fastforce
  let ?js = "\<lambda>fs. js\<lparr>JS_fs := fs\<rparr>"
  let ?recs = "buildDNSRecords desired (AC_BaseDomain cfg) (AC_DNSTTL cfg)" and ?eps = "sortEndpoints (govals (Endpoints desired))"
  have out: "js1 = ?js (last states)" "err = None \<Longrightarrow> c1 = fst (ctl_SetRecords c ?recs) \<and> m1 = fst (Reconcile listen ?eps m)"
    using w1 s by (auto simp: w0 apply_desired_def advertise_def store_Save_def Let_def split: option.splits)
  from w s consider (saving) fs where "fs \<in> set states" "w = w0\<lparr>W_store := Some (?js fs)\<rparr>"
    | (saved) "err = None" "w \<in> set (advertiseStates listen desired cfg (w0\<lparr>W_store := Some (?js (last states))\<rparr>))"
    by (auto simp: applyStates_def w0 split: if_splits)
  then show thesis
  proof cases
    case saving
    have "map_of fs (JS_path js) = map_of (JS_fs js) (JS_path js) \<or> fs = last states" using Save_states(2) [OF s saving(1)] by blast
    then show thesis
      using that [of "?js fs" c m] saving(2) out(1) Load_cong [of fs "JS_path js" "JS_fs js" None]
      by (auto simp: w0 store_Load_def kept_in_refl)
  next
    case saved
    then have c1: "c1 = fst (ctl_SetRecords c ?recs)" "m1 = fst (Reconcile listen ?eps m)" using out(2) by blast+
    from saved(2) consider "w = \<lparr>W_store = Some js1, W_dns = Some c, W_proxy = Some m\<rparr>" | "w = \<lparr>W_store = Some js1, W_dns = Some c1, W_proxy = Some m\<rparr>"
      | m' where "m' \<in> set (reconcileStates listen ?eps m)" "w = \<lparr>W_store = Some js1, W_dns = Some c1, W_proxy = Some m'\<rparr>"
      by (auto simp: advertiseStates_def w0 out(1) c1 Let_def)
    then show thesis using that reconcileStates_kept [OF _ m] kept_in_refl c1(2) by cases blast+
  qed
qed

lemma cycleStates_parts:
  assumes w0: "w0 = \<lparr>W_store = Some js, W_dns = Some c, W_proxy = Some m\<rparr>" and m: "mgr_inv m"
    and w: "w \<in> set (cycleStates lf sf listen cy (e, w0))"
    and w1: "snd (reconcileOnce (sysImpls lf sf listen) cy (e, w0)) = \<lparr>W_store = Some js1, W_dns = Some c1, W_proxy = Some m1\<rparr>"
  obtains js' c' m' where "w = \<lparr>W_store = Some js', W_dns = Some c', W_proxy = Some m'\<rparr>"
    "store_Load js' = store_Load js \<and> c' = c \<and> m' = m
     \<or> store_Load js' = store_Load js1 \<and> c' \<in> {c, c1} \<and> (kept_in m' m \<or> kept_in m' m1)"
proof (cases "w = w0")
  case True
  then show ?thesis using that w0 by blast
next
  case False
  then obtain snap' desired where a: "w \<in> set (applyStates sf listen desired snap' (applyCfg (E_deps e)) w0)"
    "snd (reconcileOnce (sysImpls lf sf listen) cy (e, w0)) = fst (apply_desired (sysImpls lf sf listen) desired snap' (applyCfg (E_deps e)) w0)"
    using w by (auto simp: cycleStates_def reconcileOnce_def Let_def case_prod_unfold split: sum.splits)
  show ?thesis by (rule applyStates_parts [OF w0 m a(1) a(2) [symmetric, unfolded w1] that])
qed

text \<open>The system is well formed whenever a cycle begins.\<close>

lemma rests_inv:
  assumes "start_ok md cfg fs" "serveStart env sv md cfg fs t = (t', Inr (lock, sys))" "rests sys x"
  shows "\<exists>pool. sys_inv md pool x"
  using serveStart_sys_inv [OF assms(1,2)] assms(3) daemon_inv unfolding rests_def by blast

lemma kept_vip: "kept_in m' m \<Longrightarrow> map_of (Mgr_listeners m') k = Some ml \<Longrightarrow> \<exists>ml'. map_of (Mgr_listeners m) k = Some ml' \<and> ML_vip ml' = ML_vip ml"
  by (simp add: kept_in_def)

lemma durable_listener:
  assumes "durable disk look (serves m)" "mgr_inv m" "map_of (Mgr_listeners m) k = Some ml"
  shows "leased disk (ML_vip ml)"
  using listener_served [OF assms(2,3)] assms(1) unfolding durable_def by blast

lemma durable_answer:
  assumes "durable disk (lookupA md srv) sv" "mdns_ok md" "RR_A n ttl v \<in> set (M_Answer (serveDNS md srv r))"
  shows "v = nsIP srv \<or> leased disk v"
  using serveDNS_A_leased [OF assms(2,3)] assms(1) unfolding durable_def by blast

end
