(* ===== verification/Relay.thy ===== *)
theory Relay
  imports Proxy
begin

text \<open>
  Package \<open>internal/relay\<close>: the TCP and UDP relay for one endpoint.  The accept loop of the TCP
  relay and the goroutines of the UDP relay (the read loop, the sweeper, one pump for each
  session) are step functions on explicit states: a step is what a goroutine does between two
  system calls or inside one critical section of the session mutex.
\<close>

section \<open>Configuration\<close>

definition ProtocolUDP :: Protocol where "ProtocolUDP = ''udp''"

record relay_Config =
  RC_Protocol :: Protocol
  RC_Listen :: string
  RC_Target :: string
  RC_DialTimeout :: duration
  RC_IdleTimeout :: duration
  RC_ShutdownTimeout :: duration
  RC_MaxConns :: int
  RC_MaxSessions :: int
  RC_SessionIdle :: duration
  RC_UDPBufferSize :: int

definition relay_withDefaults :: "relay_Config \<Rightarrow> relay_Config" where
  "relay_withDefaults c =
     c\<lparr>RC_DialTimeout := (if RC_DialTimeout c \<le> 0 then 3 * second else RC_DialTimeout c),
       RC_IdleTimeout := (if RC_IdleTimeout c < 0 then 300 * second else RC_IdleTimeout c),
       RC_ShutdownTimeout := (if RC_ShutdownTimeout c \<le> 0 then 5 * second else RC_ShutdownTimeout c),
       RC_MaxConns := (if RC_MaxConns c \<le> 0 then 1024 else RC_MaxConns c),
       RC_MaxSessions := (if RC_MaxSessions c \<le> 0 then 1024 else RC_MaxSessions c),
       RC_SessionIdle := (if RC_SessionIdle c \<le> 0 then 60 * second else RC_SessionIdle c),
       RC_UDPBufferSize := (if RC_UDPBufferSize c \<le> 0 then 65535 else RC_UDPBufferSize c)\<rparr>"

datatype relay_error =
    RelayProtocol string
  | RelayListenRequired
  | RelayTargetRequired
  | RelayInvalidTarget string
  | RelayListen string
  | RelayIO string
  | RelayCtx

definition relay_Validate :: "relay_Config \<Rightarrow> relay_error option" where
  "relay_Validate c =
     (if RC_Protocol c \<noteq> ProtocolTCP \<and> RC_Protocol c \<noteq> ProtocolUDP then Some (RelayProtocol (RC_Protocol c))
      else if RC_Listen c = '''' then Some RelayListenRequired
      else if RC_Target c = '''' then Some RelayTargetRequired
      else if SplitHostPort (RC_Target c) = None then Some (RelayInvalidTarget (RC_Target c))
      else None)"

section \<open>TCP\<close>

text \<open>
  The accept loop and the goroutines of its connections.  \<open>RT_conns\<close> is the atomic counter; only
  this loop adds to it, so its addition and its test are one step.
\<close>

record tcp_relay =
  RT_cfg :: relay_Config
  RT_listenAddr :: string
  RT_conns :: int
  RT_running :: "nat list"
  RT_closed :: "nat list"
  RT_stopped :: "relay_error option option"  \<comment> \<open>\<open>acceptErr\<close>, once the loop has ended\<close>

definition relay_New :: "relay_Config \<Rightarrow> relay_error + tcp_relay" where
  "relay_New cfg0 =
     (let cfg = relay_withDefaults cfg0 in
      case relay_Validate cfg of
        Some e \<Rightarrow> Inl e
      | None \<Rightarrow> Inr \<lparr>RT_cfg = cfg, RT_listenAddr = '''', RT_conns = 0, RT_running = [], RT_closed = [], RT_stopped = None\<rparr>)"

datatype tcp_event =
    TcpAccept nat
  | TcpAcceptErr bool string  \<comment> \<open>whether the context is done, the error\<close>
  | TcpDone nat

fun tcpStep :: "tcp_event \<Rightarrow> tcp_relay \<Rightarrow> tcp_relay option" where
  "tcpStep (TcpAccept conn) r =
     (if RT_stopped r \<noteq> None \<or> conn \<in> set (RT_running r) \<union> set (RT_closed r) then None
      else
        let cur = RT_conns r + 1 in
        if RC_MaxConns (RT_cfg r) < cur
        then Some (r\<lparr>RT_conns := cur - 1, RT_closed := conn # RT_closed r\<rparr>)
        else Some (r\<lparr>RT_conns := cur, RT_running := conn # RT_running r\<rparr>))"
| "tcpStep (TcpAcceptErr ctxDone err) r =
     (if RT_stopped r \<noteq> None then None
      else Some (r\<lparr>RT_stopped := Some (if ctxDone then None else Some (RelayIO err))\<rparr>))"
| "tcpStep (TcpDone conn) r =
     (if conn \<in> set (RT_running r)
      then Some (r\<lparr>RT_conns := RT_conns r - 1, RT_running := remove1 conn (RT_running r), RT_closed := conn # RT_closed r\<rparr>)
      else None)"

text \<open>What \<open>runTCP\<close> returns after the loop, once the connections are drained or the timeout is over.\<close>

definition tcpResult :: "relay_error option \<Rightarrow> bool \<Rightarrow> relay_error option" where
  "tcpResult acceptErr ctxDone =
     (case acceptErr of Some e \<Rightarrow> Some e | None \<Rightarrow> if ctxDone then Some RelayCtx else None)"

text \<open>
  One connection: \<open>proxyBidirectional\<close> waits for both directions or the context and then closes
  both ends; \<open>handleTCP\<close> gives up when the dial fails, and the goroutine closes the client.  The
  result says for the client and, if there is one, the server whether they are closed.
\<close>

definition proxyBidirectional :: "proxy_event list \<Rightarrow> conn_pair" where
  "proxyBidirectional es =
     (let finished = proxyWait 2 es \<or> CtxCancelled \<in> set es in \<lparr>cp_clientClosed = finished, cp_serverClosed = finished\<rparr>)"

definition handleTCP :: "bool \<Rightarrow> proxy_event list \<Rightarrow> bool \<times> bool option" where
  "handleTCP dialOk es =
     (if \<not> dialOk then (True, None)
      else let cp = proxyBidirectional es in (cp_clientClosed cp, Some (cp_serverClosed cp)))"

text \<open>
  \<open>copyStream\<close> of the relay, with the deadlines that it sets: the calls it makes on the two
  connections, the bytes it has written and its result once it has one.  Every read and write
  comes with the time at which it is started.
\<close>

datatype io_op = SetReadDeadline gotime | ReadOp | SetWriteDeadline gotime | WriteOp string

fun relay_copyStream :: "duration \<Rightarrow> (gotime \<times> string \<times> io_err option) list \<Rightarrow> (gotime \<times> nat \<times> io_err option) list
    \<Rightarrow> io_op list \<times> string \<times> io_err option option" where
  "relay_copyStream idle [] ws = ([], [], None)"
| "relay_copyStream idle ((t, d, er) # rs) ws =
     (let rd = (if 0 < idle then [SetReadDeadline (t + idle)] else []) @ [ReadOp] in
      if d \<noteq> [] then
        (case ws of
           [] \<Rightarrow> (rd, [], None)
         | (tw, nw, ew) # ws' \<Rightarrow>
             let wr = rd @ (if 0 < idle then [SetWriteDeadline (tw + idle)] else []) @ [WriteOp d] in
             if ew \<noteq> None then (wr, take nw d, Some ew)
             else if nw \<noteq> length d then (wr, take nw d, Some (Some ErrShortWrite))
             else (case er of
                     Some e \<Rightarrow> (wr, d, Some (if e = EOF then None else Some e))
                   | None \<Rightarrow> (case relay_copyStream idle rs ws' of (ops, out, res) \<Rightarrow> (wr @ ops, d @ out, res))))
      else
        (case er of
           Some e \<Rightarrow> (rd, [], Some (if e = EOF then None else Some e))
         | None \<Rightarrow> (case relay_copyStream idle rs ws of (ops, out, res) \<Rightarrow> (rd @ ops, out, res))))"


definition relay_ListenAddr :: "tcp_relay \<Rightarrow> string" where
  "relay_ListenAddr r = RT_listenAddr r"

section \<open>UDP\<close>

text \<open>
  A session is identified by its upstream socket, which is dialled for it; the sockets are
  numbered.  The read loop is reading, dials for a client, is about to insert the dialled
  socket, is about to write a datagram upstream, or has left the loop.
\<close>

record udpSession =
  US_client :: string
  US_up :: nat
  US_last :: gotime

datatype udp_pc =
    PcRead
  | PcDial string string
  | PcInsert string string nat
  | PcWrite string nat string
  | PcStopped
  | PcReturned

text \<open>
  \<open>U_leaving\<close> are the sockets of pumps that have given the mutex up in their deferred call and have not closed
  their socket yet; \<open>U_cancelled\<close> says that the context is done and \<open>U_listening\<close> that the listening socket is
  open.  \<open>U_dialled\<close>, \<open>U_sent\<close> and \<open>U_back\<close> record what happened: the client a socket was dialled for, the
  datagrams of a client written to a socket, the datagrams of a socket written to a client.
\<close>

record udp_state =
  U_sessions :: "(string, udpSession) gomap"
  U_count :: int
  U_open :: "nat list"
  U_pumps :: "(nat \<times> string) list"
  U_leaving :: "nat list"
  U_cancelled :: bool
  U_listening :: bool
  U_pc :: udp_pc
  U_next :: nat
  U_dialled :: "(nat, string) gomap"
  U_sent :: "(string \<times> nat \<times> string) list"
  U_back :: "(string \<times> nat \<times> string) list"

definition udpStart :: udp_state where
  "udpStart = \<lparr>U_sessions = [], U_count = 0, U_open = [], U_pumps = [], U_leaving = [], U_cancelled = False, U_listening = True,
     U_pc = PcRead, U_next = 0, U_dialled = [], U_sent = [], U_back = []\<rparr>"

definition UDPSessionCount :: "udp_state \<Rightarrow> int" where
  "UDPSessionCount s = U_count s"

definition putSessions :: "(string, udpSession) gomap \<Rightarrow> udp_state \<Rightarrow> udp_state" where
  "putSessions m s = s\<lparr>U_sessions := m, U_count := int (length m)\<rparr>"

definition closeUp :: "nat \<Rightarrow> udp_state \<Rightarrow> udp_state" where
  "closeUp up s = s\<lparr>U_open := removeAll up (U_open s)\<rparr>"

definition closeAll :: "udp_state \<Rightarrow> udp_state" where
  "closeAll s = (putSessions [] s)\<lparr>U_open := filter (\<lambda>u. u \<notin> US_up ` set (govals (U_sessions s))) (U_open s)\<rparr>"

definition sweep :: "duration \<Rightarrow> gotime \<Rightarrow> udp_state \<Rightarrow> udp_state" where
  "sweep idle now s =
     (let idleOnes = filter (\<lambda>(k, x). idle < now - US_last x) (U_sessions s);
          rest = filter (\<lambda>(k, x). \<not> idle < now - US_last x) (U_sessions s)
      in (putSessions rest s)\<lparr>U_open := filter (\<lambda>u. u \<notin> US_up ` set (govals idleOnes)) (U_open s)\<rparr>)"

text \<open>A session is dropped after a failed write, if it is still the one written to.\<close>

definition dropSession :: "string \<Rightarrow> nat \<Rightarrow> udp_state \<Rightarrow> udp_state" where
  "dropSession key up s =
     (case map_of (U_sessions s) key of
        Some x \<Rightarrow> if US_up x = up then closeUp up (putSessions (AList.delete key (U_sessions s)) s) else s
      | None \<Rightarrow> s)"

text \<open>
  The deferred call of a pump: under the mutex it removes its own session only; then, without the
  mutex, it closes its socket.
\<close>

definition pumpLeave :: "nat \<Rightarrow> string \<Rightarrow> udp_state \<Rightarrow> udp_state" where
  "pumpLeave up client s =
     (let s1 = (case map_of (U_sessions s) client of
                  Some x \<Rightarrow> if US_up x = up then putSessions (AList.delete client (U_sessions s)) s else s
                | None \<Rightarrow> s)
      in s1\<lparr>U_pumps := removeAll (up, client) (U_pumps s1), U_leaving := up # U_leaving s1\<rparr>)"

definition pumpExit :: "nat \<Rightarrow> udp_state \<Rightarrow> udp_state" where
  "pumpExit up s = (closeUp up s)\<lparr>U_leaving := removeAll up (U_leaving s)\<rparr>"

definition touchSession :: "string \<Rightarrow> gotime \<Rightarrow> udp_state \<Rightarrow> udp_state" where
  "touchSession key now s =
     (case map_of (U_sessions s) key of
        Some x \<Rightarrow> s\<lparr>U_sessions := AList.update key (x\<lparr>US_last := now\<rparr>) (U_sessions s)\<rparr>
      | None \<Rightarrow> s)"

text \<open>A datagram of a client: its session is touched, or it is dropped at the limit, or a socket is dialled.\<close>

definition onDatagram :: "int \<Rightarrow> string \<Rightarrow> string \<Rightarrow> gotime \<Rightarrow> udp_state \<Rightarrow> udp_state" where
  "onDatagram maxSessions key payload now s =
     (case map_of (U_sessions s) key of
        Some x \<Rightarrow> (touchSession key now s)\<lparr>U_pc := PcWrite key (US_up x) payload\<rparr>
      | None \<Rightarrow>
          if maxSessions \<le> int (length (U_sessions s)) then s
          else s\<lparr>U_pc := PcDial key payload\<rparr>)"

text \<open>The second look at the map, under the mutex, with the dialled socket at hand.\<close>

definition insertSession :: "int \<Rightarrow> string \<Rightarrow> string \<Rightarrow> nat \<Rightarrow> gotime \<Rightarrow> udp_state \<Rightarrow> udp_state" where
  "insertSession maxSessions key payload up now s =
     (case map_of (U_sessions s) key of
        Some cur \<Rightarrow> (touchSession key now (closeUp up s))\<lparr>U_pc := PcWrite key (US_up cur) payload\<rparr>
      | None \<Rightarrow>
          if maxSessions \<le> int (length (U_sessions s)) then (closeUp up s)\<lparr>U_pc := PcRead\<rparr>
          else
            let x = \<lparr>US_client = key, US_up = up, US_last = now\<rparr> in
            (putSessions (AList.update key x (U_sessions s)) s)\<lparr>U_pumps := (up, key) # U_pumps s, U_pc := PcWrite key up payload\<rparr>)"

datatype udp_event =
    UdpRecv string string gotime
  | UdpCancel
  | UdpCloseListen
  | UdpReadErr
  | UdpDialErr  \<comment> \<open>of \<open>resolve\<close> or \<open>dial\<close>\<close>
  | UdpDialOK
  | UdpInsert gotime
  | UdpWriteOK
  | UdpWriteErr
  | UdpSweep gotime
  | UdpReply nat string gotime
  | UdpPumpLeave nat string
  | UdpPumpExit nat
  | UdpReturn

text \<open>A reply touches the pump's own session, which need not be in the map any more.\<close>

definition onReply :: "nat \<Rightarrow> string \<Rightarrow> string \<Rightarrow> gotime \<Rightarrow> udp_state \<Rightarrow> udp_state" where
  "onReply up client payload now s =
     (let s1 = (case map_of (U_sessions s) client of
                  Some x \<Rightarrow> if US_up x = up then touchSession client now s else s
                | None \<Rightarrow> s)
      in s1\<lparr>U_back := (client, up, payload) # U_back s1\<rparr>)"

fun udpStep :: "relay_Config \<Rightarrow> udp_event \<Rightarrow> udp_state \<Rightarrow> udp_state option" where
  "udpStep cfg (UdpRecv key payload now) s =
     (if U_pc s = PcRead \<and> U_listening s then Some (onDatagram (RC_MaxSessions cfg) key payload now s) else None)"
| "udpStep cfg UdpCancel s = Some (s\<lparr>U_cancelled := True\<rparr>)"
| "udpStep cfg UdpCloseListen s = (if U_cancelled s then Some (s\<lparr>U_listening := False\<rparr>) else None)"
| "udpStep cfg UdpReadErr s =
     (if U_pc s = PcRead then Some ((if U_cancelled s then closeAll s else s)\<lparr>U_pc := PcStopped\<rparr>) else None)"
| "udpStep cfg UdpDialErr s =
     (case U_pc s of PcDial key payload \<Rightarrow> Some (s\<lparr>U_pc := PcRead\<rparr>) | _ \<Rightarrow> None)"
| "udpStep cfg UdpDialOK s =
     (case U_pc s of
        PcDial key payload \<Rightarrow>
          let up = U_next s in
          Some (s\<lparr>U_open := up # U_open s, U_next := Suc up, U_dialled := (up, key) # U_dialled s, U_pc := PcInsert key payload up\<rparr>)
      | _ \<Rightarrow> None)"
| "udpStep cfg (UdpInsert now) s =
     (case U_pc s of PcInsert key payload up \<Rightarrow> Some (insertSession (RC_MaxSessions cfg) key payload up now s) | _ \<Rightarrow> None)"
| "udpStep cfg UdpWriteOK s =
     (case U_pc s of
        PcWrite key up payload \<Rightarrow>
          if up \<in> set (U_open s) then Some (s\<lparr>U_sent := (key, up, payload) # U_sent s, U_pc := PcRead\<rparr>) else None
      | _ \<Rightarrow> None)"
| "udpStep cfg UdpWriteErr s =
     (case U_pc s of PcWrite key up payload \<Rightarrow> Some ((dropSession key up s)\<lparr>U_pc := PcRead\<rparr>) | _ \<Rightarrow> None)"
| "udpStep cfg (UdpSweep now) s =
     (if U_pc s \<noteq> PcReturned then Some (sweep (RC_SessionIdle cfg) now s) else None)"
| "udpStep cfg (UdpReply up payload now) s =
     (case map_of (U_pumps s) up of
        Some client \<Rightarrow> if up \<in> set (U_open s) \<and> U_listening s then Some (onReply up client payload now s) else None
      | None \<Rightarrow> None)"
| "udpStep cfg (UdpPumpLeave up client) s =
     (if (up, client) \<in> set (U_pumps s) then Some (pumpLeave up client s) else None)"
| "udpStep cfg (UdpPumpExit up) s =
     (if up \<in> set (U_leaving s) then Some (pumpExit up s) else None)"
| "udpStep cfg UdpReturn s =
     (if U_pc s = PcStopped then Some ((closeAll s)\<lparr>U_pc := PcReturned\<rparr>) else None)"

text \<open>What \<open>runUDP\<close> returns after a failed read; \<open>ctxDone\<close> says whether the context is done.\<close>

definition udpResult :: "bool \<Rightarrow> string \<Rightarrow> relay_error option" where
  "udpResult ctxDone err = (if ctxDone then Some RelayCtx else Some (RelayIO err))"

text \<open>The period of the sweeper: a quarter of the idle time, but at least five milliseconds.\<close>

definition sweepInterval :: "relay_Config \<Rightarrow> duration" where
  "sweepInterval cfg = (let interval = RC_SessionIdle cfg div 4 in if interval < 5000000 then 5000000 else interval)"

text \<open>
  \<open>Run\<close> up to the loops: it listens with the protocol of the configuration, \<open>listen\<close> being \<open>net.Listen\<close> and
  \<open>net.ListenPacket\<close> with an error or the bound address, and then runs the TCP or the UDP loop.
\<close>

datatype relay_mode = RunsTCP tcp_relay | RunsUDP tcp_relay udp_state

definition runTCP_listen :: "(string \<Rightarrow> string \<Rightarrow> string + string) \<Rightarrow> tcp_relay \<Rightarrow> relay_error + relay_mode" where
  "runTCP_listen listen r =
     (case listen ''tcp'' (RC_Listen (RT_cfg r)) of
        Inl err \<Rightarrow> Inl (RelayListen err)
      | Inr a \<Rightarrow> Inr (RunsTCP (r\<lparr>RT_listenAddr := a\<rparr>)))"

definition runUDP_listen :: "(string \<Rightarrow> string \<Rightarrow> string + string) \<Rightarrow> tcp_relay \<Rightarrow> relay_error + relay_mode" where
  "runUDP_listen listen r =
     (case listen ''udp'' (RC_Listen (RT_cfg r)) of
        Inl err \<Rightarrow> Inl (RelayListen err)
      | Inr a \<Rightarrow> Inr (RunsUDP (r\<lparr>RT_listenAddr := a\<rparr>) udpStart))"

definition relay_Run :: "(string \<Rightarrow> string \<Rightarrow> string + string) \<Rightarrow> tcp_relay \<Rightarrow> relay_error + relay_mode" where
  "relay_Run listen r =
     (if RC_Protocol (RT_cfg r) = ProtocolTCP then runTCP_listen listen r
      else if RC_Protocol (RT_cfg r) = ProtocolUDP then runUDP_listen listen r
      else Inl (RelayProtocol (RC_Protocol (RT_cfg r))))"

inductive udp_reach :: "relay_Config \<Rightarrow> udp_state \<Rightarrow> bool" for cfg where
  started: "udp_reach cfg udpStart"
| steps: "udp_reach cfg s \<Longrightarrow> udpStep cfg ev s = Some s' \<Longrightarrow> udp_reach cfg s'"

section \<open>Session maps\<close>

text \<open>
  The sessions of a map, with the clients for which their sockets were dialled: one key for
  each socket, one socket for each key.
\<close>

definition sess_ok :: "(nat, string) gomap \<Rightarrow> (string, udpSession) gomap \<Rightarrow> bool" where
  "sess_ok dialled m \<longleftrightarrow> distinct (gokeys m)
     \<and> (\<forall>k x. (k, x) \<in> set m \<longrightarrow> US_client x = k \<and> map_of dialled (US_up x) = Some k)"

definition ups :: "(string, udpSession) gomap \<Rightarrow> nat set" where
  "ups m = US_up ` set (govals m)"

lemma mem_ups: "u \<in> ups m \<longleftrightarrow> (\<exists>k x. (k, x) \<in> set m \<and> US_up x = u)"
  by (force simp: ups_def)

lemma ups_Nil [simp]: "ups [] = {}"
  by (simp add: ups_def)

lemma sess_okD: "sess_ok D m \<Longrightarrow> (k, x) \<in> set m \<Longrightarrow> US_client x = k \<and> map_of D (US_up x) = Some k"
  by (simp add: sess_ok_def)

lemma sess_ok_lookup: "sess_ok D m \<Longrightarrow> map_of m k = Some x \<longleftrightarrow> (k, x) \<in> set m"
  by (simp add: sess_ok_def map_of_mem_iff)

lemma sess_ok_filter: "sess_ok D m \<Longrightarrow> sess_ok D (filter P m)"
  by (simp add: sess_ok_def distinct_filter_keys)

lemma sess_ok_inj:
  assumes "sess_ok D m" "(k, x) \<in> set m" "(k', x') \<in> set m" "US_up x = US_up x'"
  shows "k = k' \<and> x = x'"
proof -
  have "Some k = Some k'" using sess_okD [OF assms(1,2)] sess_okD [OF assms(1,3)] assms(4) by metis
  then show ?thesis using assms(1-3) by (auto simp: sess_ok_lookup [symmetric])
qed

text \<open>Sessions are only ever removed as a part of the map.\<close>

lemma ups_filter:
  assumes "sess_ok D m"
  shows "ups (filter P m) = ups m - ups (filter (\<lambda>e. \<not> P e) m)"
  unfolding set_eq_iff Diff_iff mem_ups set_filter mem_Collect_eq using sess_ok_inj [OF assms] by blast

lemma delete_filter: "AList.delete k m = filter (\<lambda>e. fst e \<noteq> k) m"
  by (auto simp: AList.delete_eq intro: filter_cong)

lemma ups_delete:
  assumes "sess_ok D m" "map_of m k = Some x"
  shows "ups (AList.delete k m) = ups m - {US_up x}"
proof -
  have "ups (filter (\<lambda>e. \<not> fst e \<noteq> k) m) = {US_up x}"
    using assms by (auto simp: set_eq_iff mem_ups sess_ok_lookup [symmetric])
  then show ?thesis by (simp only: delete_filter ups_filter [OF assms(1), of "\<lambda>e. fst e \<noteq> k"])
qed

lemma sess_ok_delete: "sess_ok D m \<Longrightarrow> sess_ok D (AList.delete k m)"
  by (simp add: delete_filter sess_ok_filter)

lemma sess_ok_update:
  assumes "sess_ok D m" "US_client x = k" "map_of D (US_up x) = Some k"
  shows "sess_ok D (AList.update k x m)"
  using assms unfolding sess_ok_def by (simp add: set_update_distinct)

lemma mem_ups_update:
  assumes "sess_ok D m"
  shows "u \<in> ups (AList.update k x m) \<longleftrightarrow> US_up x = u \<or> (\<exists>k' x'. map_of m k' = Some x' \<and> k' \<noteq> k \<and> US_up x' = u)"
proof -
  have "distinct (gokeys m)" using assms by (simp add: sess_ok_def)
  then show ?thesis by (auto simp: mem_ups set_update_distinct sess_ok_lookup [OF assms])
qed

lemma mem_ups_lookup: "sess_ok D m \<Longrightarrow> u \<in> ups m \<longleftrightarrow> (\<exists>k x. map_of m k = Some x \<and> US_up x = u)"
  by (simp add: mem_ups sess_ok_lookup)

lemma ups_update_new:
  assumes "sess_ok D m" "map_of m k = None"
  shows "ups (AList.update k x m) = insert (US_up x) (ups m)"
proof (rule set_eqI)
  fix u
  have "map_of m k' = Some x' \<Longrightarrow> k' \<noteq> k" for k' x' using assms(2) by auto
  then show "u \<in> ups (AList.update k x m) \<longleftrightarrow> u \<in> insert (US_up x) (ups m)"
    unfolding mem_ups_update [OF assms(1)] insert_iff mem_ups_lookup [OF assms(1)] by blast
qed

lemma ups_update_same:
  assumes "sess_ok D m" "map_of m k = Some y" "US_up x = US_up y"
  shows "ups (AList.update k x m) = ups m"
proof (rule set_eqI)
  fix u
  have "US_up x' = u \<Longrightarrow> map_of m k' = Some x' \<Longrightarrow> US_up y = u \<or> k' \<noteq> k" for k' x' using assms(2) by auto
  then show "u \<in> ups (AList.update k x m) \<longleftrightarrow> u \<in> ups m"
    unfolding mem_ups_update [OF assms(1)] mem_ups_lookup [OF assms(1)] assms(3) using assms(2) by blast
qed

lemma length_update: "length (AList.update k x m) = (if k \<in> set (gokeys m) then length m else Suc (length m))"
  by (induction m) auto

lemma sess_ok_dial:
  assumes "sess_ok D m" "u \<notin> set (gokeys D)"
  shows "sess_ok ((u, k) # D) m"
proof -
  have "US_up x \<noteq> u" if "(k', x) \<in> set m" for k' x
    using sess_okD [OF assms(1) that] assms(2) map_of_None_iff [of D u] by auto
  then show ?thesis using assms(1) by (auto simp: sess_ok_def)
qed

section \<open>The invariant\<close>

definition pending :: "udp_state \<Rightarrow> nat set" where
  "pending s = (case U_pc s of PcInsert key payload up \<Rightarrow> {up} | _ \<Rightarrow> {})"

fun pc_ok :: "relay_Config \<Rightarrow> udp_state \<Rightarrow> udp_pc \<Rightarrow> bool" where
  "pc_ok cfg s (PcDial key payload) \<longleftrightarrow> map_of (U_sessions s) key = None \<and> int (length (U_sessions s)) < RC_MaxSessions cfg"
| "pc_ok cfg s (PcInsert key payload up) \<longleftrightarrow> map_of (U_sessions s) key = None \<and> int (length (U_sessions s)) < RC_MaxSessions cfg
     \<and> map_of (U_dialled s) up = Some key"
| "pc_ok cfg s (PcWrite key up payload) \<longleftrightarrow> map_of (U_dialled s) up = Some key"
| "pc_ok cfg s PcReturned \<longleftrightarrow> U_sessions s = []"
| "pc_ok cfg s _ \<longleftrightarrow> True"

definition udp_inv :: "relay_Config \<Rightarrow> udp_state \<Rightarrow> bool" where
  "udp_inv cfg s \<longleftrightarrow> sess_ok (U_dialled s) (U_sessions s)
     \<and> U_count s = int (length (U_sessions s)) \<and> int (length (U_sessions s)) \<le> RC_MaxSessions cfg
     \<and> set (U_open s) - set (U_leaving s) = ups (U_sessions s) \<union> pending s
     \<and> (\<forall>u\<in>set (gokeys (U_dialled s)). u < U_next s) \<and> (\<forall>u\<in>set (U_leaving s). u < U_next s) \<and> (U_listening s \<or> U_cancelled s)
     \<and> (\<forall>u c. (u, c) \<in> set (U_pumps s) \<longrightarrow> map_of (U_dialled s) u = Some c \<and> u \<notin> pending s)
     \<and> (\<forall>c u p. (c, u, p) \<in> set (U_sent s) \<union> set (U_back s) \<longrightarrow> map_of (U_dialled s) u = Some c)
     \<and> pc_ok cfg s (U_pc s)"

text \<open>
  An open socket belongs to a session or to the read loop, or its pump is about to close it.  The sweeper,
  the pumps and \<open>closeAll\<close> shrink the map: the sessions that stay are a part of
  the old ones, and exactly the sockets of the others are closed.
\<close>

lemma udp_inv_shrink:
  assumes "udp_inv cfg s" "m = filter P (U_sessions s)"
    and "s' = s\<lparr>U_sessions := m, U_count := int (length m), U_open := open', U_pumps := pumps', U_leaving := leaving', U_pc := pc'\<rparr>"
    and "pending s' = pending s \<or> pending s' = {}" "set open' - set leaving' = ups m \<union> pending s'"
    and "set pumps' \<subseteq> set (U_pumps s)" "\<forall>u\<in>set leaving'. u < U_next s" "pc_ok cfg s' pc'"
  shows "udp_inv cfg s'"
proof -
  have "length m \<le> length (U_sessions s)" by (simp add: assms(2))
  then have "int (length m) \<le> RC_MaxSessions cfg" using assms(1) unfolding udp_inv_def by linarith
  moreover have "\<forall>u c. (u, c) \<in> set pumps' \<longrightarrow> map_of (U_dialled s) u = Some c \<and> u \<notin> pending s'"
    using assms(1,4,6) unfolding udp_inv_def by blast
  ultimately show ?thesis using assms(1,5,7,8) sess_ok_filter [of "U_dialled s" "U_sessions s" P]
    unfolding udp_inv_def assms(2) by (auto simp: assms(3) assms(2))
qed

lemma pc_ok_shrink:
  assumes "pc_ok cfg s pc" "U_dialled s' = U_dialled s" "U_sessions s' = filter P (U_sessions s)"
  shows "pc_ok cfg s' pc"
proof -
  have "int (length (filter P (U_sessions s))) < n" if "int (length (U_sessions s)) < n" for n
    using that length_filter_le [of P "U_sessions s"] by linarith
  moreover have "map_of (U_sessions s) k = None \<Longrightarrow> map_of (filter P (U_sessions s)) k = None" for k
    by (auto simp: map_of_eq_None_iff)
  ultimately show ?thesis using assms by (cases pc) simp_all
qed

lemma pending_fresh:
  assumes "udp_inv cfg s"
  shows "pending s \<inter> ups (U_sessions s) = {}"
proof -
  have "up \<notin> ups (U_sessions s)" if pc: "U_pc s = PcInsert key payload up" for key payload up
  proof
    assume "up \<in> ups (U_sessions s)"
    then obtain k x where "(k, x) \<in> set (U_sessions s)" "US_up x = up" by (auto simp: mem_ups)
    moreover from this have "map_of (U_dialled s) up = Some k" using assms sess_okD unfolding udp_inv_def by blast
    moreover have "map_of (U_sessions s) key = None" "map_of (U_dialled s) up = Some key" using assms pc by (auto simp: udp_inv_def)
    ultimately show False by (force simp: map_of_None_iff)
  qed
  then show ?thesis by (auto simp: pending_def split: udp_pc.splits)
qed

lemma pc_ok_cong:
  "U_sessions s' = U_sessions s \<Longrightarrow> U_dialled s' = U_dialled s \<Longrightarrow> pc_ok cfg s' pc = pc_ok cfg s pc"
  by (cases pc) simp_all

lemma udp_inv_pc:
  assumes "udp_inv cfg s" "pending (s\<lparr>U_pc := pc\<rparr>) = pending s" "pc_ok cfg s pc"
  shows "udp_inv cfg (s\<lparr>U_pc := pc\<rparr>)"
  using assms pc_ok_cong [of "s\<lparr>U_pc := pc\<rparr>" s cfg pc] by (simp add: udp_inv_def)

lemma udp_inv_touch:
  assumes "udp_inv cfg s"
  shows "udp_inv cfg (touchSession k now s)"
proof (cases "map_of (U_sessions s) k")
  case (Some x)
  let ?m = "AList.update k (x\<lparr>US_last := now\<rparr>) (U_sessions s)"
  have ok: "sess_ok (U_dialled s) (U_sessions s)" using assms by (simp add: udp_inv_def)
  then have "(k, x) \<in> set (U_sessions s)" using Some by (simp add: sess_ok_lookup)
  then have "sess_ok (U_dialled s) ?m" using sess_okD [OF ok] by (intro sess_ok_update [OF ok]) auto
  moreover have "ups ?m = ups (U_sessions s)" using ok Some by (rule ups_update_same) simp
  moreover have len: "length ?m = length (U_sessions s)" using Some map_of_None_iff [of "U_sessions s" k] by (auto simp: length_update)
  moreover have "pc_ok cfg (s\<lparr>U_sessions := ?m\<rparr>) (U_pc s)" using assms Some len
    by (cases "U_pc s") (auto simp: udp_inv_def)
  ultimately show ?thesis using assms Some by (simp add: touchSession_def udp_inv_def pending_def)
qed (simp add: touchSession_def assms)

lemma touch_simps [simp]:
  "U_pc (touchSession k now s) = U_pc s" "U_dialled (touchSession k now s) = U_dialled s" "U_open (touchSession k now s) = U_open s"
  "U_leaving (touchSession k now s) = U_leaving s" "U_cancelled (touchSession k now s) = U_cancelled s" "U_listening (touchSession k now s) = U_listening s"
  "U_sent (touchSession k now s) = U_sent s" "U_back (touchSession k now s) = U_back s" "U_pumps (touchSession k now s) = U_pumps s"
  by (simp_all add: touchSession_def split: option.splits)

lemma udp_inv_owner: "udp_inv cfg s \<Longrightarrow> map_of (U_sessions s) k = Some x \<Longrightarrow> map_of (U_dialled s) (US_up x) = Some k"
  using sess_okD [of "U_dialled s" "U_sessions s" k x] sess_ok_lookup [of "U_dialled s" "U_sessions s" k x] by (simp add: udp_inv_def)

lemma onDatagram_inv:
  assumes "udp_inv cfg s" "U_pc s = PcRead"
  shows "udp_inv cfg (onDatagram (RC_MaxSessions cfg) key payload now s)"
proof (cases "map_of (U_sessions s) key")
  case None
  show ?thesis
  proof (cases "RC_MaxSessions cfg \<le> int (length (U_sessions s))")
    case False
    then show ?thesis using None assms by (auto simp: onDatagram_def pending_def intro: udp_inv_pc)
  qed (simp add: onDatagram_def None assms)
next
  case (Some x)
  have "udp_inv cfg ((touchSession key now s)\<lparr>U_pc := PcWrite key (US_up x) payload\<rparr>)"
    using udp_inv_owner [OF assms(1) Some] assms(2) by (intro udp_inv_pc udp_inv_touch assms(1)) (simp_all add: pending_def)
  then show ?thesis by (simp add: onDatagram_def Some)
qed

lemma closeAll_inv:
  assumes "udp_inv cfg s" "pending s = {}" "pc \<in> {PcStopped, PcReturned}"
  shows "udp_inv cfg ((closeAll s)\<lparr>U_pc := pc\<rparr>)"
proof (rule udp_inv_shrink [OF assms(1), where P = "\<lambda>_. False"])
  show "(closeAll s)\<lparr>U_pc := pc\<rparr> = s\<lparr>U_sessions := [], U_count := int (length ([] :: (string \<times> udpSession) list)),
      U_open := filter (\<lambda>u. u \<notin> ups (U_sessions s)) (U_open s), U_pumps := U_pumps s, U_leaving := U_leaving s, U_pc := pc\<rparr>"
    by (simp add: closeAll_def putSessions_def ups_def)
qed (use assms in \<open>auto simp: udp_inv_def pending_def closeAll_def putSessions_def split: udp_pc.splits\<close>)

lemma sweep_inv:
  assumes "udp_inv cfg s"
  shows "udp_inv cfg (sweep idle now s)"
proof -
  let ?P = "\<lambda>(k, x). \<not> idle < now - US_last x"
  let ?m = "filter ?P (U_sessions s)" and ?gone = "filter (\<lambda>e. \<not> ?P e) (U_sessions s)"
  let ?o = "filter (\<lambda>u. u \<notin> ups ?gone) (U_open s)"
  have gone: "filter (\<lambda>(k, x). idle < now - US_last x) (U_sessions s) = ?gone" by (rule filter_cong) auto
  have s': "sweep idle now s = s\<lparr>U_sessions := ?m, U_count := int (length ?m), U_open := ?o, U_pumps := U_pumps s,
      U_leaving := U_leaving s, U_pc := U_pc s\<rparr>"
    unfolding sweep_def Let_def gone by (simp add: putSessions_def ups_def)
  have "ups ?m = ups (U_sessions s) - ups ?gone" using assms by (intro ups_filter [of "U_dialled s"]) (simp add: udp_inv_def)
  moreover have "ups ?gone \<subseteq> ups (U_sessions s)" by (auto simp: ups_def)
  ultimately have "set ?o - set (U_leaving s) = ups ?m \<union> pending (sweep idle now s)"
    using assms pending_fresh [OF assms] by (auto simp: s' udp_inv_def pending_def)
  then show ?thesis
    using assms pc_ok_shrink [of cfg s "U_pc s" "sweep idle now s" ?P]
    by (intro udp_inv_shrink [OF assms refl s']) (auto simp: udp_inv_def s' pending_def)
qed

text \<open>One session is removed, and its socket is closed or about to be.\<close>

lemma udp_inv_remove:
  assumes "udp_inv cfg s" "map_of (U_sessions s) key = Some x" "US_up x = up" "set pumps' \<subseteq> set (U_pumps s)"
    and "set open' - set leaving' = set (U_open s) - set (U_leaving s) - {up}" "\<forall>u\<in>set leaving'. u < U_next s"
    and "s' = (putSessions (AList.delete key (U_sessions s)) s)\<lparr>U_open := open', U_pumps := pumps', U_leaving := leaving'\<rparr>"
  shows "udp_inv cfg s'"
proof -
  let ?m = "filter (\<lambda>e. fst e \<noteq> key) (U_sessions s)"
  have s': "s' = s\<lparr>U_sessions := ?m, U_count := int (length ?m), U_open := open', U_pumps := pumps', U_leaving := leaving', U_pc := U_pc s\<rparr>"
    by (simp add: assms(7) putSessions_def delete_filter)
  have ok: "sess_ok (U_dialled s) (U_sessions s)" using assms(1) by (simp add: udp_inv_def)
  have "ups ?m = ups (U_sessions s) - {up}" using ups_delete [OF ok assms(2)] assms(3) by (simp add: delete_filter)
  moreover have "up \<in> ups (U_sessions s)" using ok assms(2,3) by (auto simp: mem_ups_lookup)
  ultimately have "set open' - set leaving' = ups ?m \<union> pending s'"
    using assms(1,5) pending_fresh [OF assms(1)] by (auto simp: s' udp_inv_def pending_def)
  then show ?thesis
    using assms(1) pc_ok_shrink [of cfg s "U_pc s" s' "\<lambda>e. fst e \<noteq> key"]
    by (intro udp_inv_shrink [OF assms(1) refl s' _ _ assms(4,6)]) (auto simp: udp_inv_def s' pending_def)
qed

lemma udp_inv_leaving: "udp_inv cfg s \<Longrightarrow> \<forall>u\<in>set (U_leaving s). u < U_next s"
  by (simp add: udp_inv_def)

lemma dropSession_inv:
  assumes "udp_inv cfg s"
  shows "udp_inv cfg (dropSession key up s)"
proof (cases "map_of (U_sessions s) key")
  case (Some x)
  let ?d = "(putSessions (AList.delete key (U_sessions s)) s)\<lparr>U_open := removeAll up (U_open s), U_pumps := U_pumps s, U_leaving := U_leaving s\<rparr>"
  have "closeUp up (putSessions (AList.delete key (U_sessions s)) s) = ?d" by (simp add: closeUp_def putSessions_def)
  moreover have "udp_inv cfg ?d" if "US_up x = up"
    by (rule udp_inv_remove [OF assms Some that order_refl _ udp_inv_leaving [OF assms] refl]) auto
  ultimately show ?thesis using Some assms by (simp add: dropSession_def)
qed (simp add: dropSession_def assms)

lemma dropSession_pc [simp]: "U_pc (dropSession key up s) = U_pc s"
  by (simp add: dropSession_def closeUp_def putSessions_def split: option.splits)

lemma udp_inv_pump: "udp_inv cfg s \<Longrightarrow> (up, client) \<in> set (U_pumps s) \<Longrightarrow> map_of (U_dialled s) up = Some client \<and> up \<notin> pending s"
  by (simp add: udp_inv_def)

text \<open>A pump whose session is gone has a closed socket already.\<close>

lemma pumpLeave_inv:
  assumes "udp_inv cfg s" "(up, client) \<in> set (U_pumps s)"
  shows "udp_inv cfg (pumpLeave up client s)"
proof -
  have owner: "map_of (U_dialled s) up = Some client" "up \<notin> pending s" using udp_inv_pump [OF assms] by blast+
  then have "up \<in> set (gokeys (U_dialled s))" by (metis map_of_None_iff option.distinct(1))
  then have le: "\<forall>u\<in>set (up # U_leaving s). u < U_next s" using assms(1) by (auto simp: udp_inv_def)
  show ?thesis
  proof (cases "\<exists>x. map_of (U_sessions s) client = Some x \<and> US_up x = up")
    case True
    then obtain x where x: "map_of (U_sessions s) client = Some x" "US_up x = up" by blast
    show ?thesis
      by (rule udp_inv_remove [OF assms(1) x, where pumps' = "removeAll (up, client) (U_pumps s)" and open' = "U_open s", OF _ _ le])
        (auto simp: pumpLeave_def x Let_def putSessions_def)
  next
    case False
    then have "pumpLeave up client s = s\<lparr>U_pumps := removeAll (up, client) (U_pumps s), U_leaving := up # U_leaving s\<rparr>"
      by (auto simp: pumpLeave_def Let_def split: option.splits)
    moreover have "up \<notin> ups (U_sessions s)"
    proof
      assume "up \<in> ups (U_sessions s)"
      then obtain k x where "map_of (U_sessions s) k = Some x" "US_up x = up"
        using assms(1) by (auto simp: udp_inv_def mem_ups_lookup)
      with udp_inv_owner [OF assms(1)] owner False show False by fastforce
    qed
    ultimately show ?thesis
      using assms(1) owner(2) le pc_ok_cong [of "s\<lparr>U_pumps := removeAll (up, client) (U_pumps s), U_leaving := up # U_leaving s\<rparr>" s cfg "U_pc s"]
      by (auto simp: udp_inv_def pending_def)
  qed
qed

lemma pumpExit_inv:
  assumes "udp_inv cfg s" "up \<in> set (U_leaving s)"
  shows "udp_inv cfg (pumpExit up s)"
proof -
  have "set (removeAll up (U_open s)) - set (removeAll up (U_leaving s)) = set (U_open s) - set (U_leaving s)" using assms(2) by auto
  then show ?thesis
    using assms(1) pc_ok_cong [of "pumpExit up s" s cfg "U_pc s"] by (auto simp: udp_inv_def pumpExit_def closeUp_def pending_def)
qed

lemma onReply_inv:
  assumes "udp_inv cfg s" "map_of (U_pumps s) up = Some client"
  shows "udp_inv cfg (onReply up client payload now s)"
proof -
  let ?s = "case map_of (U_sessions s) client of Some x \<Rightarrow> if US_up x = up then touchSession client now s else s | None \<Rightarrow> s"
  have inv: "udp_inv cfg ?s" using assms(1) udp_inv_touch by (simp split: option.splits)
  have "map_of (U_dialled s) up = Some client" using assms map_of_SomeD [OF assms(2)] by (auto simp: udp_inv_def)
  then have "map_of (U_dialled ?s) up = Some client" by (simp split: option.splits)
  with inv show ?thesis
    using pc_ok_cong [of "?s\<lparr>U_back := (client, up, payload) # U_back ?s\<rparr>" ?s cfg "U_pc ?s"]
    by (auto simp: onReply_def Let_def udp_inv_def pending_def)
qed

text \<open>The second look never finds a session, nor a full map: only the read loop inserts.\<close>

lemma insertSession_creates:
  assumes "udp_inv cfg s" "U_pc s = PcInsert key payload up"
  shows "insertSession (RC_MaxSessions cfg) key payload up now s =
    (putSessions (AList.update key \<lparr>US_client = key, US_up = up, US_last = now\<rparr> (U_sessions s)) s)
      \<lparr>U_pumps := (up, key) # U_pumps s, U_pc := PcWrite key up payload\<rparr>"
  using assms by (auto simp: insertSession_def udp_inv_def)

lemma insertSession_inv:
  assumes "udp_inv cfg s" "U_pc s = PcInsert key payload up"
  shows "udp_inv cfg (insertSession (RC_MaxSessions cfg) key payload up now s)"
proof -
  let ?x = "\<lparr>US_client = key, US_up = up, US_last = now\<rparr>"
  have ok: "sess_ok (U_dialled s) (U_sessions s)" "map_of (U_sessions s) key = None" "map_of (U_dialled s) up = Some key"
    "int (length (U_sessions s)) < RC_MaxSessions cfg" "set (U_open s) - set (U_leaving s) = insert up (ups (U_sessions s))"
    using assms by (auto simp: udp_inv_def pending_def)
  have "sess_ok (U_dialled s) (AList.update key ?x (U_sessions s))" using ok by (intro sess_ok_update) simp_all
  moreover have "ups (AList.update key ?x (U_sessions s)) = insert up (ups (U_sessions s))" using ups_update_new [OF ok(1,2)] by simp
  moreover have "length (AList.update key ?x (U_sessions s)) = Suc (length (U_sessions s))"
    using ok(2) by (simp add: length_update map_of_None_iff)
  ultimately show ?thesis
    using assms(1) ok(3-5) unfolding insertSession_creates [OF assms] by (auto simp: udp_inv_def putSessions_def pending_def)
qed

lemma dial_inv:
  assumes "udp_inv cfg s" "U_pc s = PcDial key payload" "up = U_next s"
  shows "udp_inv cfg (s\<lparr>U_open := up # U_open s, U_next := Suc up, U_dialled := (up, key) # U_dialled s, U_pc := PcInsert key payload up\<rparr>)"
proof -
  have fresh: "up \<notin> set (gokeys (U_dialled s))" using assms by (auto simp: udp_inv_def)
  then have old: "map_of (U_dialled s) u = Some c \<Longrightarrow> u \<noteq> up" for u c by (metis map_of_None_iff option.distinct(1))
  have "sess_ok ((up, key) # U_dialled s) (U_sessions s)" using assms(1) fresh by (intro sess_ok_dial) (simp_all add: udp_inv_def)
  then show ?thesis using assms old
    by (auto simp: udp_inv_def pending_def less_Suc_eq)
qed

lemma udp_inv_cancel: "udp_inv cfg s \<Longrightarrow> udp_inv cfg (s\<lparr>U_cancelled := True\<rparr>)"
  using pc_ok_cong [of "s\<lparr>U_cancelled := True\<rparr>" s cfg "U_pc s"] by (simp add: udp_inv_def pending_def)

lemma udp_inv_closeListen: "udp_inv cfg s \<Longrightarrow> U_cancelled s \<Longrightarrow> udp_inv cfg (s\<lparr>U_listening := False\<rparr>)"
  using pc_ok_cong [of "s\<lparr>U_listening := False\<rparr>" s cfg "U_pc s"] by (simp add: udp_inv_def pending_def)

lemma udpStep_inv:
  assumes "udp_inv cfg s" "udpStep cfg ev s = Some s'"
  shows "udp_inv cfg s'"
proof (cases ev)
  case (UdpRecv key payload now)
  then show ?thesis using assms onDatagram_inv by (auto split: if_splits)
next
  case UdpCancel
  with assms(2) have "s' = s\<lparr>U_cancelled := True\<rparr>" by simp
  then show ?thesis using udp_inv_cancel [OF assms(1)] by simp
next
  case UdpCloseListen
  with assms(2) have "U_cancelled s" "s' = s\<lparr>U_listening := False\<rparr>" by (auto split: if_splits)
  then show ?thesis using udp_inv_closeListen [OF assms(1)] by simp
next
  case UdpReadErr
  with assms have pc: "U_pc s = PcRead" "s' = (if U_cancelled s then closeAll s else s)\<lparr>U_pc := PcStopped\<rparr>" by (auto split: if_splits)
  then have "pending s = {}" by (simp add: pending_def)
  then show ?thesis
    using pc closeAll_inv [OF assms(1), of PcStopped] udp_inv_pc [OF assms(1), of PcStopped] by (auto simp: pending_def)
next
  case UdpDialErr
  then show ?thesis using assms by (auto simp: pending_def intro!: udp_inv_pc split: udp_pc.splits)
next
  case UdpDialOK
  then show ?thesis using assms dial_inv [OF assms(1) _ refl] by (auto simp: Let_def split: udp_pc.splits)
next
  case (UdpInsert now)
  then show ?thesis using assms insertSession_inv [OF assms(1)] by (auto split: udp_pc.splits)
next
  case UdpWriteOK
  then obtain key up payload where w: "U_pc s = PcWrite key up payload" "s' = s\<lparr>U_sent := (key, up, payload) # U_sent s, U_pc := PcRead\<rparr>"
    using assms(2) by (auto split: udp_pc.splits if_splits)
  then show ?thesis using assms(1) by (auto simp: udp_inv_def pending_def)
next
  case UdpWriteErr
  then obtain key up payload where w: "U_pc s = PcWrite key up payload" "s' = (dropSession key up s)\<lparr>U_pc := PcRead\<rparr>"
    using assms(2) by (auto split: udp_pc.splits)
  then show ?thesis using dropSession_inv [OF assms(1), of key up] by (auto simp: pending_def intro!: udp_inv_pc)
next
  case (UdpSweep now)
  then show ?thesis using assms sweep_inv by (auto split: if_splits)
next
  case (UdpReply up payload now)
  then show ?thesis using assms onReply_inv [OF assms(1)] by (auto split: option.splits if_splits)
next
  case (UdpPumpLeave up client)
  then show ?thesis using assms pumpLeave_inv [OF assms(1)] by (auto split: if_splits)
next
  case (UdpPumpExit up)
  then show ?thesis using assms pumpExit_inv [OF assms(1)] by (auto split: if_splits)
next
  case UdpReturn
  then have "pending s = {}" "s' = (closeAll s)\<lparr>U_pc := PcReturned\<rparr>" using assms(2) by (auto simp: pending_def split: if_splits)
  then show ?thesis using closeAll_inv [OF assms(1)] by simp
qed

lemma udp_reach_inv: "udp_reach cfg s \<Longrightarrow> 0 \<le> RC_MaxSessions cfg \<Longrightarrow> udp_inv cfg s"
proof (induction rule: udp_reach.induct)
  case started
  then show ?case by (simp add: udpStart_def udp_inv_def sess_ok_def pending_def)
next
  case (steps s ev s')
  then show ?case using udpStep_inv by blast
qed

lemma relay_New_limits: "relay_New cfg0 = Inr r \<Longrightarrow> 0 < RC_MaxConns (RT_cfg r) \<and> 0 < RC_MaxSessions (RT_cfg r)"
  by (auto simp: relay_New_def relay_withDefaults_def Let_def split: option.splits)

text \<open>A run over a list of events, for the examples.\<close>

fun udpRun :: "relay_Config \<Rightarrow> udp_event list \<Rightarrow> udp_state \<Rightarrow> udp_state option" where
  "udpRun cfg [] s = Some s"
| "udpRun cfg (ev # evs) s = (case udpStep cfg ev s of None \<Rightarrow> None | Some s' \<Rightarrow> udpRun cfg evs s')"

lemma udpRun_reach: "udpRun cfg evs s = Some s' \<Longrightarrow> udp_reach cfg s \<Longrightarrow> udp_reach cfg s'"
  by (induction evs arbitrary: s) (auto split: option.splits intro: udp_reach.steps)

section \<open>The TCP relay\<close>

text \<open>The deadlines aside, the relay copies as the proxy does, so what is known of the one holds for the other.\<close>

lemma relay_copyStream_eq: "snd (relay_copyStream idle rs ws) = copyStream (map snd rs) (map snd ws)"
proof (induction idle rs ws rule: relay_copyStream.induct)
  case (2 idle t d er rs ws)
  show ?case
  proof (cases "d = []")
    case True
    then show ?thesis using 2(2) by (cases er) (auto simp: Let_def split: prod.splits)
  next
    case False
    then show ?thesis
    proof (cases ws)
      case (Cons w ws')
      obtain tw nw ew where w: "w = (tw, nw, ew)" by (cases w)
      then show ?thesis using False Cons 2(1) [OF refl False Cons w [symmetric] refl refl] by (cases er) (auto simp: Let_def split: prod.splits)
    qed (simp add: Let_def)
  qed
qed simp

lemma relay_copyStream_prefix: "prefix (fst (snd (relay_copyStream idle rs ws))) (concat (map (fst \<circ> snd) rs))"
  using copyStream_prefix [of "map snd rs" "map snd ws"] by (simp add: relay_copyStream_eq comp_def)




definition readCalls :: "duration \<Rightarrow> gotime list \<Rightarrow> io_op list" where
  "readCalls idle ts = concat (map (\<lambda>t. (if 0 < idle then [SetReadDeadline (t + idle)] else []) @ [ReadOp]) ts)"

definition writeCalls :: "duration \<Rightarrow> (gotime \<times> string) list \<Rightarrow> io_op list" where
  "writeCalls idle ws = concat (map (\<lambda>(t, d). (if 0 < idle then [SetWriteDeadline (t + idle)] else []) @ [WriteOp d]) ws)"

definition chunks :: "(gotime \<times> string \<times> io_err option) list \<Rightarrow> string list" where
  "chunks rs = filter (\<lambda>d. d \<noteq> []) (map (fst \<circ> snd) rs)"

lemma calls_simps [simp]:
  "readCalls idle [] = []" "readCalls idle (t # ts) = (if 0 < idle then [SetReadDeadline (t + idle), ReadOp] else [ReadOp]) @ readCalls idle ts"
  "writeCalls idle [] = []"
  "writeCalls idle ((t, d) # ws) = (if 0 < idle then [SetWriteDeadline (t + idle), WriteOp d] else [WriteOp d]) @ writeCalls idle ws"
  "chunks [] = []" "chunks ((t', d', er) # rs) = (if d' = [] then chunks rs else d' # chunks rs)"
  by (simp_all add: readCalls_def writeCalls_def chunks_def)



inductive tcp_reach :: "relay_Config \<Rightarrow> tcp_relay \<Rightarrow> bool" for cfg0 where
  new: "relay_New cfg0 = Inr r \<Longrightarrow> tcp_reach cfg0 r"
| step: "tcp_reach cfg0 r \<Longrightarrow> tcpStep ev r = Some r' \<Longrightarrow> tcp_reach cfg0 r'"

definition tcp_inv :: "tcp_relay \<Rightarrow> bool" where
  "tcp_inv r \<longleftrightarrow> 0 < RC_MaxConns (RT_cfg r) \<and> RT_conns r = int (length (RT_running r)) \<and> RT_conns r \<le> RC_MaxConns (RT_cfg r)
     \<and> distinct (RT_running r) \<and> set (RT_running r) \<inter> set (RT_closed r) = {}"

lemma length_remove1_int: "x \<in> set xs \<Longrightarrow> int (length (remove1 x xs)) = int (length xs) - 1"
  by (induction xs) auto

lemma tcpStep_inv: "tcp_inv r \<Longrightarrow> tcpStep ev r = Some r' \<Longrightarrow> tcp_inv r'"
  by (cases ev) (auto simp: tcp_inv_def Let_def length_remove1_int simp del: length_remove1 split: if_splits)

lemma tcp_reach_inv: "tcp_reach cfg0 r \<Longrightarrow> tcp_inv r"
proof (induction rule: tcp_reach.induct)
  case (new r)
  then show ?case using relay_New_limits [OF new] by (auto simp: relay_New_def tcp_inv_def Let_def split: option.splits)
qed (rule tcpStep_inv)

section \<open>An example\<close>

definition example_relay_cfg :: relay_Config where
  "example_relay_cfg =
     \<lparr>RC_Protocol = ''udp'', RC_Listen = '':18080'', RC_Target = ''db:5432'', RC_DialTimeout = 0, RC_IdleTimeout = 0,
      RC_ShutdownTimeout = 0, RC_MaxConns = 0, RC_MaxSessions = 1, RC_SessionIdle = 0, RC_UDPBufferSize = 0\<rparr>"

definition example_relay :: tcp_relay where
  "example_relay = \<lparr>RT_cfg = relay_withDefaults example_relay_cfg, RT_listenAddr = '''', RT_conns = 0, RT_running = [], RT_closed = [], RT_stopped = None\<rparr>"

lemma example_relay_New: "relay_New example_relay_cfg = Inr example_relay"
  by code_simp

text \<open>One client is served, a second one is refused at the limit of one session.\<close>

definition example_udp :: udp_state where
  "example_udp = the (udpRun (RT_cfg example_relay)
     [UdpRecv ''c1'' ''a'' 0, UdpDialOK, UdpInsert 0, UdpWriteOK, UdpRecv ''c2'' ''b'' 1, UdpReply 0 ''A'' 2] udpStart)"

definition example_dialled :: udp_state where
  "example_dialled = the (udpRun (RT_cfg example_relay) [UdpRecv ''c1'' ''a'' 0, UdpDialOK] udpStart)"

lemma example_udp_state:
  "example_udp = \<lparr>U_sessions = [(''c1'', \<lparr>US_client = ''c1'', US_up = 0, US_last = 2\<rparr>)], U_count = 1, U_open = [0], U_pumps = [(0, ''c1'')],
     U_leaving = [], U_cancelled = False, U_listening = True, U_pc = PcRead, U_next = 1, U_dialled = [(0, ''c1'')], U_sent = [(''c1'', 0, ''a'')], U_back = [(''c1'', 0, ''A'')]\<rparr>"
  by code_simp

lemma example_dialled_state:
  "example_dialled = \<lparr>U_sessions = [], U_count = 0, U_open = [0], U_pumps = [],
     U_leaving = [], U_cancelled = False, U_listening = True, U_pc = PcInsert ''c1'' ''a'' 0, U_next = 1,
     U_dialled = [(0, ''c1'')], U_sent = [], U_back = []\<rparr>"
  by code_simp

lemma udpRun_the: "udpRun cfg evs udpStart \<noteq> None \<Longrightarrow> udp_reach cfg (the (udpRun cfg evs udpStart))"
  using udpRun_reach udp_reach.started by force

text \<open>
  The socket of an ended session can outlive it: a second session's socket is dialled, and the relay returns
  after a failed read while the first pump has not closed its own.
\<close>

definition udp_overlap :: "udp_event list" where
  "udp_overlap = [UdpRecv ''c1'' ''a'' 0, UdpDialOK, UdpInsert 0, UdpWriteOK, UdpPumpLeave 0 ''c1'', UdpRecv ''c2'' ''b'' 1, UdpDialOK]"

definition example_overlap :: udp_state where
  "example_overlap = the (udpRun (RT_cfg example_relay) udp_overlap udpStart)"

lemma example_overlap_state:
  "U_open example_overlap = [1, 0]" "U_leaving example_overlap = [0]" "U_sessions example_overlap = []" "U_listening example_overlap"
  unfolding example_overlap_def by code_simp+

lemma example_overlap_reach: "udp_reach (RT_cfg example_relay) example_overlap"
  unfolding example_overlap_def by (rule udpRun_the) code_simp

lemma example_udp_reach: "udp_reach (RT_cfg example_relay) example_udp"
  unfolding example_udp_def by (rule udpRun_the) code_simp

lemma example_dialled_reach: "udp_reach (RT_cfg example_relay) example_dialled"
  unfolding example_dialled_def by (rule udpRun_the) code_simp

section \<open>Properties\<close>

text \<open>
  C37 (bounds).  The UDP relay keeps its limits in every interleaving of its read loop, its
  sweeper and its pumps: at most \<open>MaxSessions\<close> sessions, which is what the counter says; every
  session belongs to one client and has its upstream socket open.  The upstream sockets that are open are those of
  the sessions and the one just dialled, at most \<open>MaxSessions\<close> together, and those that a pump
  is about to close after it has given its session up, which come on top of the limit.  After
  \<open>runUDP\<close> has returned no session is left, and no upstream socket but those that a pump is about to close.
  The listening socket is closed only when the context is done: after a return for any other read
  error it is still open.
\<close>

theorem udp_sessions_bounded:
  assumes "relay_New cfg0 = Inr r" "cfg = RT_cfg r" "udp_reach cfg s"
  shows "int (length (U_sessions s)) \<le> RC_MaxSessions cfg \<and> UDPSessionCount s = int (length (U_sessions s))
    \<and> (\<forall>k x. map_of (U_sessions s) k = Some x \<longrightarrow> US_client x = k \<and> US_up x \<in> set (U_open s) - set (U_leaving s))
    \<and> int (card (set (U_open s) - set (U_leaving s))) \<le> RC_MaxSessions cfg
    \<and> (U_pc s = PcReturned \<longrightarrow> U_sessions s = [] \<and> set (U_open s) \<subseteq> set (U_leaving s))
    \<and> (\<not> U_cancelled s \<longrightarrow> U_listening s)"
proof -
  have inv: "udp_inv cfg s" using relay_New_limits [OF assms(1)] assms(2,3) udp_reach_inv by simp
  then have op: "set (U_open s) - set (U_leaving s) = ups (U_sessions s) \<union> pending s" and ok: "sess_ok (U_dialled s) (U_sessions s)"
    by (simp_all add: udp_inv_def)
  have "card (ups (U_sessions s)) \<le> length (U_sessions s)" unfolding ups_def by (metis card_image_le card_length finite_set length_map order_trans)
  moreover have "card (ups (U_sessions s) \<union> pending s) \<le> card (ups (U_sessions s)) + card (pending s)" by (rule card_Un_le)
  moreover have "int (length (U_sessions s)) + int (card (pending s)) \<le> RC_MaxSessions cfg"
    using inv by (auto simp: udp_inv_def pending_def split: udp_pc.splits)
  ultimately have "int (card (set (U_open s) - set (U_leaving s))) \<le> RC_MaxSessions cfg" unfolding op by linarith
  moreover have "US_client x = k \<and> US_up x \<in> set (U_open s) - set (U_leaving s)" if "map_of (U_sessions s) k = Some x" for k x
    using that sess_okD [OF ok] unfolding op by (auto simp: mem_ups_lookup [OF ok] sess_ok_lookup [OF ok])
  moreover have "U_pc s = PcReturned \<longrightarrow> U_sessions s = [] \<and> set (U_open s) \<subseteq> set (U_leaving s)"
    using inv op by (auto simp: udp_inv_def pending_def)
  ultimately show ?thesis using inv by (auto simp: udp_inv_def UDPSessionCount_def)
qed

theorem udp_sessions_bounded_witness:
  "UDPSessionCount example_udp = 1 \<and> RC_MaxSessions (RT_cfg example_relay) = 1
   \<and> length (U_open example_overlap) = 2 \<and> int (card (set (U_open example_overlap) - set (U_leaving example_overlap))) \<le> 1"
  using udp_sessions_bounded [OF example_relay_New refl example_udp_reach] udp_sessions_bounded [OF example_relay_New refl example_overlap_reach]
  by (simp add: example_udp_state example_overlap_state example_relay_def example_relay_cfg_def relay_withDefaults_def)

text \<open>
  C38 (safety).  Clients are kept apart: all datagrams that are written to one upstream socket come
  from one client, and every reply that is read from it goes back to that client.
\<close>

theorem udp_isolation:
  assumes "relay_New cfg0 = Inr r" "cfg = RT_cfg r" "udp_reach cfg s"
    and "(c, up, p) \<in> set (U_sent s) \<union> set (U_back s)" "(c', up, p') \<in> set (U_sent s) \<union> set (U_back s)"
  shows "c = c'"
proof -
  have "udp_inv cfg s" using relay_New_limits [OF assms(1)] assms(2,3) udp_reach_inv by simp
  then have "map_of (U_dialled s) up = Some c" "map_of (U_dialled s) up = Some c'" using assms(4,5) unfolding udp_inv_def by blast+
  then show ?thesis by simp
qed

theorem udp_isolation_witness: "fst (hd (U_back example_udp)) = fst (hd (U_sent example_udp))"
proof -
  have "(fst (hd (U_back example_udp)), 0, ''A'') \<in> set (U_sent example_udp) \<union> set (U_back example_udp)"
    "(fst (hd (U_sent example_udp)), 0, ''a'') \<in> set (U_sent example_udp) \<union> set (U_back example_udp)"
    by (simp_all add: example_udp_state)
  then show ?thesis by (rule udp_isolation [OF example_relay_New refl example_udp_reach])
qed

text \<open>
  The second look at the session map after the dial always succeeds: no other
  session of the client can have appeared and the limit cannot have been reached in between,
  since only the read loop adds sessions.  So the branch for a lost race and the one for a full map are never
  taken, and every socket that is dialled becomes the client's session with a pump of its own.
\<close>

theorem udp_insert_never_races:
  assumes "relay_New cfg0 = Inr r" "cfg = RT_cfg r" "udp_reach cfg s"
    and "U_pc s = PcInsert key payload up" "udpStep cfg (UdpInsert now) s = Some s'"
  shows "map_of (U_sessions s') = (map_of (U_sessions s))(key \<mapsto> \<lparr>US_client = key, US_up = up, US_last = now\<rparr>)
    \<and> UDPSessionCount s' = UDPSessionCount s + 1 \<and> (up, key) \<in> set (U_pumps s') \<and> U_open s' = U_open s
    \<and> U_pc s' = PcWrite key up payload"
proof -
  have inv: "udp_inv cfg s" using relay_New_limits [OF assms(1)] assms(2,3) udp_reach_inv by simp
  then have "map_of (U_sessions s) key = None" "U_count s = int (length (U_sessions s))" using assms(4) by (auto simp: udp_inv_def)
  moreover have "s' = (putSessions (AList.update key \<lparr>US_client = key, US_up = up, US_last = now\<rparr> (U_sessions s)) s)
      \<lparr>U_pumps := (up, key) # U_pumps s, U_pc := PcWrite key up payload\<rparr>"
    using insertSession_creates [OF inv assms(4)] assms(4,5) by simp
  ultimately show ?thesis by (simp add: putSessions_def UDPSessionCount_def length_update map_of_None_iff)
qed

theorem udp_insert_never_races_witness:
  "\<exists>s'. udpStep (RT_cfg example_relay) (UdpInsert 5) example_dialled = Some s' \<and> UDPSessionCount s' = 1 \<and> (0, ''c1'') \<in> set (U_pumps s')"
proof -
  have pc: "U_pc example_dialled = PcInsert ''c1'' ''a'' 0" by (simp add: example_dialled_state)
  then obtain s' where s': "udpStep (RT_cfg example_relay) (UdpInsert 5) example_dialled = Some s'" by simp
  from udp_insert_never_races [OF example_relay_New refl example_dialled_reach pc s'] s' show ?thesis
    by (simp add: UDPSessionCount_def example_dialled_state)
qed



end
