(* ===== verification/Cmd.thy ===== *)
theory Cmd
  imports Serve Relay
begin

text \<open>
  The command lines of \<open>cmd/stacklane\<close> and \<open>cmd/stacklane-relay\<close>: dispatch, flags, the choice of the
  state directory and exit codes.  What the commands do is in the theories \<open>Serve\<close> and \<open>Relay\<close>; the text that
  package \<open>flag\<close> prints for a command line it refuses is the argument \<open>usage\<close>.
\<close>

section \<open>Arguments\<close>

text \<open>What \<open>FlagSet.Parse\<close> leaves of a command line that it accepts.\<close>

fun restArgs :: "(string \<rightharpoonup> flag_kind) \<Rightarrow> string list \<Rightarrow> string list" where
  "restArgs kinds [] = []"
| "restArgs kinds (a # args) =
     (if length a < 2 \<or> hd a \<noteq> CHR ''-'' then a # args
      else if a = ''--'' then args
      else
        let name0 = (if a ! 1 = CHR ''-'' then drop 2 a else drop 1 a); (name, val) = cutEq name0 in
        if kinds name = Some KBool \<or> val \<noteq> None then restArgs kinds args
        else case args of [] \<Rightarrow> [] | v # args' \<Rightarrow> restArgs kinds args')"

definition flagString :: "(string, flag_value) gomap \<Rightarrow> string \<Rightarrow> string \<Rightarrow> string" where
  "flagString m name dflt = (case map_of m name of Some (VString v) \<Rightarrow> v | _ \<Rightarrow> dflt)"

definition isSet :: "(string, flag_value) gomap \<Rightarrow> string \<Rightarrow> bool" where
  "isSet m name \<longleftrightarrow> map_of m name \<noteq> None"

section \<open>The commands of stacklane\<close>

definition defaultStateDir :: "cfgenv \<Rightarrow> string" where
  "defaultStateDir env = Cfg_StateDir (Defaults env)"

text \<open>
  The state directory of \<open>status\<close> and \<open>resolve\<close>: the flag, the environment, the default, and, if
  there is a configuration that loads and no flag, what that says.
\<close>

definition stateDirOf :: "cfgenv \<Rightarrow> (string, flag_value) gomap \<Rightarrow> string" where
  "stateDirOf env m =
     (let configPath = flagString m ''config'' '''';
          v = X_getenv env ''STACKLANE_STATE_DIR'';
          dir = (if isSet m ''state-dir'' then flagString m ''state-dir'' (defaultStateDir env)
                 else if v \<noteq> '''' then v else defaultStateDir env);
          loadArgs = (if configPath \<noteq> '''' then [''--config'', configPath] else [])
            @ (if isSet m ''state-dir'' then [''--state-dir'', dir] else [])
      in if configPath \<noteq> '''' \<or> X_getenv env ''STACKLANE_CONFIG'' \<noteq> '''' then
           (case Config_Load env loadArgs of
              Inr cfg \<Rightarrow> if isSet m ''state-dir'' then dir else Cfg_StateDir cfg
            | Inl _ \<Rightarrow> dir)
         else dir)"

definition statusKinds :: "string \<rightharpoonup> flag_kind" where
  "statusKinds = map_of [(''state-dir'', KString), (''config'', KString), (''o'', KString), (''output'', KString)]"

definition statusFormat :: "(string, flag_value) gomap \<Rightarrow> string" where
  "statusFormat m =
     (let out = flagString m ''output'' '''' in
      if isSet m ''output'' \<and> out \<noteq> '''' then out else flagString m ''o'' ''text'')"

definition cmdStatus :: "cfgenv \<Rightarrow> string \<Rightarrow> (string \<Rightarrow> string \<Rightarrow> cmd_result) \<Rightarrow> string list \<Rightarrow> cmd_result" where
  "cmdStatus env usage status args =
     (case parseFlags statusKinds args [] of
        (m, False) \<Rightarrow> (2, '''', usage)
      | (m, True) \<Rightarrow> status (stateDirOf env m) (statusFormat m))"

definition resolveKinds :: "string \<rightharpoonup> flag_kind" where
  "resolveKinds = map_of [(''state-dir'', KString), (''config'', KString)]"

definition cmdResolve :: "cfgenv \<Rightarrow> string \<Rightarrow> (string \<Rightarrow> string \<Rightarrow> cmd_result) \<Rightarrow> string list \<Rightarrow> cmd_result" where
  "cmdResolve env usage resolve args =
     (case parseFlags resolveKinds args [] of
        (m, False) \<Rightarrow> (2, '''', usage)
      | (m, True) \<Rightarrow>
          let name = (case restArgs resolveKinds args of [] \<Rightarrow> '''' | a # _ \<Rightarrow> a) in
          resolve (stateDirOf env m) name)"

text \<open>How \<open>Serve\<close> came back: without an error, cancelled, or with another error, and whether the context is done.\<close>

datatype serve_outcome = ServedNil | ServedCanceled | ServedDeadline | ServedErr string bool

definition cmdServe :: "cfgenv \<Rightarrow> (Config \<Rightarrow> serve_outcome) \<Rightarrow> (config_error \<Rightarrow> string) \<Rightarrow> string list \<Rightarrow> cmd_result" where
  "cmdServe env serve errText args =
     (case Config_Load env args of
        Inl e \<Rightarrow> (2, '''', line (''serve: '' @ errText e))
      | Inr cfg \<Rightarrow>
          (case serve cfg of
             ServedNil \<Rightarrow> (0, '''', '''')
           | ServedCanceled \<Rightarrow> (0, '''', '''')
           | ServedDeadline \<Rightarrow> (0, '''', '''')
           | ServedErr err ctxDone \<Rightarrow> if ctxDone then (0, '''', '''') else (1, '''', line (''serve: '' @ err))))"

datatype command = CmdNone | CmdVersion | CmdHelp | CmdServe "string list" | CmdStatus "string list" | CmdResolve "string list" | CmdUnknown string

definition dispatch :: "string list \<Rightarrow> command" where
  "dispatch args =
     (case args of
        [] \<Rightarrow> CmdNone
      | cmd # rest \<Rightarrow>
          if cmd \<in> {''version'', ''-version'', ''--version''} then CmdVersion
          else if cmd \<in> {''help'', ''-h'', ''--help''} then CmdHelp
          else if cmd = ''serve'' then CmdServe rest
          else if cmd = ''status'' then CmdStatus rest
          else if cmd = ''resolve'' then CmdResolve rest
          else CmdUnknown cmd)"

definition Version :: string where "Version = ''0.1.0-dev''"

text \<open>\<open>run\<close> of stacklane, with its subcommands and its help text; \<open>%q\<close> quotes a plain name.\<close>

definition stacklane_run :: "string \<Rightarrow> (string list \<Rightarrow> cmd_result) \<Rightarrow> (string list \<Rightarrow> cmd_result) \<Rightarrow> (string list \<Rightarrow> cmd_result) \<Rightarrow> string list \<Rightarrow> cmd_result" where
  "stacklane_run help serve status resolve args =
     (case dispatch args of
        CmdNone \<Rightarrow> (2, '''', help)
      | CmdVersion \<Rightarrow> (0, line Version, '''')
      | CmdHelp \<Rightarrow> (0, help, '''')
      | CmdServe rest \<Rightarrow> serve rest
      | CmdStatus rest \<Rightarrow> status rest
      | CmdResolve rest \<Rightarrow> resolve rest
      | CmdUnknown cmd \<Rightarrow> (2, '''', line (''unknown command \"'' @ cmd @ ''\"'') @ line '''' @ help))"

section \<open>The command of stacklane-relay\<close>

definition relayKinds :: "string \<rightharpoonup> flag_kind" where
  "relayKinds = map_of
     [(''protocol'', KString), (''listen'', KString), (''target'', KString), (''dial-timeout'', KDuration),
      (''idle-timeout'', KDuration), (''shutdown-timeout'', KDuration), (''max-conns'', KInt), (''max-sessions'', KInt),
      (''session-idle'', KDuration), (''help'', KBool), (''version'', KBool)]"

definition flagDuration :: "(string, flag_value) gomap \<Rightarrow> string \<Rightarrow> duration \<Rightarrow> duration" where
  "flagDuration m name dflt = (case map_of m name of Some (VDuration v) \<Rightarrow> v | _ \<Rightarrow> dflt)"

definition flagInt :: "(string, flag_value) gomap \<Rightarrow> string \<Rightarrow> int \<Rightarrow> int" where
  "flagInt m name dflt = (case map_of m name of Some (VInt v) \<Rightarrow> v | _ \<Rightarrow> dflt)"

definition relayConfigOf :: "(string, flag_value) gomap \<Rightarrow> relay_Config" where
  "relayConfigOf m =
     \<lparr>RC_Protocol = ToLower (TrimSpace (flagString m ''protocol'' '''')), RC_Listen = TrimSpace (flagString m ''listen'' ''''),
      RC_Target = TrimSpace (flagString m ''target'' ''''), RC_DialTimeout = flagDuration m ''dial-timeout'' (3 * second),
      RC_IdleTimeout = flagDuration m ''idle-timeout'' (300 * second),
      RC_ShutdownTimeout = flagDuration m ''shutdown-timeout'' (5 * second), RC_MaxConns = flagInt m ''max-conns'' 1024,
      RC_MaxSessions = flagInt m ''max-sessions'' 1024, RC_SessionIdle = flagDuration m ''session-idle'' (60 * second),
      RC_UDPBufferSize = 0\<rparr>"

text \<open>\<open>run\<close> of the relay: its exit code, given how \<open>Run\<close> of the relay ends.\<close>

definition relay_run :: "(tcp_relay \<Rightarrow> relay_error option) \<Rightarrow> string list \<Rightarrow> nat" where
  "relay_run run args =
     (case parseFlags relayKinds args [] of
        (m, False) \<Rightarrow> 2
      | (m, True) \<Rightarrow>
          if map_of m ''help'' = Some (VBool True) then 0
          else if map_of m ''version'' = Some (VBool True) then 0
          else case relay_New (relayConfigOf m) of
            Inl e \<Rightarrow> 2
          | Inr r \<Rightarrow> (case run r of Some e \<Rightarrow> if e = RelayCtx then 0 else 1 | None \<Rightarrow> 0))"

section \<open>Properties\<close>

lemma stateDirOf_flag: "map_of m ''state-dir'' = Some (VString d) \<Longrightarrow> stateDirOf env m = d"
  by (auto simp: stateDirOf_def isSet_def flagString_def Let_def split: sum.split)

lemma parse_state_dir:
  assumes "name \<noteq> ''''" "hd name \<noteq> CHR ''-''"
  shows "parseFlags resolveKinds (''--state-dir'' # d # name # rest) [] = ([(''state-dir'', VString d)], True)"
    and "restArgs resolveKinds (''--state-dir'' # d # name # rest) = name # rest"
  using assms by (simp_all add: cutEq_def resolveKinds_def flagValue_def)

text \<open>
  Where \<open>stacklane resolve\<close> looks for its flags: \<open>--state-dir\<close> before the name is
  obeyed, whatever the configuration says; flags after the name, the form that the help text shows, have
  no effect at all, and the command asks the daemon of the default state directory or of the environment's.
\<close>

theorem cmdResolve_flag_position:
  assumes "name \<noteq> ''''" "hd name \<noteq> CHR ''-''"
  shows "cmdResolve env usage resolve (''--state-dir'' # d # name # rest) = resolve d name
    \<and> cmdResolve env usage resolve (name # rest) = resolve (stateDirOf env []) name"
proof
  show "cmdResolve env usage resolve (''--state-dir'' # d # name # rest) = resolve d name"
    unfolding cmdResolve_def parse_state_dir [OF assms] by (simp add: stateDirOf_flag)
qed (use assms in \<open>simp add: cmdResolve_def\<close>)

theorem cmdResolve_flag_position_witness:
  "cmdResolve example_env '''' (\<lambda>d n. (0, d, n)) [''shop.lane.test'', ''--state-dir'', ''/srv/lane''] = (0, ''/home/dev/.stacklane'', ''shop.lane.test'')
   \<and> cmdResolve example_env '''' (\<lambda>d n. (0, d, n)) [''--state-dir'', ''/srv/lane'', ''shop.lane.test''] = (0, ''/srv/lane'', ''shop.lane.test'')"
proof -
  have "joinPath ''/home/dev'' ''.stacklane'' = ''/home/dev/.stacklane''" by code_simp
  then have "stateDirOf example_env [] = ''/home/dev/.stacklane''"
    by (simp add: stateDirOf_def isSet_def flagString_def defaultStateDir_def Defaults_def example_env_def)
  then show ?thesis
    using cmdResolve_flag_position [of "''shop.lane.test''" example_env "''''" "\<lambda>d n. (0, d, n)" "''/srv/lane''"] by simp
qed

end
