(* ===== verification/Fake.thy ===== *)
theory Fake
  imports Docker
begin

text \<open>
  Package \<open>internal/dockerapi/fake\<close>: the Docker client in memory that stands in for the SDK.  Its mutex makes
  each critical section one step; between them \<open>Emit\<close> sends to the channels it has copied, and the
  goroutine of a subscription, some time after its context is done, removes and then closes its channel.  A send on a closed channel panics.
\<close>

section \<open>State\<close>

record Fake =
  F_containers :: "Container list option"  \<comment> \<open>\<open>nil\<close> is \<open>None\<close>\<close>
  F_subs :: "nat list"
  F_closed :: bool

definition NewFake :: Fake where
  "NewFake = \<lparr>F_containers = None, F_subs = [], F_closed = False\<rparr>"

text \<open>The copies of a container's labels and ports.\<close>

definition cloneContainer :: "Container \<Rightarrow> Container" where
  "cloneContainer c = c\<lparr>C_Labels := fold (\<lambda>(k, v). AList.update k v) (C_Labels c) [], C_Ports := map id (C_Ports c)\<rparr>"

definition cloneContainers :: "Container list option \<Rightarrow> Container list option" where
  "cloneContainers cs = map_option (map cloneContainer) cs"

definition SetContainers :: "Container list option \<Rightarrow> Fake \<Rightarrow> Fake" where
  "SetContainers cs f = f\<lparr>F_containers := cloneContainers cs\<rparr>"

definition Fake_ListRunning :: "'e option \<Rightarrow> Fake \<Rightarrow> 'e + Container list option" where
  "Fake_ListRunning ctxErr f = (case ctxErr of Some e \<Rightarrow> Inl e | None \<Rightarrow> Inr (cloneContainers (F_containers f)))"

definition Fake_Close :: "Fake \<Rightarrow> Fake" where
  "Fake_Close f = f\<lparr>F_closed := True\<rparr>"

section \<open>Events\<close>

text \<open>
  The running fake: the channels with what they hold (at most 64 events), the channels that are
  closed, the subscriptions whose context is done, those that are removed but not closed yet, and the calls of \<open>Emit\<close> in progress,
  each with the channels left and whether the first attempt at the next one has found it full.
\<close>

record fake_run =
  FR_fake :: Fake
  FR_next :: nat
  FR_chans :: "nat \<Rightarrow> Event list"
  FR_closed :: "nat list"
  FR_ctxDone :: "nat list"
  FR_leaving :: "nat list"
  FR_emits :: "(Event \<times> nat list \<times> bool) list"
  FR_panic :: bool

definition fakeStart :: fake_run where
  "fakeStart = \<lparr>FR_fake = NewFake, FR_next = 0, FR_chans = (\<lambda>_. []), FR_closed = [], FR_ctxDone = [], FR_leaving = [], FR_emits = [], FR_panic = False\<rparr>"

datatype fake_step =
    FkSet "Container list option"
  | FkEvents
  | FkCtxDone nat
  | FkRemove nat
  | FkCloseCh nat
  | FkEmit Event
  | FkSend nat
  | FkRecv nat
  | FkClose

text \<open>The next send of one \<open>Emit\<close>: two attempts, neither of which blocks.\<close>

definition emitSend :: "nat \<Rightarrow> fake_run \<Rightarrow> fake_run option" where
  "emitSend i s =
     (if i \<ge> length (FR_emits s) then None
      else case FR_emits s ! i of
        (ev, [], _) \<Rightarrow> Some (s\<lparr>FR_emits := take i (FR_emits s) @ drop (Suc i) (FR_emits s)\<rparr>)
      | (ev, ch # chs, retried) \<Rightarrow>
          if ch \<in> set (FR_closed s) then Some (s\<lparr>FR_panic := True\<rparr>)
          else if length (FR_chans s ch) < 64 then
            Some (s\<lparr>FR_chans := (FR_chans s)(ch := FR_chans s ch @ [ev]), FR_emits := (FR_emits s)[i := (ev, chs, False)]\<rparr>)
          else if \<not> retried then Some (s\<lparr>FR_emits := (FR_emits s)[i := (ev, ch # chs, True)]\<rparr>)
          else Some (s\<lparr>FR_emits := (FR_emits s)[i := (ev, chs, False)]\<rparr>))"

fun fakeStep :: "fake_step \<Rightarrow> fake_run \<Rightarrow> fake_run option" where
  "fakeStep (FkSet cs) s = Some (s\<lparr>FR_fake := SetContainers cs (FR_fake s)\<rparr>)"
| "fakeStep FkEvents s =
     (let ch = FR_next s; f = FR_fake s in
      Some (s\<lparr>FR_next := Suc ch, FR_fake := f\<lparr>F_subs := F_subs f @ [ch]\<rparr>\<rparr>))"
| "fakeStep (FkCtxDone ch) s = (if ch < FR_next s then Some (s\<lparr>FR_ctxDone := ch # FR_ctxDone s\<rparr>) else None)"
| "fakeStep (FkRemove ch) s =
     (let f = FR_fake s in
      if ch \<in> set (FR_ctxDone s) \<and> ch \<in> set (F_subs f)
      then Some (s\<lparr>FR_fake := f\<lparr>F_subs := filter (\<lambda>c. c \<noteq> ch) (F_subs f)\<rparr>, FR_leaving := ch # FR_leaving s\<rparr>) else None)"
| "fakeStep (FkCloseCh ch) s =
     (if ch \<in> set (FR_leaving s)
      then Some (s\<lparr>FR_leaving := removeAll ch (FR_leaving s), FR_closed := ch # FR_closed s\<rparr>) else None)"
| "fakeStep (FkEmit ev) s = Some (s\<lparr>FR_emits := FR_emits s @ [(ev, F_subs (FR_fake s), False)]\<rparr>)"
| "fakeStep (FkSend i) s = emitSend i s"
| "fakeStep (FkRecv ch) s =
     (case FR_chans s ch of [] \<Rightarrow> None | ev # es \<Rightarrow> Some (s\<lparr>FR_chans := (FR_chans s)(ch := es)\<rparr>))"
| "fakeStep FkClose s = Some (s\<lparr>FR_fake := Fake_Close (FR_fake s)\<rparr>)"

text \<open>
  The states of the fake; with \<open>calm\<close>, of those runs in which no context is cancelled while an \<open>Emit\<close> is in
  progress, and no \<open>Emit\<close> starts before the subscriptions whose context is done have been removed.
\<close>

fun calmStep :: "fake_step \<Rightarrow> fake_run \<Rightarrow> bool" where
  "calmStep (FkCtxDone ch) s \<longleftrightarrow> FR_emits s = []"
| "calmStep (FkEmit ev) s \<longleftrightarrow> set (F_subs (FR_fake s)) \<inter> set (FR_ctxDone s) = {}"
| "calmStep _ s \<longleftrightarrow> True"

inductive fake_reach :: "bool \<Rightarrow> fake_run \<Rightarrow> bool" for calm where
  started: "fake_reach calm fakeStart"
| steps: "fake_reach calm s \<Longrightarrow> \<not> FR_panic s \<Longrightarrow> fakeStep e s = Some s'
    \<Longrightarrow> (calm \<longrightarrow> calmStep e s) \<Longrightarrow> fake_reach calm s'"

section \<open>Invariant\<close>

text \<open>The channels that calls of \<open>Emit\<close> in progress still have to send to.\<close>

definition pendingChans :: "fake_run \<Rightarrow> nat set" where
  "pendingChans s = (\<Union>(ev, chs, b)\<in>set (FR_emits s). set chs)"

definition fake_inv :: "fake_run \<Rightarrow> bool" where
  "fake_inv s \<longleftrightarrow> set (F_subs (FR_fake s)) \<union> set (FR_ctxDone s) \<union> set (FR_leaving s) \<union> set (FR_closed s) \<subseteq> {..<FR_next s}
     \<and> set (F_subs (FR_fake s)) \<inter> (set (FR_leaving s) \<union> set (FR_closed s)) = {} \<and> (\<forall>ch. length (FR_chans s ch) \<le> 64)"

definition calm_inv :: "fake_run \<Rightarrow> bool" where
  "calm_inv s \<longleftrightarrow> \<not> FR_panic s \<and> pendingChans s \<subseteq> set (F_subs (FR_fake s))
     \<and> (FR_emits s \<noteq> [] \<longrightarrow> set (F_subs (FR_fake s)) \<inter> set (FR_ctxDone s) = {})"

lemma pendingChans_sub: "pendingChans s \<subseteq> X \<longleftrightarrow> (\<forall>ev chs b. (ev, chs, b) \<in> set (FR_emits s) \<longrightarrow> set chs \<subseteq> X)"
  unfolding pendingChans_def by fast

lemma pendingChans_put:
  assumes "FR_emits s ! i = (ev, chs, b)" "i < length (FR_emits s)" "set chs' \<subseteq> set chs"
  shows "pendingChans (s\<lparr>FR_emits := (FR_emits s)[i := (ev, chs', b')]\<rparr>) \<subseteq> pendingChans s"
proof -
  have "(ev, chs, b) \<in> set (FR_emits s)" using assms(1,2) nth_mem by metis
  then have "set chs' \<subseteq> pendingChans s" using assms(3) unfolding pendingChans_def by fast
  then show ?thesis using set_update_subset_insert [of "FR_emits s" i "(ev, chs', b')"] unfolding pendingChans_def by fastforce
qed

lemma emitSend_cases:
  assumes "emitSend i s = Some s'"
  obtains (finished) "s' = s\<lparr>FR_emits := take i (FR_emits s) @ drop (Suc i) (FR_emits s)\<rparr>"
  | (panic) ch where "ch \<in> pendingChans s" "ch \<in> set (FR_closed s)" "s' = s\<lparr>FR_panic := True\<rparr>"
  | (sent) m ch ev where "pendingChans (s\<lparr>FR_emits := m\<rparr>) \<subseteq> pendingChans s" "length (FR_chans s ch) < 64"
      "s' = s\<lparr>FR_chans := (FR_chans s)(ch := FR_chans s ch @ [ev]), FR_emits := m\<rparr>"
  | (skipped) m where "pendingChans (s\<lparr>FR_emits := m\<rparr>) \<subseteq> pendingChans s" "s' = s\<lparr>FR_emits := m\<rparr>"
proof -
  have i: "i < length (FR_emits s)" using assms by (auto simp: emitSend_def split: if_splits)
  obtain ev chs b where e: "FR_emits s ! i = (ev, chs, b)" by (cases "FR_emits s ! i") auto
  show thesis
  proof (cases chs)
    case Nil
    then show ?thesis using finished assms i e by (simp add: emitSend_def)
  next
    case (Cons ch chs')
    have ch: "ch \<in> pendingChans s" using e i Cons nth_mem [OF i] unfolding pendingChans_def by force
    have put: "pendingChans (s\<lparr>FR_emits := (FR_emits s)[i := (ev, c, b')]\<rparr>) \<subseteq> pendingChans s" if "c = chs \<or> c = chs'" for c b'
      using that Cons by (intro pendingChans_put [OF e i]) auto
    consider "ch \<in> set (FR_closed s)" "s' = s\<lparr>FR_panic := True\<rparr>"
      | "length (FR_chans s ch) < 64"
          "s' = s\<lparr>FR_chans := (FR_chans s)(ch := FR_chans s ch @ [ev]), FR_emits := (FR_emits s)[i := (ev, chs', False)]\<rparr>"
      | "s' = s\<lparr>FR_emits := (FR_emits s)[i := (ev, chs, True)]\<rparr>" | "s' = s\<lparr>FR_emits := (FR_emits s)[i := (ev, chs', False)]\<rparr>"
      using assms i e Cons by (auto simp: emitSend_def split: if_splits)
    then show ?thesis
    proof cases
      case 1
      with ch show ?thesis by (rule panic)
    next
      case 2
      then show ?thesis by (intro sent [OF put]) auto
    qed (auto intro: skipped [OF put])
  qed
qed

lemma pendingChans_drop: "pendingChans (s\<lparr>FR_emits := take i (FR_emits s) @ drop (Suc i) (FR_emits s)\<rparr>) \<subseteq> pendingChans s"
  unfolding pendingChans_def by (fastforce dest: in_set_takeD in_set_dropD)

lemma fakeStep_inv:
  assumes "fake_inv s" "fakeStep e s = Some s'"
  shows "fake_inv s'"
proof (cases e)
  case (FkSend i)
  with assms(2) have "emitSend i s = Some s'" by simp
  then show ?thesis using assms(1) by (cases rule: emitSend_cases) (auto simp: fake_inv_def)
next
  case (FkRecv ch)
  have "length es \<le> 64" if "FR_chans s ch = v # es" for v es
    using assms(1) that unfolding fake_inv_def by (metis length_Cons Suc_leD)
  then show ?thesis using assms FkRecv by (auto simp: fake_inv_def split: list.splits)
qed (use assms in \<open>auto simp: fake_inv_def Let_def SetContainers_def Fake_Close_def less_Suc_eq split: if_splits\<close>)

lemma emitSend_emits: "emitSend i s = Some s' \<Longrightarrow> FR_emits s \<noteq> [] \<and> FR_fake s' = FR_fake s \<and> FR_ctxDone s' = FR_ctxDone s"
  by (auto simp: emitSend_def split: if_splits prod.splits list.splits)

lemma fakeStep_calm:
  assumes "fake_inv s" "calm_inv s" "fakeStep e s = Some s'" "calmStep e s"
  shows "calm_inv s'"
proof (cases e)
  case (FkSend i)
  with assms(3) have e: "emitSend i s = Some s'" by simp
  note k = emitSend_emits [OF e]
  have sub: "pendingChans s \<subseteq> set (F_subs (FR_fake s))" "set (F_subs (FR_fake s)) \<inter> set (FR_ctxDone s) = {}" "\<not> FR_panic s"
    using assms(2) k unfolding calm_inv_def by blast+
  have "pendingChans s' \<subseteq> pendingChans s \<and> \<not> FR_panic s'"
    using e
  proof (cases rule: emitSend_cases)
    case finished
    then show ?thesis using sub(3) pendingChans_drop [of i s] by simp
  next
    case (panic ch)
    then show ?thesis using assms(1) sub(1) by (auto simp: fake_inv_def)
  next
    case (sent m ch ev)
    then show ?thesis using sub(3) by (simp add: pendingChans_def)
  next
    case (skipped m)
    then show ?thesis using sub(3) by simp
  qed
  then show ?thesis using sub k by (simp add: calm_inv_def) blast
next
  case (FkRemove ch)
  then have "FR_emits s = []" and s': "FR_emits s' = FR_emits s" "FR_panic s' = FR_panic s"
    using assms(2,3) by (auto simp: calm_inv_def Let_def split: if_splits)
  then show ?thesis using assms(2) by (simp add: calm_inv_def pendingChans_def)
qed (use assms in \<open>fastforce simp: calm_inv_def pendingChans_sub fake_inv_def Let_def SetContainers_def Fake_Close_def split: if_splits list.splits\<close>)+

lemma fake_reach_inv: "fake_reach calm s \<Longrightarrow> fake_inv s"
proof (induction rule: fake_reach.induct)
  case started
  show ?case by (simp add: fakeStart_def NewFake_def fake_inv_def)
next
  case (steps s e s')
  then show ?case using fakeStep_inv by blast
qed

lemma fake_reach_calm: "fake_reach True s \<Longrightarrow> calm_inv s"
proof (induction rule: fake_reach.induct)
  case started
  show ?case by (simp add: fakeStart_def calm_inv_def pendingChans_def)
next
  case (steps s e s')
  then show ?case using fake_reach_inv [OF steps(1)] by (auto intro!: fakeStep_calm [of s e s'])
qed

fun fakeRun :: "fake_step list \<Rightarrow> fake_run \<Rightarrow> fake_run option" where
  "fakeRun [] s = Some s"
| "fakeRun (e # es) s = (case fakeStep e s of None \<Rightarrow> None | Some s' \<Rightarrow> if FR_panic s' \<and> es \<noteq> [] then None else fakeRun es s')"

fun calmSteps :: "fake_step list \<Rightarrow> fake_run \<Rightarrow> bool" where
  "calmSteps [] s \<longleftrightarrow> True"
| "calmSteps (e # es) s \<longleftrightarrow> calmStep e s \<and> (case fakeStep e s of None \<Rightarrow> True | Some s' \<Rightarrow> calmSteps es s')"

lemma fakeRun_reach:
  "fakeRun es s = Some s' \<Longrightarrow> fake_reach calm s \<Longrightarrow> \<not> FR_panic s \<Longrightarrow> calm \<longrightarrow> calmSteps es s \<Longrightarrow> fake_reach calm s'"
proof (induction es arbitrary: s)
  case (Cons e es)
  then obtain s1 where s1: "fakeStep e s = Some s1" "fakeRun es s1 = Some s'" "FR_panic s1 \<longrightarrow> es = []"
    by (auto split: option.splits if_splits)
  have "fake_reach calm s1" using Cons.prems s1(1) by (auto intro: fake_reach.steps)
  then show ?case using Cons s1 by (cases "es = []") auto
qed simp

section \<open>Properties\<close>

lemma update_new: "k \<notin> set (gokeys m) \<Longrightarrow> AList.update k v m = m @ [(k, v)]"
  by (induction m) auto

lemma fold_update_distinct:
  assumes "distinct (gokeys xs)" "set (gokeys xs) \<inter> set (gokeys acc) = {}"
  shows "fold (\<lambda>(k, v). AList.update k v) xs acc = acc @ xs"
  using assms
proof (induction xs arbitrary: acc)
  case (Cons x xs)
  obtain k v where x: "x = (k, v)" by (cases x)
  then have "AList.update k v acc = acc @ [(k, v)]" using Cons.prems by (intro update_new) auto
  then show ?case using Cons x by auto
qed simp

text \<open>What the fake is given it returns, as copies.\<close>

lemma Fake_ListRunning_Set:
  assumes "\<forall>c\<in>set cs. distinct (gokeys (C_Labels c))"
  shows "Fake_ListRunning None (SetContainers (Some cs) f) = Inr (Some cs)"
proof -
  have "cloneContainer c = c" if "c \<in> set cs" for c
    using assms that fold_update_distinct [of "C_Labels c" "[]"] by (simp add: cloneContainer_def)
  then have "map cloneContainer cs = cs" by (simp add: map_idI)
  then show ?thesis by (simp add: Fake_ListRunning_def SetContainers_def cloneContainers_def)
qed

definition example_event :: Event where
  "example_event = \<lparr>Ev_Type = ''container'', Ev_Action = ''start'', Ev_ActorID = ''a1'', Ev_Time = 0\<rparr>"

text \<open>
  C40 (safety).  The fake Docker client under all interleavings of its callers and its subscriptions'
  goroutines.  If no context of a subscription is cancelled during an \<open>Emit\<close>, and no \<open>Emit\<close> starts while a
  subscription whose context is done is still listed, it never sends on a closed channel, and never holds
  more than 64 events for a subscriber.  Both conditions are needed: a context that is cancelled during the call, and
  one that is cancelled before it but whose goroutine has not removed the subscription yet, can have the
  channel closed before the send, which panics.
\<close>

theorem fake_emit_safety:
  "(fake_reach True s \<longrightarrow> \<not> FR_panic s \<and> (\<forall>ch. length (FR_chans s ch) \<le> 64)
      \<and> set (F_subs (FR_fake s)) \<inter> set (FR_closed s) = {})
   \<and> (\<exists>s'. fakeRun [FkEvents, FkEmit ev, FkCtxDone 0, FkRemove 0, FkCloseCh 0, FkSend 0] fakeStart = Some s' \<and> FR_panic s')
   \<and> (\<exists>s'. fakeRun [FkEvents, FkCtxDone 0, FkEmit ev, FkRemove 0, FkCloseCh 0, FkSend 0] fakeStart = Some s' \<and> FR_panic s')"
proof (intro conjI impI)
  assume "fake_reach True s"
  then show "\<not> FR_panic s" "\<forall>ch. length (FR_chans s ch) \<le> 64" "set (F_subs (FR_fake s)) \<inter> set (FR_closed s) = {}"
    using fake_reach_inv fake_reach_calm unfolding fake_inv_def calm_inv_def by blast+
qed (simp_all add: fakeStart_def NewFake_def emitSend_def)

theorem fake_emit_safety_witness:
  "\<exists>s. fakeRun [FkEvents, FkEmit example_event, FkSend 0, FkSend 0, FkCtxDone 0, FkRemove 0, FkCloseCh 0, FkEmit example_event] fakeStart = Some s
     \<and> FR_chans s 0 = [example_event] \<and> FR_closed s = [0] \<and> \<not> FR_panic s"
proof -
  let ?es = "[FkEvents, FkEmit example_event, FkSend 0, FkSend 0, FkCtxDone 0, FkRemove 0, FkCloseCh 0, FkEmit example_event]"
  obtain s where s: "fakeRun ?es fakeStart = Some s" "FR_chans s 0 = [example_event]" "FR_closed s = [0]"
    by (simp add: fakeStart_def NewFake_def emitSend_def)
  have "calmSteps ?es fakeStart" by (simp add: fakeStart_def NewFake_def emitSend_def)
  then have "fake_reach True s" by (intro fakeRun_reach [OF s(1) fake_reach.started]) (simp_all add: fakeStart_def)
  with fake_emit_safety [of s] s show ?thesis by blast
qed

end
