(* ===== verification/Spec2Isabelle.thy ===== *)
theory Spec2Isabelle
  imports Cycle Cmd Fake
begin

text \<open>
  \<^bold>\<open>Verification of stacklane.\<close>

  Stacklane is a daemon that gives every Docker Compose stack of a machine a loopback address (a
  VIP) and names.  It reads labels of running containers (\<open>internal/labels\<close>, \<open>internal/dockerapi\<close>),
  leases a VIP of a pool to every stack (\<open>internal/vip\<close>), keeps the leases in a state file
  (\<open>internal/state\<close>), publishes the names in a DNS server (\<open>internal/dns\<close>) and forwards the stacks'
  ports to the containers' ports on 127.0.0.1 (\<open>internal/proxy\<close>).  The engine of \<open>internal/reconcile\<close>
  runs this as a cycle: load the leases, list the containers, release expired leases, build the
  desired state, save the leases, and only then advertise.  \<open>internal/app\<close> starts the daemon and
  serves \<open>status\<close> and \<open>resolve\<close> on a socket, \<open>internal/config\<close> reads the configuration, \<open>cmd\<close> holds the
  command lines, and \<open>internal/relay\<close> is a separate forwarder for one TCP or UDP endpoint.

  \<^bold>\<open>Theories.\<close>  Each models one part, in the order of its code, with one definition for each function
  or block; the map of the manifest names the lines.

  \<^item> \<open>Prelude\<close>: Go maps as association lists, error and option simplification, decimal numerals.
    \<open>Golib\<close>: the functions of \<open>strings\<close> and \<open>strconv\<close> that the code uses.  \<open>Netip\<close>: addresses and
    prefixes on 32- and 128-bit words, their parsing and printing.  \<open>Timefmt\<close>: the calendar, RFC 3339 and
    durations of \<open>time\<close>.  \<open>Json\<close>: \<open>encoding/json\<close> from bytes to values and back.
  \<^item> \<open>Domain\<close>: \<open>internal/domain\<close> (slugs, names, keys).  \<open>Labels\<close>: \<open>internal/labels\<close>.
  \<^item> \<open>Leases\<close>: the snapshot of \<open>internal/state/store.go\<close>, its validation and the invariant \<open>lease_inv\<close>: keys
    and VIPs are distinct IPv4 addresses.  \<open>Pool\<close>, \<open>Allocator\<close>: \<open>internal/vip\<close>.
  \<^item> \<open>Docker\<close>: \<open>internal/dockerapi\<close> (the client, the mapping of its answers and the choice of the binding).
    \<open>Fake\<close>: the Docker client in memory, \<open>internal/dockerapi/fake\<close>.
  \<^item> \<open>Build\<close>, \<open>Apply\<close>, \<open>Engine\<close>: \<open>internal/reconcile\<close>, with \<open>build.go\<close>, \<open>apply.go\<close> and \<open>engine.go\<close>.
  \<^item> \<open>Store\<close>: \<open>jsonstore.go\<close> over an explicit file system.  \<open>Dns\<close>: \<open>internal/dns\<close>.  \<open>Proxy\<close>: \<open>internal/proxy\<close>.
  \<^item> \<open>System\<close>: the engine with its collaborators.  \<open>Configuration\<close>: \<open>internal/config\<close>.  \<open>Control\<close>: the
    control socket of \<open>internal/app\<close> with the commands that use it.  \<open>Serve\<close>: the start and the end of the daemon, its
    states, and its lock.  \<open>Publish\<close>: what clients see of it.  \<open>Cycle\<close>: the states inside a reconcile cycle, in which
    DNS and proxy serve while \<open>apply\<close> saves, sets records and changes listeners one after another.
  \<^item> \<open>Relay\<close>: \<open>internal/relay\<close>.  \<open>Cmd\<close>: \<open>cmd/stacklane\<close> and \<open>cmd/stacklane-relay\<close>.

  \<^bold>\<open>Interfaces.\<close>  What the engine relies on is stated as locales beside the components that provide
  it and interpreted on their definitions: \<open>vip_allocator\<close> (interpreted by \<open>Allocate\<close> and \<open>ReleaseExpired\<close>),
  \<open>lease_store\<close> (by \<open>Load\<close> and \<open>Save\<close>), \<open>dns_controller\<close> (by \<open>SetRecords\<close> and the answers of the server),
  \<open>proxy_manager\<close> (by \<open>Reconcile\<close>).  \<open>reconciler\<close> of \<open>System\<close> joins the four; its lemmas on one cycle are proved from
  the laws alone, and its interpretation \<open>stacklane\<close> carries them over to the system that \<open>Serve\<close> wires up.

  \<^bold>\<open>State and effects.\<close>  State is passed explicitly, in records with the fields of the Go structures; a
  mutex that covers an operation makes it one step.  Errors are values of a sum type.  What the
  operating system, Docker and the clock answer are arguments, so that a theorem holds for every
  answer: \<open>load_fault\<close> and \<open>save_fault\<close> are the failing system calls of the state file, \<open>listen\<close> is \<open>net.Listen\<close>, a
  \<open>cycle\<close> is what one reconcile cycle learns, \<open>serve_env\<close> what the start of the daemon learns.  Where the order of
  goroutines matters there is a step relation: \<open>conn_step\<close> (connection limit), \<open>par_state\<close> (Reconcile
  beside Shutdown), \<open>runSelect\<close> (the engine's \<open>select\<close>, with the trigger channel, the debounce timer and the
  ticker at points of time), \<open>udpStep\<close> (read loop, sweeper, pumps and the end of the context), \<open>fakeStep\<close> (Emit
  beside subscriptions that end).  \<open>reconcileOnce\<close> is one step of the engine's loop; the states that others can
  meet while it runs are the list \<open>cycleStates\<close>, whose last element is its result.  \<open>Save\<close> returns all states
  between its system calls, which are the states a crash can leave.

  \<^bold>\<open>Libraries.\<close>  The standard library is modelled where its answer matters: strings, numbers (with their
  prefixes and underscores), addresses, times, durations (with the rounding of their fractions in 64-bit floating
  point) and JSON (UTF-8 repair, escapes, the scanner with its nesting limit, field matching without regard to
  case, \<open>omitempty\<close>, indentation).  \<open>miekg/dns\<close> is the parameter \<open>mdns\<close> with the hypothesis \<open>mdns_ok\<close>, which
  \<open>plain_mdns\<close> meets; the moby SDK is an argument of \<open>NewClient\<close> and \<open>ListRunning\<close>; \<open>cfgenv\<close> holds the files, the
  variables and the resolution of UDP addresses, with no hypothesis; the texts of JSON errors and of numbers that
  \<open>status -o json\<close> reprints are arguments.

  \<^bold>\<open>What is shown.\<close>  Of the components: the pool is exactly the usable part of a loopback prefix; allocation
  refines a simple map, keeps VIPs and fails only when the pool is used up; the state file is
  replaced atomically and read back as written; slugs, labels and keys are accepted and kept apart as the label
  contract says; the desired state does not depend on the order of the inventory, gives each stack
  one VIP and keeps it; DNS and proxy serve loopback addresses only, and exactly what they were
  given; connections and sessions stay within their limits; every setting of the configuration comes from the
  first of flag, variable, file and default that has it; \<open>status\<close> and \<open>resolve\<close> print what the engine
  has published, whatever bytes travel through the query string and JSON; and one state directory never has two
  daemons.  Of the whole daemon, below: between cycles every address that it advertises is leased on disk, and
  inside a cycle an address is leased on disk before it is advertised; after a cycle that is not cut short
  an endpoint that is not shadowed can be reached by its name.  Some theorems state where the code falls short of its
  intent: \<open>Reconcile_Shutdown_leak\<close>, \<open>run_debounce_starves\<close>, \<open>dns_ttl_truncated\<close>, \<open>serveDNS_apex\<close>,
  \<open>cmdResolve_flag_position\<close>, and the last parts of \<open>good_cycle_stack_names\<close>, \<open>udp_sessions_bounded\<close> and
  \<open>fake_emit_safety\<close>.

  \<^bold>\<open>Bounds.\<close>  There is no fuel: loops are structural recursions or functions with a termination proof.
  Ports, TTLs, addresses and the reconcile counter have their Go widths; Go's \<open>int\<close> and times are unbounded
  integers, and a clock is taken to lie between the years 1 and 9999 (\<open>rfc_time\<close>), which is what RFC 3339 expresses.

  \<^bold>\<open>Not modelled.\<close>  Logging and help texts; the moby SDK; the wire formats of DNS and HTTP; the fsync of the
  state directory after a rename, a failing removal of the temporary file and the process id in the lock file; other
  spellings of one path; letters and spaces beyond ASCII in \<open>strings.ToLower\<close> and \<open>strings.TrimSpace\<close>; the order that
  \<open>sort.Slice\<close> gives to equal elements (the sort is stable here); contexts other than the points at which they
  cancel something; \<open>testdata\<close>, the server of an end-to-end test.  Planned next: the liveness of the proxy after a
  listener that failed to start is retried.
\<close>

section \<open>The daemon as a whole\<close>

text \<open>
  C1 (safety).  Persist before advertise, for the whole daemon, whatever faults the file system,
  \<open>net.Listen\<close> and Docker produce.  Between two cycles each address that the DNS server hands out
  (other than the name server's own) and each address that the proxy listens on is the VIP of a lease in
  the state file.  In every state inside a cycle, between the system calls of the save, the change of the
  records and the start and stop of single listeners, the same holds of each address that was not
  advertised when the cycle began: it is leased on disk before it is advertised.  An address that was
  advertised already is leased on disk, or was when the cycle began: it may be served until the cycle withdraws it although
  the save has just dropped its expired lease.
\<close>

theorem advertised_is_persisted:
  assumes "start_ok md cfg fs" "serveStart env sv md cfg fs t = (t', Inr (lock, sys))" "rests sys (e, w0)" "cycle_ok cy"
    and "w \<in> set (cycleStates lf sf listen cy (e, w0))"
  shows "\<exists>js0 srv0 m0 js srv m. w0 = \<lparr>W_store = Some js0, W_dns = Some (md, srv0), W_proxy = Some m0\<rparr>
    \<and> w = \<lparr>W_store = Some js, W_dns = Some (md, srv), W_proxy = Some m\<rparr>
    \<and> (\<forall>r n ttl v. RR_A n ttl v \<in> set (M_Answer (serveDNS md srv0 r)) \<longrightarrow> v = nsIP srv0 \<or> leased (store_Load js0) v)
    \<and> (\<forall>k ml. map_of (Mgr_listeners m0) k = Some ml \<longrightarrow> leased (store_Load js0) (ML_vip ml))
    \<and> (\<forall>r n ttl v. RR_A n ttl v \<in> set (M_Answer (serveDNS md srv r)) \<longrightarrow>
         v = nsIP srv \<or> leased (store_Load js) v
         \<or> RR_A n ttl v \<in> set (M_Answer (serveDNS md srv0 r)) \<and> leased (store_Load js0) v)
    \<and> (\<forall>k ml. map_of (Mgr_listeners m) k = Some ml \<longrightarrow>
         leased (store_Load js) (ML_vip ml)
         \<or> (\<exists>ml0. map_of (Mgr_listeners m0) k = Some ml0 \<and> ML_vip ml0 = ML_vip ml) \<and> leased (store_Load js0) (ML_vip ml))"
proof -
  obtain pool where inv0: "sys_inv md pool (e, w0)" using rests_inv [OF assms(1-3)] by blast
  then obtain js0 srv0 m0 where w0: "w0 = \<lparr>W_store = Some js0, W_dns = Some (md, srv0), W_proxy = Some m0\<rparr>"
    and i0: "mdns_ok md" "mgr_inv m0" "durable (store_Load js0) (lookupA md srv0) (serves m0)"
    unfolding sys_inv_def ctl_wf_def by auto
  have "sys_inv md pool (reconcileOnce (sysImpls lf sf listen) cy (e, w0))"
    using reconcileOnce_sys_inv [OF inv0 _ assms(4)] by (auto simp: sys_ops_def)
  then obtain js1 srv1 m1 where w1: "snd (reconcileOnce (sysImpls lf sf listen) cy (e, w0))
      = \<lparr>W_store = Some js1, W_dns = Some (md, srv1), W_proxy = Some m1\<rparr>"
    and i1: "mgr_inv m1" "durable (store_Load js1) (lookupA md srv1) (serves m1)"
    unfolding sys_inv_def by auto
  note vip0 = durable_listener [OF i0(3,2)] and vip1 = durable_listener [OF i1(2,1)]
    and ans0 = durable_answer [OF i0(3,1)] and ans1 = durable_answer [OF i1(2) i0(1)]
  obtain js c m where w: "w = \<lparr>W_store = Some js, W_dns = Some c, W_proxy = Some m\<rparr>"
    and parts: "store_Load js = store_Load js0 \<and> c = (md, srv0) \<and> m = m0
     \<or> store_Load js = store_Load js1 \<and> c \<in> {(md, srv0), (md, srv1)} \<and> (kept_in m m0 \<or> kept_in m m1)"
    by (rule cycleStates_parts [OF w0 i0(2) assms(5) w1])
  then obtain srv where c: "c = (md, srv)" and srv: "srv = srv0 \<or> srv = srv1 \<and> store_Load js = store_Load js1" by blast
  have "v = nsIP srv \<or> leased (store_Load js) v \<or> RR_A n ttl v \<in> set (M_Answer (serveDNS md srv0 r)) \<and> leased (store_Load js0) v"
    if "RR_A n ttl v \<in> set (M_Answer (serveDNS md srv r))" for r n ttl v
    using srv ans0 ans1 that by metis
  moreover have "leased (store_Load js) (ML_vip ml)
      \<or> (\<exists>ml0. map_of (Mgr_listeners m0) k = Some ml0 \<and> ML_vip ml0 = ML_vip ml) \<and> leased (store_Load js0) (ML_vip ml)"
    if ml: "map_of (Mgr_listeners m) k = Some ml" for k ml
  proof (cases "kept_in m m0")
    case True
    then show ?thesis using kept_vip [OF _ ml] vip0 by metis
  next
    case False
    then have "kept_in m m1" "store_Load js = store_Load js1" using parts kept_in_refl by auto
    then show ?thesis using kept_vip [OF _ ml] vip1 by metis
  qed
  ultimately show ?thesis using w0 w c ans0 vip0 by blast
qed

theorem advertised_is_persisted_witness:
  "\<exists>js. W_store (R_world lane_up) = Some js \<and> leased (store_Load js) (Addr4 0x7F4D000A)"
proof -
  obtain pool where "sys_inv plain_mdns pool example_sys" using serveStart_sys_inv [OF example_start_ok example_start] by blast
  note inv = daemon_inv [OF lane_daemon this] daemon_inv [OF lane_up_daemon this]
  have w: "R_world lane_up = snd (reconcileOnce (sysImpls None None lane_listen) docker_up (R_engine lane_run, R_world lane_run))"
    by (simp add: lane_up_def runReconcile_def case_prod_unfold)
  obtain m where m: "W_proxy (R_world lane_up) = Some m" "serves m (Ep_VIP web_ep) (Ep_PublicPort web_ep) \<noteq> None"
    using good_cycle_routes_facts [where listen = lane_listen, OF inv(1) docker_up_ok lane_good web_ep_facts(1,2) _ web_ep_facts(4-6) prod.collapse [symmetric]]
      web_ep_facts(3) unfolding w by fastforce
  then have "mgr_inv m" using inv(2) by (auto simp: sys_inv_def)
  moreover have v: "Ep_VIP web_ep = Addr4 0x7F4D000A" by (simp add: web_ep_def)
  ultimately obtain k ml where "map_of (Mgr_listeners m) k = Some ml" "ML_vip ml = Addr4 0x7F4D000A"
    using serves_listener [of m "Ep_VIP web_ep" "Ep_PublicPort web_ep"] m(2) by auto
  moreover have "rests example_sys (R_engine lane_up, R_world lane_up)" using lane_up_daemon by (auto simp: rests_def)
  note advertised_is_persisted [OF example_start_ok example_start this docker_up_ok first_cycleStates]
  ultimately show ?thesis using m(1) by (auto; metis)
qed

text \<open>
  C2 (functional).  From container to client: after a cycle in which Docker answers and the leases
  are saved, an endpoint of the desired state can be reached by its name, provided that it has a host port,
  that \<open>net.Listen\<close> binds its address, that no stack has its name, and that no other endpoint has its VIP and
  port.  DNS answers an A query for its name, in any case, with the VIP of its stack; \<open>stacklane resolve\<close> says the same;
  and the proxy forwards the endpoint's port on that VIP to the port of 127.0.0.1 at which Docker publishes the
  container.  The two last conditions are the ways in which endpoints are shadowed.
\<close>

theorem good_cycle_routes:
  assumes "start_ok md cfg fs" "serveStart env sv md cfg fs t = (t', Inr (lock, sys))" "daemon sys s" "cycle_ok cy"
    and "good_cycle sf cy (R_engine s, R_world s) desired" "map_of (Endpoints desired) mk = Some ep" "Ep_TargetBind ep \<noteq> 0"
    and "\<forall>st\<in>ran (map_of (Stacks desired)). stackName (D_BaseDomain (E_deps (R_engine s))) st \<noteq> Ep_FQDN ep"
    and "\<forall>ep'\<in>ran (map_of (Endpoints desired)). Ep_VIP ep' = Ep_VIP ep \<and> Ep_PublicPort ep' = Ep_PublicPort ep \<longrightarrow> ep' = ep"
    and "listen (JoinHostPort (Addr_String (Ep_VIP ep)) (dec (unat (Ep_PublicPort ep)))) = Some ip" "\<not> IsUnspecified ip"
    and "reconcileOnce (sysImpls None sf listen) cy (R_engine s, R_world s) = (e', w')"
  shows "\<exists>srv m. W_dns w' = Some (md, srv) \<and> W_proxy w' = Some m
    \<and> answersA md srv (Ep_FQDN ep) (Ep_VIP ep) \<and> ResolveVIP e' (Ep_FQDN ep) = Some (Addr_String (Ep_VIP ep))
    \<and> serves m (Ep_VIP ep) (Ep_PublicPort ep) = Some \<lparr>BT_host = loopback4, BT_port = Ep_TargetBind ep\<rparr>"
proof -
  obtain pool where "sys_inv md pool (R_engine s, R_world s)"
    using serveStart_sys_inv [OF assms(1,2)] daemon_inv [OF assms(3)] by blast
  from good_cycle_routes_facts [where listen = listen, OF this assms(4-7) _ assms(9-12)] assms(8) show ?thesis by simp
qed

theorem good_cycle_routes_witness:
  "\<exists>e' w' srv m. reconcileOnce (sysImpls None None lane_listen) docker_up (R_engine lane_run, R_world lane_run) = (e', w')
     \<and> W_dns w' = Some (plain_mdns, srv) \<and> W_proxy w' = Some m
     \<and> answersA plain_mdns srv ''web.blue.shop.lane.test'' (Addr4 0x7F4D000A)
     \<and> ResolveVIP e' ''web.blue.shop.lane.test'' = Some ''127.77.0.10''
     \<and> serves m (Addr4 0x7F4D000A) 80 = Some \<lparr>BT_host = loopback4, BT_port = 4002\<rparr>"
proof -
  obtain e' w' where r: "reconcileOnce (sysImpls None None lane_listen) docker_up (R_engine lane_run, R_world lane_run) = (e', w')" by force
  have "string4 0x7F4D000A = ''127.77.0.10''" by code_simp
  with r good_cycle_routes [where listen = lane_listen, OF example_start_ok example_start lane_daemon docker_up_ok lane_good web_ep_facts r]
  show ?thesis by (auto simp: web_ep_def)
qed

text \<open>
  C3 (functional).  The name of a published stack, after a cycle in which Docker answers and the leases are
  saved.  DNS answers it with the stack's VIP.
  \<open>stacklane resolve\<close> says the same, unless an endpoint of the instance-less stack of that project has the
  name as well; then it gives the VIP of that endpoint, which is a different one.
\<close>

theorem good_cycle_stack_names:
  assumes "start_ok md cfg fs" "serveStart env sv md cfg fs t = (t', Inr (lock, sys))" "daemon sys s" "cycle_ok cy"
    and "good_cycle sf cy (R_engine s, R_world s) desired" "map_of (Stacks desired) k = Some st"
    and "name = stackName (D_BaseDomain (E_deps (R_engine s))) st"
    and "reconcileOnce (sysImpls None sf listen) cy (R_engine s, R_world s) = (e', w')"
  shows "(\<exists>srv. W_dns w' = Some (md, srv) \<and> answersA md srv name (Stack_VIP st))
    \<and> ((\<forall>ep\<in>ran (map_of (Endpoints desired)). Ep_FQDN ep \<noteq> name) \<longrightarrow> ResolveVIP e' name = Some (Addr_String (Stack_VIP st)))
    \<and> (\<forall>ep\<in>ran (map_of (Endpoints desired)). Ep_FQDN ep = name \<longrightarrow>
         ResolveVIP e' name = Some (Addr_String (Ep_VIP ep)) \<and> Ep_VIP ep \<noteq> Stack_VIP st)"
proof -
  let ?base = "D_BaseDomain (E_deps (R_engine s))"
  obtain pool where p: "sys_inv md pool (R_engine s, R_world s)"
    using serveStart_sys_inv [OF assms(1,2)] daemon_inv [OF assms(3)] by blast
  show ?thesis
  proof (rule good_cycle_publishes [OF p assms(4,5) assms(8) [symmetric] refl], unfold fst_conv snd_conv)
    fix srv m snap' ws m0
    assume w: "W_dns w' = Some (md, srv)" "mdns_ok md"
      and dns: "\<And>r. r \<in> set (buildDNSRecords desired ?base (D_DNSTTL (E_deps (R_engine s)))) \<Longrightarrow>
        lookupA md srv (Rec_Name r) = Some (Rec_VIP r) \<and> inZone srv (CanonicalName md (Rec_Name r))"
      and res: "St_Resolve (E_snapshot e') = resolveMap desired ?base"
      and ok: "desired_ok (Pool_Contains pool) ws snap' desired" "\<forall>c\<in>set ws. wf_cand (buildCfg (E_deps (R_engine s))) c"
    obtain r where "r \<in> set (buildDNSRecords desired ?base (D_DNSTTL (E_deps (R_engine s))))" "Rec_Name r = name" "Rec_VIP r = Stack_VIP st"
      using desired_dns_stack [OF ok(1) assms(6), of ?base] unfolding assms(7) by blast
    with dns [of r] have "answersA md srv name (Stack_VIP st)" using answersA_I [OF w(2), of srv name] by simp
    moreover have "ResolveVIP e' name = Some (Addr_String (Stack_VIP st))"
      if "\<forall>ep\<in>ran (map_of (Endpoints desired)). Ep_FQDN ep \<noteq> name"
      using resolve_stack [where base = ?base, OF ok _ assms(6)] that unfolding assms(7)
      by (intro ResolveVIP_map) (force simp: res buildCfg_def ran_def)
    moreover have "ResolveVIP e' name = Some (Addr_String (Ep_VIP ep)) \<and> Ep_VIP ep \<noteq> Stack_VIP st"
      if "map_of (Endpoints desired) mk = Some ep" "Ep_FQDN ep = name" for mk ep
      using resolve_endpoint [OF ok that(1), of ?base] endpoint_clash_vip [OF ok that(1) assms(6)] that(2)
      by (simp add: ResolveVIP_map res assms(7) buildCfg_def)
    ultimately show ?thesis using w(1) by (auto simp: ran_def)
  qed
qed

theorem good_cycle_stack_names_witness:
  "\<exists>e' w' srv. reconcileOnce (sysImpls None None lane_listen) docker_up (R_engine lane_run, R_world lane_run) = (e', w')
     \<and> W_dns w' = Some (plain_mdns, srv) \<and> answersA plain_mdns srv ''blue.shop.lane.test'' (Addr4 0x7F4D000A)
     \<and> ResolveVIP e' ''blue.shop.lane.test'' = Some ''127.77.0.9''"
proof -
  obtain e' w' where r: "reconcileOnce (sysImpls None None lane_listen) docker_up (R_engine lane_run, R_world lane_run) = (e', w')" by force
  have st: "map_of (Stacks lane_desired) ''shop/blue'' = Some blue_stack" by (simp add: lane_desired_def)
  have n: "''blue.shop.lane.test'' = stackName (D_BaseDomain (E_deps (R_engine lane_run))) blue_stack"
    by (simp add: stackName_def BuildFQDNs_def blue_stack_def example_stack_def lane_run_state lane_deps)
  have ep: "blue_ep \<in> ran (map_of (Endpoints lane_desired))" "Ep_FQDN blue_ep = ''blue.shop.lane.test''" "Ep_VIP blue_ep = Addr4 0x7F4D0009"
    by (simp_all add: lane_desired_def blue_ep_def)
  have v: "string4 0x7F4D0009 = ''127.77.0.9''" by code_simp
  note g = good_cycle_stack_names [OF example_start_ok example_start lane_daemon docker_up_ok lane_good st n r]
  have "ResolveVIP e' ''blue.shop.lane.test'' = Some (Addr_String (Ep_VIP blue_ep))"
    using bspec [OF conjunct2 [OF conjunct2 [OF g]] ep(1)] ep(2) by blast
  then have "ResolveVIP e' ''blue.shop.lane.test'' = Some ''127.77.0.9''" by (simp add: ep(3) v)
  moreover have "Stack_VIP blue_stack = Addr4 0x7F4D000A" by (simp add: blue_stack_def example_stack_def)
  ultimately show ?thesis using conjunct1 [OF g] r by metis
qed

end

